(* ===== verification/Rpxy_Prelude.thy ===== *)
theory Rpxy_Prelude
  imports Main "HOL-Library.Word" "HOL-Library.Multiset" "HOL-Library.AList" "HOL-Library.Sublist"
begin

text \<open>
  The shared vocabulary of the development.  A Rust \<open>&str\<close>, \<open>String\<close>, \<open>&[u8]\<close> or \<open>Vec<u8>\<close>
  is a \<open>string\<close>: an Isabelle character is exactly one byte.  Machine integers keep
  their width (\<open>usize\<close> is the 64-bit one of the supported targets).  The byte and string
  functions of the Rust standard library that the sources call are defined here, one
  definition per library function, followed by the generic lemmas the components share.
  \<open>str::trim\<close> and \<open>char::is_whitespace\<close> are defined on the ASCII range, which is
  all that can reach them from a header value (\<open>HeaderValue::to_str\<close> only yields visible ASCII
  and tabs).
\<close>

section \<open>Types\<close>

type_synonym bytes = string
type_synonym u8 = "8 word"
type_synonym u16 = "16 word"
type_synonym u32 = "32 word"
type_synonym u64 = "64 word"
type_synonym usize = "64 word"

named_theorems rust_simps \<open>equations of the modelled standard library functions\<close>

section \<open>Results\<close>

text \<open>\<open>Result<T, E>\<close> is \<open>'e + 'a\<close>, \<open>Inl\<close> the error; \<open>rbind\<close> is the \<open>?\<close> operator.\<close>

definition rbind :: "'e + 'a \<Rightarrow> ('a \<Rightarrow> 'e + 'b) \<Rightarrow> 'e + 'b" where
  "rbind r f = (case r of Inl e \<Rightarrow> Inl e | Inr x \<Rightarrow> f x)"

lemma rbind_simps [simp]:
  "rbind (Inl e) f = Inl e"
  "rbind (Inr x) f = f x"
  by (simp_all add: rbind_def)

lemma rbind_eq_Inr [simp]: "rbind r f = Inr y \<longleftrightarrow> (\<exists>x. r = Inr x \<and> f x = Inr y)"
  by (cases r) auto

lemma rbind_eq_Inl: "rbind r f = Inl e \<longleftrightarrow> r = Inl e \<or> (\<exists>x. r = Inr x \<and> f x = Inl e)"
  by (cases r) auto

text \<open>The kinds of \<open>std::io::Error\<close> that the modelled code creates or tells apart.\<close>

datatype io_error_kind =
    PermissionDenied | UnexpectedEof | InvalidData | InvalidInput | Unsupported | TimedOut | OtherIo

text \<open>\<open>Option::ok_or\<close>, \<open>Result::ok\<close> and \<open>Result::map_err\<close>.\<close>

definition ok_or :: "'a option \<Rightarrow> 'e \<Rightarrow> 'e + 'a" where
  "ok_or x e = (case x of None \<Rightarrow> Inl e | Some v \<Rightarrow> Inr v)"

lemma ok_or_simps [simp]: "ok_or None e = Inl e" "ok_or (Some v) e = Inr v"
  by (simp_all add: ok_or_def)

lemma ok_or_eq_Inr [simp]: "ok_or x e = Inr v \<longleftrightarrow> x = Some v"
  by (cases x) auto

definition res_ok :: "'e + 'a \<Rightarrow> 'a option" where
  "res_ok r = (case r of Inl _ \<Rightarrow> None | Inr v \<Rightarrow> Some v)"

lemma res_ok_simps [simp]: "res_ok (Inl e) = None" "res_ok (Inr v) = Some v"
  by (simp_all add: res_ok_def)

definition map_err :: "('e \<Rightarrow> 'f) \<Rightarrow> 'e + 'a \<Rightarrow> 'f + 'a" where
  "map_err f r = (case r of Inl e \<Rightarrow> Inl (f e) | Inr v \<Rightarrow> Inr v)"

lemma map_err_simps [simp]: "map_err f (Inl e) = Inl (f e)" "map_err f (Inr v) = Inr v"
  by (simp_all add: map_err_def)

lemma map_err_eq_Inr [simp]: "map_err f r = Inr v \<longleftrightarrow> r = Inr v"
  by (cases r) auto

text \<open>A loop that calls a fallible function on each element and stops at the first error.\<close>

fun try_map :: "('a \<Rightarrow> 'e + 'b) \<Rightarrow> 'a list \<Rightarrow> 'e + 'b list" where
  "try_map f [] = Inr []"
| "try_map f (x # xs) = rbind (f x) (\<lambda>y. rbind (try_map f xs) (\<lambda>ys. Inr (y # ys)))"

lemma try_map_Inr_iff:
  "try_map f xs = Inr ys \<longleftrightarrow> list_all2 (\<lambda>x y. f x = Inr y) xs ys"
  by (induction xs arbitrary: ys) (auto simp: list_all2_Cons1)

lemma try_map_elem: "try_map f xs = Inr ys \<Longrightarrow> y \<in> set ys \<Longrightarrow> \<exists>x \<in> set xs. f x = Inr y"
  by (induction xs arbitrary: ys) auto

lemma try_map_all_Inr: "(\<And>x. x \<in> set xs \<Longrightarrow> f x = Inr (g x)) \<Longrightarrow> try_map f xs = Inr (map g xs)"
  by (induction xs) auto

section \<open>Bytes\<close>

definition byte :: "char \<Rightarrow> nat" where
  "byte c = of_char c"

definition is_ascii_digit :: "char \<Rightarrow> bool" where
  "is_ascii_digit c \<longleftrightarrow> 48 \<le> byte c \<and> byte c \<le> 57"

definition is_ascii_uppercase :: "char \<Rightarrow> bool" where
  "is_ascii_uppercase c \<longleftrightarrow> 65 \<le> byte c \<and> byte c \<le> 90"

definition is_ascii_lowercase :: "char \<Rightarrow> bool" where
  "is_ascii_lowercase c \<longleftrightarrow> 97 \<le> byte c \<and> byte c \<le> 122"

definition is_ascii_alphanumeric :: "char \<Rightarrow> bool" where
  "is_ascii_alphanumeric c \<longleftrightarrow> is_ascii_digit c \<or> is_ascii_uppercase c \<or> is_ascii_lowercase c"

definition is_whitespace :: "char \<Rightarrow> bool" where
  "is_whitespace c \<longleftrightarrow> byte c = 32 \<or> (9 \<le> byte c \<and> byte c \<le> 13)"

definition lower_char :: "char \<Rightarrow> char" where
  "lower_char c = (if is_ascii_uppercase c then char_of (byte c + 32) else c)"

definition to_ascii_lowercase :: "bytes \<Rightarrow> bytes" where
  "to_ascii_lowercase s = map lower_char s"

definition eq_ignore_ascii_case :: "bytes \<Rightarrow> bytes \<Rightarrow> bool" where
  "eq_ignore_ascii_case a b \<longleftrightarrow> to_ascii_lowercase a = to_ascii_lowercase b"

lemmas char_class_defs [rust_simps] =
  is_ascii_digit_def is_ascii_uppercase_def is_ascii_lowercase_def is_ascii_alphanumeric_def
  is_whitespace_def byte_def

lemma byte_lower_char: "byte (lower_char c) = (if is_ascii_uppercase c then byte c + 32 else byte c)"
  by (auto simp: lower_char_def is_ascii_uppercase_def byte_def)

lemma lower_char_idem [simp]: "lower_char (lower_char c) = lower_char c"
proof -
  have "\<not> is_ascii_uppercase (lower_char c)"
    by (auto simp: is_ascii_uppercase_def byte_lower_char)
  then show ?thesis by (simp add: lower_char_def)
qed

lemma to_ascii_lowercase_idem [simp]: "to_ascii_lowercase (to_ascii_lowercase s) = to_ascii_lowercase s"
  by (simp add: to_ascii_lowercase_def)

lemma to_ascii_lowercase_Nil [simp]: "to_ascii_lowercase [] = []"
  by (simp add: to_ascii_lowercase_def)

lemma length_to_ascii_lowercase [simp]: "length (to_ascii_lowercase s) = length s"
  by (simp add: to_ascii_lowercase_def)

lemma to_ascii_lowercase_append [simp]:
  "to_ascii_lowercase (a @ b) = to_ascii_lowercase a @ to_ascii_lowercase b"
  by (simp add: to_ascii_lowercase_def)

lemma eq_ignore_ascii_case_refl [simp]: "eq_ignore_ascii_case a a"
  by (simp add: eq_ignore_ascii_case_def)

section \<open>Strings\<close>

text \<open>\<open>str::trim\<close>, \<open>str::split\<close>, \<open>str::split_once\<close>, \<open>str::rsplit_once\<close>,
  \<open>str::strip_prefix\<close>, \<open>str::strip_suffix\<close>, \<open>starts_with\<close> and \<open>slice::split\<close>.\<close>

definition trim_start :: "bytes \<Rightarrow> bytes" where
  "trim_start s = dropWhile is_whitespace s"

definition trim :: "bytes \<Rightarrow> bytes" where
  "trim s = rev (dropWhile is_whitespace (rev (dropWhile is_whitespace s)))"

fun split_by :: "(char \<Rightarrow> bool) \<Rightarrow> bytes \<Rightarrow> bytes list" where
  "split_by p [] = [[]]"
| "split_by p (c # cs) =
     (if p c then [] # split_by p cs
      else (case split_by p cs of [] \<Rightarrow> [[c]] | x # xs \<Rightarrow> (c # x) # xs))"

definition split_on :: "char \<Rightarrow> bytes \<Rightarrow> bytes list" where
  "split_on d = split_by (\<lambda>c. c = d)"

definition split_once :: "char \<Rightarrow> bytes \<Rightarrow> (bytes \<times> bytes) option" where
  "split_once d s =
     (if d \<in> set s then Some (takeWhile (\<lambda>c. c \<noteq> d) s, tl (dropWhile (\<lambda>c. c \<noteq> d) s)) else None)"

definition rsplit_once :: "char \<Rightarrow> bytes \<Rightarrow> (bytes \<times> bytes) option" where
  "rsplit_once d s =
     (case split_once d (rev s) of None \<Rightarrow> None | Some (a, b) \<Rightarrow> Some (rev b, rev a))"

definition strip_prefix :: "bytes \<Rightarrow> bytes \<Rightarrow> bytes option" where
  "strip_prefix p s = (if prefix p s then Some (drop (length p) s) else None)"

definition strip_suffix :: "bytes \<Rightarrow> bytes \<Rightarrow> bytes option" where
  "strip_suffix p s = (if suffix p s then Some (take (length s - length p) s) else None)"

definition starts_with :: "bytes \<Rightarrow> bytes \<Rightarrow> bool" where
  "starts_with s p \<longleftrightarrow> prefix p s"

text \<open>\<open>[S]::join\<close>.\<close>

fun join :: "bytes \<Rightarrow> bytes list \<Rightarrow> bytes" where
  "join sep [] = []"
| "join sep [x] = x"
| "join sep (x # y # ys) = x @ sep @ join sep (y # ys)"

lemma split_by_ne [simp]: "split_by p s \<noteq> []"
  by (induction s) (auto split: list.splits)

lemma split_by_no_sep: "\<forall>c \<in> set s. \<not> p c \<Longrightarrow> split_by p s = [s]"
  by (induction s) auto

lemma split_by_sep_append:
  "\<forall>c \<in> set a. \<not> p c \<Longrightarrow> p d \<Longrightarrow> split_by p (a @ d # b) = a # split_by p b"
  by (induction a) auto

lemma split_by_elems: "x \<in> set (split_by p s) \<Longrightarrow> c \<in> set x \<Longrightarrow> c \<in> set s \<and> \<not> p c"
  by (induction s arbitrary: x) (auto split: list.splits if_splits, fastforce+)

lemma split_on_no_sep: "d \<notin> set s \<Longrightarrow> split_on d s = [s]"
  by (auto simp: split_on_def intro: split_by_no_sep)

lemma split_on_sep_append: "d \<notin> set a \<Longrightarrow> split_on d (a @ d # b) = a # split_on d b"
  by (auto simp: split_on_def intro: split_by_sep_append)

lemma split_on_append_sep: "split_on d (a @ d # b) = split_on d a @ split_on d b"
  by (induction a) (auto simp: split_on_def split: list.splits)

lemma split_once_append: "d \<notin> set a \<Longrightarrow> split_once d (a @ d # b) = Some (a, b)"
proof -
  assume "d \<notin> set a"
  then have "\<forall>c \<in> set a. c \<noteq> d" by auto
  then have "takeWhile (\<lambda>c. c \<noteq> d) (a @ d # b) = a"
    and "dropWhile (\<lambda>c. c \<noteq> d) (a @ d # b) = d # b"
    by (simp_all add: takeWhile_append dropWhile_append)
  then show ?thesis by (simp add: split_once_def)
qed

lemma split_once_None [simp]: "split_once d s = None \<longleftrightarrow> d \<notin> set s"
  by (simp add: split_once_def)

lemma rsplit_once_append: "d \<notin> set b \<Longrightarrow> rsplit_once d (a @ d # b) = Some (a, b)"
  by (simp add: rsplit_once_def split_once_append)

lemma rsplit_once_None [simp]: "rsplit_once d s = None \<longleftrightarrow> d \<notin> set s"
  by (simp add: rsplit_once_def split_once_def)

lemma split_once_SomeD: "split_once d s = Some (a, b) \<Longrightarrow> s = a @ d # b"
  unfolding split_once_def using takeWhile_dropWhile_id [of "\<lambda>c. c \<noteq> d" s] hd_dropWhile [of "\<lambda>c. c \<noteq> d" s]
  by (cases "dropWhile (\<lambda>c. c \<noteq> d) s") (auto split: if_splits dest: set_takeWhileD)

lemma rsplit_once_SomeD: "rsplit_once d s = Some (a, b) \<Longrightarrow> s = a @ d # b"
  unfolding rsplit_once_def
  by (auto split: option.splits dest!: split_once_SomeD simp: rev_swap)

lemma starts_with_Nil [simp]: "starts_with s []"
  by (simp add: starts_with_def)

lemma starts_with_Cons_Cons [simp]: "starts_with (x # xs) (y # ys) \<longleftrightarrow> x = y \<and> starts_with xs ys"
  by (auto simp: starts_with_def)

lemma starts_with_Nil_Cons [simp]: "\<not> starts_with [] (y # ys)"
  by (simp add: starts_with_def)

lemma dropWhile_nop: "xs = [] \<or> \<not> p (hd xs) \<Longrightarrow> dropWhile p xs = xs"
  by (cases xs) auto

lemma trim_id:
  assumes "s = [] \<or> (\<not> is_whitespace (hd s) \<and> \<not> is_whitespace (last s))"
  shows "trim s = s"
proof (cases "s = []")
  case True
  then show ?thesis by (simp add: trim_def)
next
  case False
  with assms have "dropWhile is_whitespace s = s"
    by (intro dropWhile_nop) auto
  moreover from False assms have "dropWhile is_whitespace (rev s) = rev s"
    by (intro dropWhile_nop) (auto simp: hd_rev)
  ultimately show ?thesis by (simp add: trim_def)
qed

lemma trim_no_ws: "\<forall>c \<in> set s. \<not> is_whitespace c \<Longrightarrow> trim s = s"
  by (rule trim_id) (cases "s = []", auto)

lemma trim_ends: "trim s \<noteq> [] \<Longrightarrow> \<not> is_whitespace (hd (trim s)) \<and> \<not> is_whitespace (last (trim s))"
proof -
  assume ne: "trim s \<noteq> []"
  let ?d = "dropWhile is_whitespace s"
  have l: "\<not> is_whitespace (last (trim s))"
    using ne hd_dropWhile [of is_whitespace "rev ?d"] by (simp add: trim_def last_rev)
  obtain w where w: "?d = trim s @ w"
    by (metis trim_def rev_rev_ident rev_append takeWhile_dropWhile_id)
  then have "hd ?d = hd (trim s)" using ne by (simp add: hd_append)
  moreover have "\<not> is_whitespace (hd ?d)" using w ne by (intro hd_dropWhile) auto
  ultimately show ?thesis using l by simp
qed

lemma trim_trim [simp]: "trim (trim s) = trim s"
  by (rule trim_id) (use trim_ends in auto)

lemma set_trim: "set (trim s) \<subseteq> set s"
  unfolding trim_def by (auto dest!: set_dropWhileD)

lemma trim_Cons_ws: "is_whitespace c \<Longrightarrow> trim (c # s) = trim s"
  by (simp add: trim_def)

lemma split_on_Cons_ne:
  "c \<noteq> d \<Longrightarrow> split_on d (c # s) = (c # hd (split_on d s)) # tl (split_on d s)"
  using split_by_ne [of "\<lambda>c. c = d" s] by (cases "split_by (\<lambda>c. c = d) s") (auto simp: split_on_def)

lemma split_on_ne [simp]: "split_on d s \<noteq> []"
  by (simp add: split_on_def)

lemma map_trim_split_on_ws: "is_whitespace c \<Longrightarrow> c \<noteq> d \<Longrightarrow> map trim (split_on d (c # s)) = map trim (split_on d s)"
  by (cases "split_on d s") (simp_all add: split_on_Cons_ne trim_Cons_ws)

lemma map_trim_split_join:
  assumes "\<forall>t \<in> set ts. d \<notin> set t \<and> trim t = t" and "ts \<noteq> []" and "is_whitespace w" "w \<noteq> d"
  shows "map trim (split_on d (join [d, w] ts)) = ts"
  using assms(1,2)
proof (induction ts)
  case (Cons t ts)
  then show ?case using assms(3,4)
    by (cases ts) (simp_all add: split_on_no_sep split_on_sep_append map_trim_split_on_ws)
qed simp

lemma set_join: "set (join sep ts) \<subseteq> set sep \<union> \<Union> (set ` set ts)"
  by (induction sep ts rule: join.induct) auto

lemma list_all_join: "list_all p sep \<Longrightarrow> list_all (list_all p) ts \<Longrightarrow> list_all p (join sep ts)"
  by (induction sep ts rule: join.induct) auto

section \<open>Decimal and hexadecimal numbers\<close>

definition digit_char :: "nat \<Rightarrow> char" where
  "digit_char n = char_of (if n < 10 then 48 + n else 87 + n)"

fun show_radix :: "nat \<Rightarrow> nat \<Rightarrow> bytes" where
  "show_radix r n =
     (if n < r \<or> r < 2 then [digit_char n] else show_radix r (n div r) @ [digit_char (n mod r)])"

declare show_radix.simps [simp del]

text \<open>\<open>Display\<close> of an unsigned integer and \<open>LowerHex\<close>.\<close>

definition show_nat :: "nat \<Rightarrow> bytes" where
  "show_nat = show_radix 10"

definition show_hex :: "nat \<Rightarrow> bytes" where
  "show_hex = show_radix 16"

text \<open>\<open>char::to_digit\<close>: decimal and hexadecimal digits, either case.\<close>

definition to_digit :: "nat \<Rightarrow> char \<Rightarrow> nat option" where
  "to_digit r c =
     (let b = byte c;
          v = (if is_ascii_digit c then Some (b - 48)
               else if is_ascii_lowercase c then Some (b - 87)
               else if is_ascii_uppercase c then Some (b - 55) else None)
      in case v of None \<Rightarrow> None | Some d \<Rightarrow> if d < r then Some d else None)"

fun radix_val :: "nat \<Rightarrow> nat \<Rightarrow> bytes \<Rightarrow> nat option" where
  "radix_val r acc [] = Some acc"
| "radix_val r acc (c # cs) =
     (case to_digit r c of None \<Rightarrow> None | Some d \<Rightarrow> radix_val r (acc * r + d) cs)"

text \<open>\<open>u16::from_str\<close>, \<open>u64::from_str\<close>: an optional \<open>+\<close>, at least one digit, no overflow.\<close>

definition parse_uint :: "nat \<Rightarrow> bytes \<Rightarrow> nat option" where
  "parse_uint m s =
     (let ds = (case s of c # cs \<Rightarrow> if c = CHR ''+'' then cs else s | [] \<Rightarrow> [])
      in if ds = [] then None
         else case radix_val 10 0 ds of None \<Rightarrow> None | Some n \<Rightarrow> if n \<le> m then Some n else None)"

lemma byte_digit_char: "n < 16 \<Longrightarrow> byte (digit_char n) = (if n < 10 then 48 + n else 87 + n)"
  by (simp add: byte_def digit_char_def)

lemma to_digit_digit_char: "n < r \<Longrightarrow> r \<le> 16 \<Longrightarrow> to_digit r (digit_char n) = Some n"
  by (auto simp: to_digit_def byte_digit_char is_ascii_digit_def is_ascii_lowercase_def)

lemma radix_val_append:
  "radix_val r acc (a @ b) = (case radix_val r acc a of None \<Rightarrow> None | Some v \<Rightarrow> radix_val r v b)"
  by (induction a arbitrary: acc) (auto split: option.splits)

lemma radix_val_show_radix: "2 \<le> r \<Longrightarrow> r \<le> 16 \<Longrightarrow> radix_val r 0 (show_radix r n) = Some n"
proof (induction r n rule: show_radix.induct)
  case (1 r n)
  show ?case
  proof (cases "n < r")
    case True
    with 1 show ?thesis by (simp add: show_radix.simps to_digit_digit_char)
  next
    case False
    with 1 have "radix_val r 0 (show_radix r (n div r)) = Some (n div r)" by simp
    moreover have "n mod r < r" using "1.prems" by simp
    ultimately show ?thesis using False "1.prems"
      by (simp add: show_radix.simps [of r n] radix_val_append to_digit_digit_char)
  qed
qed

lemma show_radix_ne [simp]: "show_radix r n \<noteq> []"
  by (subst show_radix.simps) simp

lemma show_radix_chars:
  "2 \<le> r \<Longrightarrow> c \<in> set (show_radix r n) \<Longrightarrow> \<exists>d < r. c = digit_char d"
proof (induction r n rule: show_radix.induct)
  case (1 r n)
  show ?case
  proof (cases "n < r")
    case True
    with 1 show ?thesis by (auto simp: show_radix.simps)
  next
    case False
    with "1.prems" have "c \<in> set (show_radix r (n div r)) \<or> c = digit_char (n mod r)"
      by (auto simp: show_radix.simps [of r n])
    then show ?thesis
    proof
      assume "c \<in> set (show_radix r (n div r))"
      with False "1.prems" show ?thesis by (intro "1.IH") auto
    next
      assume "c = digit_char (n mod r)"
      with "1.prems" show ?thesis by (intro exI [of _ "n mod r"]) simp
    qed
  qed
qed

lemma show_radix_length: "2 \<le> r \<Longrightarrow> n < r ^ Suc k \<Longrightarrow> length (show_radix r n) \<le> Suc k"
proof (induction k arbitrary: n)
  case 0
  then show ?case by (simp add: show_radix.simps)
next
  case (Suc k)
  show ?case
  proof (cases "n < r")
    case True
    then show ?thesis by (simp add: show_radix.simps)
  next
    case False
    have "n div r < r ^ Suc k"
      using Suc.prems by (simp add: div_less_iff_less_mult mult.commute)
    from Suc.IH [OF Suc.prems(1) this] False Suc.prems show ?thesis
      by (simp add: show_radix.simps [of r n])
  qed
qed

lemma show_nat_digits: "c \<in> set (show_nat n) \<Longrightarrow> is_ascii_digit c"
  using show_radix_chars [of 10 c n]
  by (auto simp: show_nat_def is_ascii_digit_def byte_digit_char)

lemma show_nat_ne [simp]: "show_nat n \<noteq> []"
  by (simp add: show_nat_def)

lemma radix_val_show_nat: "radix_val 10 0 (show_nat n) = Some n"
  by (simp add: show_nat_def radix_val_show_radix)

lemma is_ascii_digit_not_plus: "is_ascii_digit c \<Longrightarrow> c \<noteq> CHR ''+''"
  by (auto simp: is_ascii_digit_def byte_def)

lemma parse_uint_show_nat: "n \<le> m \<Longrightarrow> parse_uint m (show_nat n) = Some n"
proof -
  assume n: "n \<le> m"
  obtain c cs where s: "show_nat n = c # cs"
    by (cases "show_nat n") auto
  then have "is_ascii_digit c" using show_nat_digits [of c n] by simp
  then have "c \<noteq> CHR ''+''" by (rule is_ascii_digit_not_plus)
  with s n show ?thesis
    using radix_val_show_nat [of n] by (simp add: parse_uint_def)
qed

section \<open>Association lists as hash maps\<close>

text \<open>
  A Rust \<open>HashMap\<close> is the list of its entries in iteration order, with distinct keys; the order
  is unspecified, so every result taken from an iteration is shown not to depend on it.
\<close>

lemma map_of_mset_eq:
  assumes "distinct (map fst xs)" and "mset xs = mset ys"
  shows "map_of xs = map_of ys"
proof -
  have "distinct (map fst ys)"
    using assms by (metis mset_eq_imp_distinct_iff mset_map)
  moreover have "set xs = set ys"
    using assms(2) by (rule mset_eq_setD)
  ultimately show ?thesis
    using assms(1) by (simp add: map_of_inject_set)
qed

section \<open>Machine integers\<close>

lemma usize_bound: "unat (w :: usize) < 2 ^ 64"
  by (rule order_less_le_trans [OF unsigned_less]) simp

text \<open>\<open>usize::saturating_add\<close> with the length of a slice, and \<open>usize::saturating_sub\<close> by one.\<close>

definition saturating_add :: "usize \<Rightarrow> nat \<Rightarrow> usize" where
  "saturating_add a n = of_nat (min (unat a + n) (2 ^ 64 - 1))"

lemma unat_saturating_add: "unat (saturating_add a n) = min (unat a + n) (2 ^ 64 - 1)"
  unfolding saturating_add_def by (subst unat_of_nat) (simp add: min_def)

definition saturating_dec :: "usize \<Rightarrow> usize" where
  "saturating_dec a = (if a = 0 then 0 else a - 1)"

lemma unat_saturating_dec: "unat (saturating_dec a) = unat a - 1"
  by (simp add: saturating_dec_def unat_minus_one)

end
