(* ===== verification/Ip_Addr.thy ===== *)
theory Ip_Addr
  imports Rpxy_Prelude
begin

text \<open>
  The part of \<open>std::net\<close> the sources use: IP and socket addresses, their \<open>FromStr\<close> parser
  (the standard library's recursive-descent parser, function by function), their \<open>Display\<close>
  (RFC 5952 compression for IPv6), and the round trip between the two; and on top of it
  \<open>ToCanonical\<close> of \<open>message_handler/canonical_address.rs\<close>.
\<close>

section \<open>Addresses\<close>

datatype ipv4 = Ipv4Addr u8 u8 u8 u8

datatype ipv6 = Ipv6Addr u16 u16 u16 u16 u16 u16 u16 u16

datatype ip_addr = V4 ipv4 | V6 ipv6

datatype socket_addr = SocketAddr (sa_ip: ip_addr) (sa_port: u16)

fun segments :: "ipv6 \<Rightarrow> u16 list" where
  "segments (Ipv6Addr a b c d e f g h) = [a, b, c, d, e, f, g, h]"

fun of_segments :: "u16 list \<Rightarrow> ipv6" where
  "of_segments [a, b, c, d, e, f, g, h] = Ipv6Addr a b c d e f g h"
| "of_segments _ = Ipv6Addr 0 0 0 0 0 0 0 0"

definition be_bytes :: "u8 \<Rightarrow> u8 \<Rightarrow> u16" where
  "be_bytes hi lo = of_nat (unat hi * 256 + unat lo)"

definition hi_byte :: "u16 \<Rightarrow> u8" where
  "hi_byte w = of_nat (unat w div 256)"

definition lo_byte :: "u16 \<Rightarrow> u8" where
  "lo_byte w = of_nat (unat w mod 256)"

text \<open>\<open>Ipv6Addr::to_ipv4\<close> (mapped and compatible addresses) and \<open>Ipv6Addr::to_ipv4_mapped\<close>.\<close>

fun to_ipv4 :: "ipv6 \<Rightarrow> ipv4 option" where
  "to_ipv4 (Ipv6Addr a b c d e f g h) =
     (if [a, b, c, d, e] = [0, 0, 0, 0, 0] \<and> (f = 0 \<or> f = 0xffff)
      then Some (Ipv4Addr (hi_byte g) (lo_byte g) (hi_byte h) (lo_byte h)) else None)"

fun to_ipv4_mapped :: "ipv6 \<Rightarrow> ipv4 option" where
  "to_ipv4_mapped (Ipv6Addr a b c d e f g h) =
     (if [a, b, c, d, e, f] = [0, 0, 0, 0, 0, 0xffff]
      then Some (Ipv4Addr (hi_byte g) (lo_byte g) (hi_byte h) (lo_byte h)) else None)"

lemma segments_of_segments: "length xs = 8 \<Longrightarrow> segments (of_segments xs) = xs"
  by (auto simp: numeral_eq_Suc length_Suc_conv)

lemma of_segments_segments [simp]: "of_segments (segments a) = a"
  by (cases a) simp

lemma length_segments [simp]: "length (segments a) = 8"
  by (cases a) simp

lemma u8_bound: "unat (b :: u8) < 256"
  by (rule order_less_le_trans [OF unsigned_less]) simp

lemma u16_bound: "unat (w :: u16) < 65536"
  by (rule order_less_le_trans [OF unsigned_less]) simp

lemma hi_lo_be_bytes [simp]: "hi_byte (be_bytes a b) = a" "lo_byte (be_bytes a b) = b"
proof -
  have "unat a * 256 + unat b < 65536"
    using u8_bound [of a] u8_bound [of b] by simp
  then have "unat (be_bytes a b) = unat a * 256 + unat b"
    unfolding be_bytes_def by (subst unat_of_nat) simp
  then show "hi_byte (be_bytes a b) = a" "lo_byte (be_bytes a b) = b"
    using u8_bound [of b] by (simp_all add: hi_byte_def lo_byte_def)
qed

lemma be_bytes_hi_lo [simp]: "be_bytes (hi_byte w) (lo_byte w) = w"
proof -
  have "unat w div 256 < 256" using u16_bound [of w] by (simp add: less_mult_imp_div_less)
  then have "unat (hi_byte w) = unat w div 256" by (simp add: hi_byte_def unat_of_nat)
  moreover have "unat (lo_byte w) = unat w mod 256" by (simp add: lo_byte_def unat_of_nat)
  ultimately show ?thesis by (simp add: be_bytes_def)
qed

section \<open>Canonical addresses\<close>

text \<open>\<open>ToCanonical::to_canonical\<close> for \<open>SocketAddr\<close>.\<close>

fun to_canonical :: "socket_addr \<Rightarrow> socket_addr" where
  "to_canonical (SocketAddr (V4 a) p) = SocketAddr (V4 a) p"
| "to_canonical (SocketAddr (V6 a) p) =
     (case to_ipv4 a of
        Some mapped \<Rightarrow>
          if mapped = Ipv4Addr 0 0 0 1 then SocketAddr (V6 a) p else SocketAddr (V4 mapped) p
      | None \<Rightarrow> SocketAddr (V6 a) p)"

text \<open>\<open>canonicalize_ip\<close> of \<open>header_ops/forwarding.rs\<close>.\<close>

definition canonicalize_ip :: "ip_addr \<Rightarrow> ip_addr" where
  "canonicalize_ip ip = sa_ip (to_canonical (SocketAddr ip 0))"

lemma sa_port_to_canonical [simp]: "sa_port (to_canonical a) = sa_port a"
  by (cases a rule: to_canonical.cases) (auto split: option.splits)

lemma sa_ip_to_canonical: "sa_ip (to_canonical a) = canonicalize_ip (sa_ip a)"
  by (cases a rule: to_canonical.cases) (auto simp: canonicalize_ip_def split: option.splits)

lemma canonicalize_ip_idem [simp]: "canonicalize_ip (canonicalize_ip ip) = canonicalize_ip ip"
  by (cases ip) (auto simp: canonicalize_ip_def split: option.splits)

section \<open>Printing\<close>

fun display_ipv4 :: "ipv4 \<Rightarrow> bytes" where
  "display_ipv4 (Ipv4Addr a b c d) =
     show_nat (unat a) @ ''.'' @ show_nat (unat b) @ ''.'' @ show_nat (unat c) @ ''.'' @ show_nat (unat d)"

text \<open>The scan for the first longest run of zero segments: \<open>(start, len)\<close> pairs.\<close>

fun zero_span :: "nat \<Rightarrow> nat \<times> nat \<Rightarrow> nat \<times> nat \<Rightarrow> u16 list \<Rightarrow> nat \<times> nat" where
  "zero_span i longest current [] = longest"
| "zero_span i longest current (s # ss) =
     (if s = 0 then
        let cur = (if snd current = 0 then (i, 1) else (fst current, snd current + 1))
        in zero_span (Suc i) (if snd longest < snd cur then cur else longest) cur ss
      else zero_span (Suc i) longest (0, 0) ss)"

definition fmt_subslice :: "u16 list \<Rightarrow> bytes" where
  "fmt_subslice ss = join '':'' (map (\<lambda>s. show_hex (unat s)) ss)"

definition display_ipv6 :: "ipv6 \<Rightarrow> bytes" where
  "display_ipv6 a =
     (case to_ipv4_mapped a of
        Some v4 \<Rightarrow> ''::ffff:'' @ display_ipv4 v4
      | None \<Rightarrow>
          let ss = segments a; (start, len) = zero_span 0 (0, 0) (0, 0) ss
          in if len > 1
             then fmt_subslice (take start ss) @ ''::'' @ fmt_subslice (drop (start + len) ss)
             else fmt_subslice ss)"

fun display_ip :: "ip_addr \<Rightarrow> bytes" where
  "display_ip (V4 a) = display_ipv4 a"
| "display_ip (V6 a) = display_ipv6 a"

section \<open>Parsing\<close>

type_synonym 'a parser = "bytes \<Rightarrow> ('a \<times> bytes) option"

text \<open>The digit loop of \<open>Parser::read_number\<close>: value, number of digits, rest.\<close>

fun read_digits :: "nat \<Rightarrow> nat \<Rightarrow> nat \<Rightarrow> nat \<Rightarrow> bytes \<Rightarrow> (nat \<times> nat \<times> bytes) option" where
  "read_digits r max_digits k acc [] = Some (acc, k, [])"
| "read_digits r max_digits k acc (c # cs) =
     (case to_digit r c of
        None \<Rightarrow> Some (acc, k, c # cs)
      | Some d \<Rightarrow> if max_digits < Suc k then None else read_digits r max_digits (Suc k) (acc * r + d) cs)"

definition read_number :: "nat \<Rightarrow> nat \<Rightarrow> bool \<Rightarrow> nat \<Rightarrow> nat parser" where
  "read_number r max_digits allow_zero_prefix max_val s =
     (case read_digits r max_digits 0 0 s of
        None \<Rightarrow> None
      | Some (v, k, rest) \<Rightarrow>
          if k = 0 then None
          else if \<not> allow_zero_prefix \<and> s \<noteq> [] \<and> hd s = CHR ''0'' \<and> 1 < k then None
          else if v \<le> max_val then Some (v, rest) else None)"

fun read_given_char :: "char \<Rightarrow> unit parser" where
  "read_given_char c (x # xs) = (if x = c then Some ((), xs) else None)"
| "read_given_char c [] = None"

definition read_separator :: "char \<Rightarrow> nat \<Rightarrow> 'a parser \<Rightarrow> 'a parser" where
  "read_separator sep index inner s =
     (if 0 < index then (case read_given_char sep s of None \<Rightarrow> None | Some (_, s') \<Rightarrow> inner s')
      else inner s)"

definition read_octet :: "nat \<Rightarrow> nat parser" where
  "read_octet i = read_separator (CHR ''.'') i (read_number 10 3 False 255)"

definition read_ipv4_addr :: "ipv4 parser" where
  "read_ipv4_addr s =
     (case read_octet 0 s of None \<Rightarrow> None | Some (a, s1) \<Rightarrow>
      (case read_octet 1 s1 of None \<Rightarrow> None | Some (b, s2) \<Rightarrow>
       (case read_octet 2 s2 of None \<Rightarrow> None | Some (c, s3) \<Rightarrow>
        (case read_octet 3 s3 of None \<Rightarrow> None | Some (d, s4) \<Rightarrow>
         Some (Ipv4Addr (of_nat a) (of_nat b) (of_nat c) (of_nat d), s4)))))"

text \<open>
  \<open>read_groups\<close> of \<open>Parser::read_ipv6_addr\<close>: at most \<open>limit - i\<close> more groups, the last two of
  which may be an embedded IPv4 address; the groups read, whether the IPv4 form was used, the rest.
\<close>

function read_groups :: "nat \<Rightarrow> nat \<Rightarrow> bytes \<Rightarrow> u16 list \<times> bool \<times> bytes" where
  "read_groups limit i s =
     (if limit \<le> i then ([], False, s)
      else
        case (if Suc i < limit then read_separator (CHR '':'') i read_ipv4_addr s else None) of
          Some (Ipv4Addr a b c d, s') \<Rightarrow> ([be_bytes a b, be_bytes c d], True, s')
        | None \<Rightarrow>
            (case read_separator (CHR '':'') i (read_number 16 4 True 65535) s of
               None \<Rightarrow> ([], False, s)
             | Some (g, s') \<Rightarrow>
                 let (gs, v4, rest) = read_groups limit (Suc i) s' in (of_nat g # gs, v4, rest)))"
  by pat_completeness auto
termination
  by (relation "measure (\<lambda>(limit, i, s). limit - i)") auto

declare read_groups.simps [simp del]

definition read_ipv6_addr :: "ipv6 parser" where
  "read_ipv6_addr s =
     (let (head, head_ipv4, s1) = read_groups 8 0 s
      in if length head = 8 then Some (of_segments head, s1)
         else if head_ipv4 then None
         else
           case read_given_char (CHR '':'') s1 of None \<Rightarrow> None | Some (_, s2) \<Rightarrow>
           (case read_given_char (CHR '':'') s2 of None \<Rightarrow> None | Some (_, s3) \<Rightarrow>
              let (tl, _, s4) = read_groups (8 - (length head + 1)) 0 s3
              in Some (of_segments (head @ replicate (8 - length head - length tl) 0 @ tl), s4)))"

text \<open>\<open>Parser::parse_with\<close>: the whole input must be consumed; \<open>IpAddr::from_str\<close>.\<close>

definition parse_with :: "'a parser \<Rightarrow> bytes \<Rightarrow> 'a option" where
  "parse_with p s = (case p s of Some (v, []) \<Rightarrow> Some v | _ \<Rightarrow> None)"

definition read_ip_addr :: "ip_addr parser" where
  "read_ip_addr s =
     (case read_ipv4_addr s of
        Some (v, rest) \<Rightarrow> Some (V4 v, rest)
      | None \<Rightarrow> (case read_ipv6_addr s of None \<Rightarrow> None | Some (v, rest) \<Rightarrow> Some (V6 v, rest)))"

definition ip_from_str :: "bytes \<Rightarrow> ip_addr option" where
  "ip_from_str = parse_with read_ip_addr"

section \<open>The round trip\<close>

definition no_digit :: "nat \<Rightarrow> bytes \<Rightarrow> bool" where
  "no_digit r s \<longleftrightarrow> s = [] \<or> to_digit r (hd s) = None"

lemma no_digit_simps [simp]:
  "no_digit r []"
  "no_digit r (c # s) \<longleftrightarrow> to_digit r c = None"
  by (simp_all add: no_digit_def)

lemma to_digit_seps [simp]:
  "to_digit r (CHR ''.'') = None" "to_digit r (CHR '':'') = None"
  "to_digit r (CHR '']'') = None" "to_digit r (CHR '','') = None"
  by (simp_all add: to_digit_def rust_simps)

lemma read_digits_append:
  assumes "radix_val r acc ds = Some v" and "no_digit r rest" and "k + length ds \<le> m"
  shows "read_digits r m k acc (ds @ rest) = Some (v, k + length ds, rest)"
  using assms
proof (induction ds arbitrary: k acc)
  case Nil
  then show ?case by (cases rest) auto
next
  case (Cons d ds)
  then show ?case by (auto split: option.splits)
qed

lemma show_radix_leading_zero:
  "2 \<le> r \<Longrightarrow> r \<le> 16 \<Longrightarrow> hd (show_radix r n) = CHR ''0'' \<Longrightarrow> length (show_radix r n) = 1"
proof (induction r n rule: show_radix.induct)
  case (1 r n)
  show ?case
  proof (cases "n < r")
    case True
    then show ?thesis by (simp add: show_radix.simps)
  next
    case False
    have eq: "show_radix r n = show_radix r (n div r) @ [digit_char (n mod r)]"
      using False "1.prems" by (subst show_radix.simps) simp
    then have "hd (show_radix r (n div r)) = CHR ''0''"
      using "1.prems" by simp
    with False "1.prems" have "length (show_radix r (n div r)) = 1" by (intro "1.IH") auto
    with \<open>hd (show_radix r (n div r)) = CHR ''0''\<close> have "show_radix r (n div r) = ''0''"
      by (cases "show_radix r (n div r)") auto
    then have "Some (n div r) = radix_val r 0 ''0''"
      using radix_val_show_radix [of r "n div r"] "1.prems" by simp
    also have "\<dots> = Some 0" using "1.prems" by (simp add: to_digit_def rust_simps)
    finally show ?thesis using False "1.prems" by (simp add: div_eq_0_iff)
  qed
qed

lemma read_number_show:
  assumes "2 \<le> r" and "r \<le> 16" and "n < r ^ Suc k" and "n \<le> m" and "no_digit r rest"
  shows "read_number r (Suc k) z m (show_radix r n @ rest) = Some (n, rest)"
proof -
  have len: "length (show_radix r n) \<le> Suc k" using assms by (intro show_radix_length)
  have "read_digits r (Suc k) 0 0 (show_radix r n @ rest) = Some (n, 0 + length (show_radix r n), rest)"
    using assms len by (intro read_digits_append radix_val_show_radix) auto
  moreover have "hd (show_radix r n @ rest) = CHR ''0'' \<Longrightarrow> length (show_radix r n) = 1"
    using show_radix_leading_zero [of r n] assms by simp
  ultimately show ?thesis using assms by (auto simp: read_number_def)
qed

lemma read_octet_show:
  "no_digit 10 rest \<Longrightarrow> read_octet 0 (show_nat (unat (a :: u8)) @ rest) = Some (unat a, rest)"
  "no_digit 10 rest \<Longrightarrow> read_octet (Suc i) (CHR ''.'' # show_nat (unat a) @ rest) = Some (unat a, rest)"
  using read_number_show [of 10 "unat a" 2 255 rest False] u8_bound [of a]
  by (simp_all add: read_octet_def read_separator_def show_nat_def numeral_eq_Suc)

lemma read_ipv4_display:
  "no_digit 10 rest \<Longrightarrow> read_ipv4_addr (display_ipv4 a @ rest) = Some (a, rest)"
  by (cases a) (simp add: read_ipv4_addr_def read_octet_show numeral_eq_Suc)

lemma read_number_rest: "read_number r m z mv s = Some (v, rest) \<Longrightarrow> set rest \<subseteq> set s"
proof -
  have *: "read_digits r m k acc s = Some (v, k', rest) \<Longrightarrow> set rest \<subseteq> set s" for k acc k' v
    by (induction r m k acc s rule: read_digits.induct) (auto split: option.splits if_splits)
  assume "read_number r m z mv s = Some (v, rest)"
  then obtain k' where "read_digits r m 0 0 s = Some (v, k', rest)"
    by (auto simp: read_number_def split: option.splits if_splits)
  then show ?thesis by (rule *)
qed

lemma read_ipv4_no_dot: "CHR ''.'' \<notin> set s \<Longrightarrow> read_ipv4_addr s = None"
proof (cases "read_octet 0 s")
  case (Some r)
  obtain a s1 where r: "r = (a, s1)" by (cases r)
  assume "CHR ''.'' \<notin> set s"
  then have "CHR ''.'' \<notin> set s1"
    using Some r read_number_rest by (fastforce simp: read_octet_def read_separator_def)
  then have "read_octet 1 s1 = None"
    by (cases s1) (auto simp: read_octet_def read_separator_def)
  then show ?thesis using Some r by (simp add: read_ipv4_addr_def)
qed (simp add: read_ipv4_addr_def)

lemma read_number_no_digit: "no_digit r s \<Longrightarrow> read_number r m z mv s = None"
  by (cases s) (auto simp: read_number_def)

lemma read_ipv4_no_digit: "no_digit 10 s \<Longrightarrow> read_ipv4_addr s = None"
  by (simp add: read_ipv4_addr_def read_octet_def read_separator_def read_number_no_digit)

lemma read_hex_show:
  "no_digit 16 rest \<Longrightarrow> read_number 16 4 True 65535 (show_hex (unat (g :: u16)) @ rest) = Some (unat g, rest)"
  using read_number_show [of 16 "unat g" 3 65535 rest True] u16_bound [of g]
  by (simp add: show_hex_def)

text \<open>Where a list of groups ends: at the end of the input or at a double colon.\<close>

definition group_end :: "bytes \<Rightarrow> bool" where
  "group_end s \<longleftrightarrow> s = [] \<or> (\<exists>t. s = ''::'' @ t)"

definition colon_groups :: "u16 list \<Rightarrow> bytes" where
  "colon_groups ss = concat (map (\<lambda>s. CHR '':'' # show_hex (unat s)) ss)"

lemma colon_groups_simps [simp]:
  "colon_groups [] = []"
  "colon_groups (s # ss) = CHR '':'' # show_hex (unat s) @ colon_groups ss"
  by (simp_all add: colon_groups_def)

lemma fmt_subslice_simps [simp]:
  "fmt_subslice [] = []"
  "fmt_subslice (s # ss) = show_hex (unat s) @ colon_groups ss"
proof -
  show "fmt_subslice [] = []" by (simp add: fmt_subslice_def)
  show "fmt_subslice (s # ss) = show_hex (unat s) @ colon_groups ss"
    by (induction ss arbitrary: s) (simp_all add: fmt_subslice_def)
qed

lemma group_end_no_digit: "group_end s \<Longrightarrow> no_digit r s"
  by (auto simp: group_end_def)

lemma colon_groups_no_digit: "group_end rest \<Longrightarrow> no_digit r (colon_groups ss @ rest)"
  by (cases ss) (simp_all add: group_end_no_digit)

lemma digit_char_not_dot: "d < 16 \<Longrightarrow> digit_char d \<noteq> CHR ''.''"
proof
  assume "d < 16" and "digit_char d = CHR ''.''"
  then have "byte (CHR ''.'') = (if d < 10 then 48 + d else 87 + d)"
    using byte_digit_char [of d] by simp
  moreover have "byte (CHR ''.'') = 46" by (simp add: byte_def)
  ultimately show False by (auto split: if_splits)
qed

lemma show_hex_no_dot: "CHR ''.'' \<notin> set (show_hex n)"
  using show_radix_chars [of 16 "CHR ''.''" n] digit_char_not_dot by (fastforce simp: show_hex_def)

lemma colon_groups_no_dot: "CHR ''.'' \<notin> set (colon_groups ss)"
  by (induction ss) (simp_all add: show_hex_no_dot)

lemma fmt_subslice_no_dot: "CHR ''.'' \<notin> set (fmt_subslice ss)"
  by (cases ss) (simp_all add: show_hex_no_dot colon_groups_no_dot)

lemma read_separator_no_dot:
  "CHR ''.'' \<notin> set s \<Longrightarrow> read_separator c i read_ipv4_addr s = None"
  by (cases s) (auto simp: read_separator_def read_ipv4_no_dot)

lemma read_groups_colon:
  assumes "0 < i" and "i + length ss \<le> limit" and "group_end rest" and "CHR ''.'' \<notin> set rest"
  shows "read_groups limit i (colon_groups ss @ rest) = (ss, False, rest)"
  using assms
proof (induction ss arbitrary: i)
  case Nil
  have "read_separator (CHR '':'') i (read_number 16 4 True 65535) rest = None"
    using Nil by (auto simp: read_separator_def group_end_def read_number_no_digit)
  then show ?case
    using Nil by (simp add: read_groups.simps [of limit i] read_separator_no_dot)
next
  case (Cons g gs)
  have dot: "CHR ''.'' \<notin> set (colon_groups (g # gs) @ rest)"
    using colon_groups_no_dot [of "g # gs"] Cons.prems by simp
  have "read_separator (CHR '':'') i (read_number 16 4 True 65535) (colon_groups (g # gs) @ rest)
          = Some (unat g, colon_groups gs @ rest)"
    using Cons.prems by (simp add: read_separator_def read_hex_show colon_groups_no_digit)
  then show ?case
    using Cons.prems Cons.IH [of "Suc i"] read_separator_no_dot [OF dot]
    by (subst read_groups.simps) (simp del: colon_groups_simps)
qed

lemma read_groups_fmt:
  assumes "length ss \<le> limit" and "group_end rest" and "CHR ''.'' \<notin> set rest"
  shows "read_groups limit 0 (fmt_subslice ss @ rest) = (ss, False, rest)"
proof (cases ss)
  case Nil
  then show ?thesis
    using assms
    by (simp add: read_groups.simps [of limit 0] read_separator_def read_ipv4_no_digit read_number_no_digit
        group_end_no_digit)
next
  case (Cons g gs)
  have dot: "CHR ''.'' \<notin> set (fmt_subslice ss @ rest)"
    using fmt_subslice_no_dot [of ss] assms by simp
  have "read_separator (CHR '':'') 0 (read_number 16 4 True 65535) (fmt_subslice ss @ rest)
          = Some (unat g, colon_groups gs @ rest)"
    using assms Cons by (simp add: read_separator_def read_hex_show colon_groups_no_digit)
  then show ?thesis
    using assms Cons read_groups_colon [of "Suc 0" gs limit rest] read_separator_no_dot [OF dot]
    by (subst read_groups.simps) (simp del: fmt_subslice_simps)
qed

text \<open>The scan returns a run of zero segments.\<close>

definition zero_run :: "u16 list \<Rightarrow> nat \<times> nat \<Rightarrow> bool" where
  "zero_run ss sp \<longleftrightarrow> fst sp + snd sp \<le> length ss \<and> take (snd sp) (drop (fst sp) ss) = replicate (snd sp) 0"

lemma zero_run_append: "zero_run pre sp \<Longrightarrow> zero_run (pre @ ss) sp"
  by (auto simp: zero_run_def)

lemma zero_run_extend:
  "drop c pre = replicate k 0 \<Longrightarrow> c + k = length pre \<Longrightarrow> zero_run (pre @ [0]) (c, Suc k)"
  by (simp add: zero_run_def replicate_append_same)

lemma zero_span_run:
  assumes "zero_run pre longest"
    and "0 < snd cur \<Longrightarrow> fst cur + snd cur = length pre \<and> drop (fst cur) pre = replicate (snd cur) 0"
  shows "zero_run (pre @ ss) (zero_span (length pre) longest cur ss)"
  using assms
proof (induction ss arbitrary: pre longest cur)
  case (Cons s ss)
  show ?case
  proof (cases "s = 0")
    case True
    define cur' where "cur' = (if snd cur = 0 then (length pre, 1) else (fst cur, snd cur + 1))"
    have run: "fst cur' + snd cur' = length (pre @ [0]) \<and> drop (fst cur') (pre @ [0]) = replicate (snd cur') 0"
      using Cons.prems(2) by (auto simp: cur'_def replicate_append_same)
    then have "zero_run (pre @ [0]) cur'" by (simp add: zero_run_def)
    then have "zero_run (pre @ [0]) (if snd longest < snd cur' then cur' else longest)"
      using Cons.prems(1) zero_run_append by simp
    moreover have "zero_span (length pre) longest cur (0 # ss) =
        zero_span (length (pre @ [0])) (if snd longest < snd cur' then cur' else longest) cur' ss"
      by (simp add: cur'_def Let_def)
    moreover have "zero_run ((pre @ [0]) @ ss)
        (zero_span (length (pre @ [0])) (if snd longest < snd cur' then cur' else longest) cur' ss)"
      using calculation(1) run by (rule Cons.IH)
    ultimately show ?thesis using True by (simp only: append.assoc append.simps)
  next
    case False
    then show ?thesis
      using Cons.IH [OF zero_run_append [OF Cons.prems(1)], of "(0, 0)" "[s]"] by simp
  qed
qed simp

lemma zero_run_split:
  assumes "zero_run ss (a, l)"
  shows "take a ss @ replicate l 0 @ drop (a + l) ss = ss"
proof -
  have "drop a ss = take l (drop a ss) @ drop l (drop a ss)"
    by (simp only: append_take_drop_id)
  also have "\<dots> = replicate l 0 @ drop (a + l) ss"
    using assms by (simp add: zero_run_def add.commute)
  finally have tail: "drop a ss = replicate l 0 @ drop (a + l) ss" .
  show ?thesis unfolding tail [symmetric] by (rule append_take_drop_id)
qed

lemma read_ipv6_display:
  assumes "to_ipv4_mapped a = None"
  shows "read_ipv6_addr (display_ipv6 a) = Some (a, [])"
proof -
  let ?ss = "segments a"
  obtain st len where sp: "zero_span 0 (0, 0) (0, 0) ?ss = (st, len)" by fastforce
  have run: "zero_run ?ss (st, len)"
    using zero_span_run [of "[]" "(0, 0)" "(0, 0)" ?ss] sp by (simp add: zero_run_def)
  show ?thesis
  proof (cases "1 < len")
    case True
    let ?h = "take st ?ss" and ?t = "drop (st + len) ?ss"
    have bound: "st + len \<le> 8" using run by (simp add: zero_run_def)
    have disp: "display_ipv6 a = fmt_subslice ?h @ ''::'' @ fmt_subslice ?t"
      using assms sp True by (simp add: display_ipv6_def Let_def)
    have "read_groups 8 0 (display_ipv6 a) = (?h, False, ''::'' @ fmt_subslice ?t)"
      unfolding disp using bound fmt_subslice_no_dot
      by (intro read_groups_fmt) (auto simp: group_end_def)
    moreover have "read_groups (8 - (length ?h + 1)) 0 (fmt_subslice ?t) = (?t, False, [])"
      using read_groups_fmt [of ?t _ "[]"] bound True by (simp add: group_end_def)
    moreover have "?h @ replicate (8 - length ?h - length ?t) 0 @ ?t = ?ss"
      using zero_run_split [OF run] bound by (simp add: min_def)
    ultimately show ?thesis
      using bound True by (simp add: read_ipv6_addr_def min_def)
  next
    case False
    then have "display_ipv6 a = fmt_subslice ?ss" using assms sp by (simp add: display_ipv6_def Let_def)
    then have "read_groups 8 0 (display_ipv6 a) = (?ss, False, [])"
      using read_groups_fmt [of ?ss 8 "[]"] by (simp add: group_end_def)
    then show ?thesis by (simp add: read_ipv6_addr_def)
  qed
qed

lemma read_ipv6_display_mapped:
  assumes "to_ipv4_mapped a = Some v"
  shows "read_ipv6_addr (display_ipv6 a) = Some (a, [])"
proof -
  obtain g h where a: "a = Ipv6Addr 0 0 0 0 0 0xffff g h"
    and v: "v = Ipv4Addr (hi_byte g) (lo_byte g) (hi_byte h) (lo_byte h)"
    using assms by (cases a) (auto split: if_splits)
  let ?t = "CHR '':'' # display_ipv4 v"
  have "char_of (102 :: nat) = CHR ''f''" using char_of_char [of "CHR ''f''", where 'a = nat] by simp
  then have hex: "show_hex 65535 = ''ffff''"
    by (simp add: show_hex_def show_radix.simps digit_char_def)
  have disp: "display_ipv6 a = ''::ffff'' @ ?t" using assms by (simp add: display_ipv6_def)
  then have "read_groups 8 0 (display_ipv6 a) = ([], False, ''::ffff'' @ ?t)"
    by (simp add: read_groups.simps [of 8 0] read_separator_def read_ipv4_no_digit
        read_number_no_digit)
  moreover have "read_groups 7 0 (''ffff'' @ ?t) = ([0xffff, g, h], True, [])"
  proof -
    have "read_number 16 4 True 65535 (''ffff'' @ ?t) = Some (65535, ?t)"
      using read_hex_show [of ?t "0xffff"] hex by simp
    moreover have "read_ipv4_addr (''ffff'' @ ?t) = None"
      by (simp add: read_ipv4_no_digit to_digit_def rust_simps)
    moreover have "read_groups 7 (Suc 0) ?t = ([g, h], True, [])"
      using read_ipv4_display [of "[]" v] v
      by (subst read_groups.simps) (simp add: read_separator_def)
    ultimately show ?thesis
      by (subst read_groups.simps) (simp add: read_separator_def)
  qed
  moreover have "of_segments (replicate 5 0 @ [0xffff, g, h]) = a"
    by (simp add: a numeral_eq_Suc)
  ultimately show ?thesis
    by (simp add: read_ipv6_addr_def)
qed

lemma display_ipv6_not_ipv4: "read_ipv4_addr (display_ipv6 a) = None"
proof (cases "to_ipv4_mapped a")
  case None
  have "CHR ''.'' \<notin> set (display_ipv6 a)"
    using None fmt_subslice_no_dot by (auto simp: display_ipv6_def Let_def split: prod.splits)
  then show ?thesis by (rule read_ipv4_no_dot)
qed (simp add: display_ipv6_def read_ipv4_no_digit)

text \<open>Every address is read back from its own \<open>Display\<close> form.\<close>

lemma ip_from_str_display [simp]: "ip_from_str (display_ip ip) = Some ip"
proof (cases ip)
  case (V4 a)
  then show ?thesis
    using read_ipv4_display [of "[]" a] by (simp add: ip_from_str_def parse_with_def read_ip_addr_def)
next
  case (V6 a)
  then show ?thesis
    using read_ipv6_display [of a] read_ipv6_display_mapped [of a]
    by (cases "to_ipv4_mapped a")
      (auto simp: ip_from_str_def parse_with_def read_ip_addr_def display_ipv6_not_ipv4)
qed

lemma display_ip_inject: "display_ip a = display_ip b \<longleftrightarrow> a = b"
proof
  assume "display_ip a = display_ip b"
  then have "ip_from_str (display_ip a) = ip_from_str (display_ip b)" by (simp only:)
  then show "a = b" by simp
qed simp

lemma ip_from_str_Nil: "ip_from_str [] = None"
proof -
  have "read_groups 8 0 [] = ([], False, [])"
    by (subst read_groups.simps) (simp add: read_separator_def read_ipv4_no_digit read_number_no_digit)
  then show ?thesis
    by (simp add: ip_from_str_def parse_with_def read_ip_addr_def read_ipv6_addr_def read_ipv4_no_digit)
qed

end
