(* ===== verification/Http_Api.thy ===== *)
theory Http_Api
  imports Ip_Addr
begin

text \<open>
  The interfaces of the third-party crates the message handlers call: \<open>http::HeaderMap\<close> and
  \<open>http::HeaderValue\<close>, and \<open>http::Uri\<close>.  None of this code is in the repository,
  so each interface is a record of operations that the definitions of the other theories take as
  an argument, and each has a locale with the documented laws of the operations.  The locales are
  interpreted on a header section kept as its list of lines in order, and on a URI kept as its
  three parts.
\<close>

section \<open>Header maps and header values\<close>

text \<open>
  A \<open>HeaderName\<close> is represented by its lower-case bytes, a \<open>HeaderValue\<close> by its bytes.
  \<open>hm_update\<close> stands for the loop over \<open>OccupiedEntry::iter_mut\<close>, \<open>hm_remove_str\<close> for
  \<open>HeaderMap::remove\<close> at a \<open>&str\<close> key, and \<open>hm_iter\<close> for \<open>HeaderMap::iter\<close>.
\<close>

record 'h header_api =
  hm_get_all :: "'h \<Rightarrow> bytes \<Rightarrow> bytes list"
  hm_get :: "'h \<Rightarrow> bytes \<Rightarrow> bytes option"
  hm_contains_key :: "'h \<Rightarrow> bytes \<Rightarrow> bool"
  hm_insert :: "'h \<Rightarrow> bytes \<Rightarrow> bytes \<Rightarrow> 'h"
  hm_append :: "'h \<Rightarrow> bytes \<Rightarrow> bytes \<Rightarrow> 'h"
  hm_remove :: "'h \<Rightarrow> bytes \<Rightarrow> bytes option \<times> 'h"
  hm_remove_str :: "'h \<Rightarrow> bytes \<Rightarrow> bytes option \<times> 'h"
  hm_update :: "'h \<Rightarrow> bytes \<Rightarrow> (bytes \<Rightarrow> bytes) \<Rightarrow> 'h"
  hm_iter :: "'h \<Rightarrow> (bytes \<times> bytes) list"
  hv_to_str :: "bytes \<Rightarrow> bytes option"
  hv_from_str :: "bytes \<Rightarrow> bytes option"
  hv_from_bytes :: "bytes \<Rightarrow> bytes option"
  hm_empty :: 'h

definition visible_ascii :: "char \<Rightarrow> bool" where
  "visible_ascii c \<longleftrightarrow> (32 \<le> byte c \<and> byte c < 127) \<or> byte c = 9"

definition legal_value_byte :: "char \<Rightarrow> bool" where
  "legal_value_byte c \<longleftrightarrow> (32 \<le> byte c \<and> byte c \<noteq> 127) \<or> byte c = 9"

definition first_value :: "'a list \<Rightarrow> 'a option" where
  "first_value vs = (case vs of [] \<Rightarrow> None | v # _ \<Rightarrow> Some v)"

lemma first_value_simps [simp]:
  "first_value [] = None" "first_value (v # vs) = Some v"
  by (simp_all add: first_value_def)

locale header_laws =
  fixes H :: "'h header_api"
  assumes get_law: "hm_get H h k = first_value (hm_get_all H h k)"
    and contains_law: "hm_contains_key H h k \<longleftrightarrow> hm_get_all H h k \<noteq> []"
    and insert_law: "hm_get_all H (hm_insert H h k v) k' = (if k' = k then [v] else hm_get_all H h k')"
    and append_law:
      "hm_get_all H (hm_append H h k v) k' = (if k' = k then hm_get_all H h k @ [v] else hm_get_all H h k')"
    and remove_fst_law: "fst (hm_remove H h k) = first_value (hm_get_all H h k)"
    and remove_snd_law: "hm_get_all H (snd (hm_remove H h k)) k' = (if k' = k then [] else hm_get_all H h k')"
    and remove_str_law: "hm_remove_str H h n = hm_remove H h (to_ascii_lowercase n)"
    and update_law:
      "hm_get_all H (hm_update H h k f) k' = (if k' = k then map f (hm_get_all H h k) else hm_get_all H h k')"
    and iter_law: "map snd (filter (\<lambda>kv. fst kv = k) (hm_iter H h)) = hm_get_all H h k"
    and to_str_law: "hv_to_str H v = (if list_all visible_ascii v then Some v else None)"
    and from_str_law: "list_all visible_ascii s \<Longrightarrow> hv_from_str H s = Some s"
    and from_str_id: "hv_from_str H s = Some v \<Longrightarrow> v = s \<and> list_all legal_value_byte s"
    and from_bytes_law: "hv_from_bytes H s = (if list_all legal_value_byte s then Some s else None)"
    and empty_law: "hm_get_all H (hm_empty H) k = []"
begin

lemmas hm_laws = get_law contains_law insert_law append_law remove_fst_law remove_snd_law remove_str_law
  update_law

lemma get_all_remove_list:
  "hm_get_all H (foldl (\<lambda>h k. snd (hm_remove H h k)) h ks) k = (if k \<in> set ks then [] else hm_get_all H h k)"
  by (induction ks arbitrary: h) (auto simp: remove_snd_law)

lemma get_all_remove_str_list:
  "hm_get_all H (foldl (\<lambda>h n. snd (hm_remove_str H h n)) h ns) k =
     (if k \<in> to_ascii_lowercase ` set ns then [] else hm_get_all H h k)"
  by (induction ns arbitrary: h) (auto simp: remove_str_law remove_snd_law)

end

text \<open>The interpretation: a header section as its lines in order.\<close>

type_synonym header_lines = "(bytes \<times> bytes) list"

definition lines_get_all :: "header_lines \<Rightarrow> bytes \<Rightarrow> bytes list" where
  "lines_get_all h k = map snd (filter (\<lambda>kv. fst kv = k) h)"

definition lines_drop :: "header_lines \<Rightarrow> bytes \<Rightarrow> header_lines" where
  "lines_drop h k = filter (\<lambda>kv. fst kv \<noteq> k) h"

definition lines_api :: "header_lines header_api" where
  "lines_api =
     \<lparr>hm_get_all = lines_get_all,
      hm_get = (\<lambda>h k. first_value (lines_get_all h k)),
      hm_contains_key = (\<lambda>h k. lines_get_all h k \<noteq> []),
      hm_insert = (\<lambda>h k v. lines_drop h k @ [(k, v)]),
      hm_append = (\<lambda>h k v. h @ [(k, v)]),
      hm_remove = (\<lambda>h k. (first_value (lines_get_all h k), lines_drop h k)),
      hm_remove_str =
        (\<lambda>h n. (first_value (lines_get_all h (to_ascii_lowercase n)), lines_drop h (to_ascii_lowercase n))),
      hm_update = (\<lambda>h k f. map (\<lambda>kv. if fst kv = k then (k, f (snd kv)) else kv) h),
      hm_iter = (\<lambda>h. h),
      hv_to_str = (\<lambda>v. if list_all visible_ascii v then Some v else None),
      hv_from_str = (\<lambda>s. if list_all visible_ascii s then Some s else None),
      hv_from_bytes = (\<lambda>s. if list_all legal_value_byte s then Some s else None),
      hm_empty = []\<rparr>"

lemma lines_get_all_drop: "lines_get_all (lines_drop h k) k' = (if k' = k then [] else lines_get_all h k')"
  by (induction h) (auto simp: lines_get_all_def lines_drop_def)

lemma lines_get_all_append [simp]: "lines_get_all (g @ h) k = lines_get_all g k @ lines_get_all h k"
  by (simp add: lines_get_all_def)

lemma lines_get_all_update:
  "lines_get_all (map (\<lambda>kv. if fst kv = k then (k, f (snd kv)) else kv) h) k' =
     (if k' = k then map f (lines_get_all h k) else lines_get_all h k')"
  by (induction h) (auto simp: lines_get_all_def)

lemma visible_legal: "visible_ascii c \<Longrightarrow> legal_value_byte c"
  by (auto simp: visible_ascii_def legal_value_byte_def)

interpretation header_lines: header_laws lines_api
  by unfold_locales
    (auto simp: lines_api_def lines_get_all_drop lines_get_all_update list_all_iff visible_legal split: if_splits,
     auto simp: lines_get_all_def)

section \<open>URIs\<close>

text \<open>
  \<open>Uri::scheme_str\<close>, \<open>Uri::authority\<close> (as a string) with \<open>Authority::host\<close> and
  \<open>Authority::port_u16\<close>, \<open>Uri::host\<close> and \<open>Uri::port_u16\<close>, \<open>Uri::path\<close>,
  \<open>Uri::path_and_query\<close>, its \<open>Display\<close> and \<open>FromStr\<close>, and \<open>Uri::builder\<close> with a scheme, an
  authority and a path and query.
\<close>

record 'u uri_api =
  uri_scheme :: "'u \<Rightarrow> bytes option"
  uri_authority :: "'u \<Rightarrow> bytes option"
  auth_host :: "bytes \<Rightarrow> bytes"
  auth_port :: "bytes \<Rightarrow> u16 option"
  uri_host :: "'u \<Rightarrow> bytes option"
  uri_port :: "'u \<Rightarrow> u16 option"
  uri_path :: "'u \<Rightarrow> bytes"
  uri_path_and_query :: "'u \<Rightarrow> bytes option"
  uri_display :: "'u \<Rightarrow> bytes"
  uri_parse :: "bytes \<Rightarrow> 'u option"
  uri_build :: "bytes \<Rightarrow> bytes \<Rightarrow> bytes \<Rightarrow> 'u option"
  pq_try_from :: "bytes \<Rightarrow> bytes option"

locale uri_laws =
  fixes U :: "'u uri_api"
  assumes build_scheme_law:
      "uri_build U s a pq = Some u \<Longrightarrow> s = ''http'' \<or> s = ''https'' \<Longrightarrow> uri_scheme U u = Some s"
    and build_authority_law: "uri_build U s a pq = Some u \<Longrightarrow> uri_authority U u = Some a"
    and build_pq_law: "uri_build U s a pq = Some u \<Longrightarrow> starts_with pq ''/'' \<Longrightarrow> uri_path_and_query U u = Some pq"
    and path_law:
      "uri_path_and_query U u = Some pq \<Longrightarrow> starts_with pq ''/'' \<Longrightarrow> uri_path U u = takeWhile (\<lambda>c. c \<noteq> CHR ''?'') pq"
    and host_law: "uri_host U u = map_option (auth_host U) (uri_authority U u)"
    and port_law: "uri_port U u = Option.bind (uri_authority U u) (auth_port U)"
    and pq_try_from_law: "pq_try_from U v = Some pq \<Longrightarrow> pq = takeWhile (\<lambda>c. c \<noteq> CHR ''#'') v"
    and build_display_law: "uri_build U s a pq = Some u \<Longrightarrow> starts_with pq ''/'' \<Longrightarrow> uri_display U u = s @ ''://'' @ a @ pq"
    and build_chars_law: "uri_build U s a pq = Some u \<Longrightarrow> CHR ''/'' \<notin> set a"

text \<open>The interpretation: a URI as its scheme, its authority and its path and query.\<close>

record uri_parts =
  ur_scheme :: "bytes option"
  ur_authority :: "bytes option"
  ur_pq :: "bytes option"

definition parts_auth_host :: "bytes \<Rightarrow> bytes" where
  "parts_auth_host a =
     (if starts_with a ''['' then takeWhile (\<lambda>c. c \<noteq> CHR '']'') a @ '']'' else takeWhile (\<lambda>c. c \<noteq> CHR '':'') a)"

definition parts_auth_port :: "bytes \<Rightarrow> u16 option" where
  "parts_auth_port a =
     (case rsplit_once (CHR '':'') a of None \<Rightarrow> None | Some (_, p) \<Rightarrow> map_option of_nat (parse_uint 65535 p))"

definition parts_display :: "uri_parts \<Rightarrow> bytes" where
  "parts_display u =
     (case ur_scheme u of None \<Rightarrow> [] | Some s \<Rightarrow> s @ ''://'') @
     (case ur_authority u of None \<Rightarrow> [] | Some a \<Rightarrow> a) @ (case ur_pq u of None \<Rightarrow> [] | Some p \<Rightarrow> p)"

definition parts_parse :: "bytes \<Rightarrow> uri_parts option" where
  "parts_parse s =
     (if starts_with s ''/'' then Some \<lparr>ur_scheme = None, ur_authority = None, ur_pq = Some s\<rparr>
      else
        case split_once (CHR '':'') s of
          None \<Rightarrow> None
        | Some (sch, rest) \<Rightarrow>
            (case strip_prefix ''//'' rest of
               None \<Rightarrow> None
             | Some ap \<Rightarrow>
                 Some \<lparr>ur_scheme = Some sch, ur_authority = Some (takeWhile (\<lambda>c. c \<noteq> CHR ''/'') ap),
                       ur_pq = Some (if CHR ''/'' \<in> set ap then dropWhile (\<lambda>c. c \<noteq> CHR ''/'') ap else ''/'')\<rparr>))"

definition parts_api :: "uri_parts uri_api" where
  "parts_api =
     \<lparr>uri_scheme = ur_scheme, uri_authority = ur_authority, auth_host = parts_auth_host, auth_port = parts_auth_port,
      uri_host = (\<lambda>u. map_option parts_auth_host (ur_authority u)),
      uri_port = (\<lambda>u. Option.bind (ur_authority u) parts_auth_port),
      uri_path = (\<lambda>u. case ur_pq u of None \<Rightarrow> ''/'' | Some pq \<Rightarrow> takeWhile (\<lambda>c. c \<noteq> CHR ''?'') pq),
      uri_path_and_query = ur_pq, uri_display = parts_display, uri_parse = parts_parse,
      uri_build = (\<lambda>s a pq. if a = [] \<or> CHR ''/'' \<in> set a then None else Some \<lparr>ur_scheme = Some s, ur_authority = Some a, ur_pq = Some pq\<rparr>),
      pq_try_from = (\<lambda>v. Some (takeWhile (\<lambda>c. c \<noteq> CHR ''#'') v))\<rparr>"

interpretation uri_of_parts: uri_laws parts_api
  by unfold_locales (auto simp: parts_api_def parts_display_def split: if_splits)

end
