(* ===== verification/Name_Exp.thy ===== *)
theory Name_Exp
  imports Http_Api
begin

text \<open>
  The error values of \<open>error.rs\<close> (without their message texts and wrapped library errors), and
  the byte names of \<open>name_exp.rs\<close>: server names compared case-insensitively, path names kept
  verbatim.
\<close>

section \<open>Errors\<close>

datatype rpxy_error =
    RpxyIo
  | FailedToTlsHandshake
  | TlsHandshakeFailed
  | NoServerNameInClientHello
  | NoTlsServingApp
  | NoDefaultCryptoProvider
  | FailedToBuildServerConfig
  | FailedToUpdateServerCrypto
  | NoServerCrypto
  | HyperBodyManipulationError
  | HyperIncomingLikeNewClosed
  | HyperNewBodyWriteAborted
  | HyperBodyError
  | H3ConnectionError
  | H3StreamError
  | H3TooLargeBody
  | RequestBodyTooLarge nat nat
  | QuinnInvalidTlsProtocolVersion
  | QuinnConnectionFailed
  | S2nQuicValidationError
  | S2nQuicConnectionError
  | S2nQuicStartError
  | NoCertificateReloader
  | CertificateReloadError
  | FailedToBuildListenerSpec
  | FailedToBuildProxy
  | InvalidReverseProxyConfig
  | InvalidUpstreamOptionSetting
  | FailedToBuildBackendApp
  | InvalidStickyCookieSecret
  | InvalidStickyCookieAad
  | InvalidStickyCookieConfig
  | FailedToSealStickyCookie
  | FailedToBuildMessageHandler
  | FailedToUpgradeRequest
  | FailedToUpgradeResponse
  | FailedToCopyBidirectional
  | FailedToBuildForwarder
  | FailedToBuildHealthCheckClient
  | FailedToFetchFromUpstream
  | UnsupportedUpstreamOption
  | RpxyCacheError
  | TaskJoinError
  | RpxyInfallible
  | NoAcmeServerConfig

datatype lb_error =
    FailedToConversionStickyCookie
  | InvalidStickyCookieStructure
  | NoStickyCookieValue
  | NoStickyCookieNoMetaInfo
  | FailedToBuildStickyCookie

text \<open>An \<open>anyhow::Error\<close>, identified by what raised it.\<close>

datatype anyhow = Anyhow bytes

section \<open>Names\<close>

datatype server_name = ServerName (sn_inner: bytes)

datatype path_name = PathName (pn_inner: bytes)

text \<open>\<open>ServerName\<close> from \<open>&str\<close>, \<open>&[u8]\<close> and \<open>Vec<u8>\<close>: each lower-cases the ASCII letters.\<close>

definition to_server_name :: "bytes \<Rightarrow> server_name" where
  "to_server_name s = ServerName (to_ascii_lowercase s)"

text \<open>\<open>PathName\<close> from \<open>&str\<close> keeps the bytes; from \<open>&[u8]\<close> it lower-cases them.\<close>

definition to_path_name :: "bytes \<Rightarrow> path_name" where
  "to_path_name s = PathName s"

definition path_name_from_bytes :: "bytes \<Rightarrow> path_name" where
  "path_name_from_bytes b = PathName (to_ascii_lowercase b)"

definition pn_len :: "path_name \<Rightarrow> nat" where
  "pn_len p = length (pn_inner p)"

definition pn_starts_with :: "path_name \<Rightarrow> path_name \<Rightarrow> bool" where
  "pn_starts_with p needle = starts_with (pn_inner p) (pn_inner needle)"

lemma to_server_name_eq: "to_server_name a = to_server_name b \<longleftrightarrow> eq_ignore_ascii_case a b"
  by (simp add: to_server_name_def eq_ignore_ascii_case_def)

end
