(* ===== verification/Sticky_Cookie.thy ===== *)
theory Sticky_Cookie
  imports Name_Exp
begin

text \<open>
  Sticky cookies: the cookie values and their configuration
  (\<open>backend/load_balance/sticky_cookie.rs\<close>), the sealed wire form
  (\<open>backend/load_balance/sticky_cookie_seal.rs\<close>) and the header operations of
  \<open>message_handler/header_ops/sticky_cookie.rs\<close> that take the cookie out of a request and set it
  on a response.  AES-256-GCM, base64 and the calendar formatting are third-party code and
  arguments of the model; their laws are the locale \<open>cookie_crypto_laws\<close>.
\<close>

section \<open>Bytes and integers\<close>

type_synonym i64 = "64 word"

text \<open>\<open>i64::to_be_bytes\<close> and \<open>i64::from_be_bytes\<close>.\<close>

fun be_encode :: "nat \<Rightarrow> nat \<Rightarrow> bytes" where
  "be_encode 0 n = []"
| "be_encode (Suc k) n = be_encode k (n div 256) @ [char_of (n mod 256)]"

definition be_decode :: "bytes \<Rightarrow> nat" where
  "be_decode bs = foldl (\<lambda>acc c. acc * 256 + byte c) 0 bs"

definition i64_to_be_bytes :: "i64 \<Rightarrow> bytes" where
  "i64_to_be_bytes w = be_encode 8 (unat w)"

definition i64_from_be_bytes :: "bytes \<Rightarrow> i64" where
  "i64_from_be_bytes bs = of_nat (be_decode bs)"

lemma length_be_encode [simp]: "length (be_encode k n) = k"
  by (induction k arbitrary: n) simp_all

lemma be_decode_encode: "be_decode (be_encode k n) = n mod 256 ^ k"
proof (induction k arbitrary: n)
  case (Suc k)
  have "be_decode (be_encode (Suc k) n) = (n div 256 mod 256 ^ k) * 256 + n mod 256"
    using Suc [of "n div 256"] by (simp add: be_decode_def byte_def)
  also have "\<dots> = n mod 256 ^ Suc k"
    using mod_mult2_eq [of n 256 "256 ^ k"] by (simp add: mult.commute)
  finally show ?case .
qed (simp add: be_decode_def)

lemma length_i64_to_be_bytes [simp]: "length (i64_to_be_bytes w) = 8"
  by (simp add: i64_to_be_bytes_def)

lemma i64_be_bytes_roundtrip [simp]: "i64_from_be_bytes (i64_to_be_bytes w) = w"
proof -
  have "unat w < 256 ^ 8"
    by (rule order_less_le_trans [OF unsigned_less]) simp
  then show ?thesis
    by (simp add: i64_from_be_bytes_def i64_to_be_bytes_def be_decode_encode)
qed

text \<open>\<open>Display\<close> of an \<open>i64\<close>.\<close>

definition show_i64 :: "i64 \<Rightarrow> bytes" where
  "show_i64 w = (if sint w < 0 then CHR ''-'' # show_nat (nat (- sint w)) else show_nat (nat (sint w)))"

text \<open>\<open>String::from_utf8\<close>: the UTF-8 validation of the standard library.\<close>

definition byte_in :: "nat \<Rightarrow> nat \<Rightarrow> char \<Rightarrow> bool" where
  "byte_in lo hi c \<longleftrightarrow> lo \<le> byte c \<and> byte c \<le> hi"

abbreviation utf8_cont :: "char \<Rightarrow> bool" where
  "utf8_cont \<equiv> byte_in 128 191"

fun utf8_valid :: "bytes \<Rightarrow> bool" where
  "utf8_valid [] = True"
| "utf8_valid (a # s) =
     (if byte a < 128 then utf8_valid s
      else if byte_in 194 223 a then
        (case s of b # s' \<Rightarrow> utf8_cont b \<and> utf8_valid s' | _ \<Rightarrow> False)
      else if byte_in 224 239 a then
        (case s of
           b # c # s' \<Rightarrow>
             byte_in (if byte a = 224 then 160 else 128) (if byte a = 237 then 159 else 191) b \<and>
             utf8_cont c \<and> utf8_valid s'
         | _ \<Rightarrow> False)
      else if byte_in 240 244 a then
        (case s of
           b # c # d # s' \<Rightarrow>
             byte_in (if byte a = 240 then 144 else 128) (if byte a = 244 then 143 else 191) b \<and>
             utf8_cont c \<and> utf8_cont d \<and> utf8_valid s'
         | _ \<Rightarrow> False)
      else False)"

definition from_utf8 :: "bytes \<Rightarrow> bytes option" where
  "from_utf8 bs = (if utf8_valid bs then Some bs else None)"

lemma utf8_valid_ascii: "\<forall>c \<in> set s. byte c < 128 \<Longrightarrow> utf8_valid s"
  by (induction s) simp_all

section \<open>Third-party operations\<close>

text \<open>
  \<open>Aes256Gcm::encrypt\<close> and \<open>decrypt\<close> at a key, a nonce and associated data; the URL-safe base64
  engine without padding; \<open>Utc.timestamp_opt\<close> with the cookie date format, none when the timestamp
  is out of range; SHA-256.
\<close>

record 'k cookie_crypto =
  gcm_encrypt :: "'k \<Rightarrow> bytes \<Rightarrow> bytes \<Rightarrow> bytes \<Rightarrow> bytes option"
  gcm_decrypt :: "'k \<Rightarrow> bytes \<Rightarrow> bytes \<Rightarrow> bytes \<Rightarrow> bytes option"
  gcm_key :: "bytes \<Rightarrow> 'k option"
  b64_encode :: "bytes \<Rightarrow> bytes"
  b64_decode :: "bytes \<Rightarrow> bytes option"
  date_format :: "i64 \<Rightarrow> bytes option"
  sha256 :: "bytes \<Rightarrow> bytes"

definition b64_char :: "char \<Rightarrow> bool" where
  "b64_char c \<longleftrightarrow> is_ascii_alphanumeric c \<or> c = CHR ''-'' \<or> c = CHR ''_''"

section \<open>The sealed value\<close>

definition VERSION_V1 :: nat where "VERSION_V1 = 1"
definition NONCE_LEN :: nat where "NONCE_LEN = 12"
definition TAG_LEN :: nat where "TAG_LEN = 16"
definition EXPIRES_LEN :: nat where "EXPIRES_LEN = 8"
definition MAX_SERVER_ID_LEN :: nat where "MAX_SERVER_ID_LEN = 256"
definition MIN_SERVER_ID_LEN :: nat where "MIN_SERVER_ID_LEN = 1"
definition MIN_PLAINTEXT_LEN :: nat where "MIN_PLAINTEXT_LEN = EXPIRES_LEN + MIN_SERVER_ID_LEN"
definition MAX_PLAINTEXT_LEN :: nat where "MAX_PLAINTEXT_LEN = EXPIRES_LEN + MAX_SERVER_ID_LEN"
definition MIN_BLOB_LEN :: nat where "MIN_BLOB_LEN = 1 + NONCE_LEN + TAG_LEN + MIN_PLAINTEXT_LEN"
definition MAX_BLOB_LEN :: nat where "MAX_BLOB_LEN = 1 + NONCE_LEN + TAG_LEN + MAX_PLAINTEXT_LEN"

definition base64_url_no_pad_encoded_len :: "nat \<Rightarrow> nat" where
  "base64_url_no_pad_encoded_len raw_len =
     (let padded_len = ((raw_len + 2) div 3) * 4;
          padding_len = (if raw_len mod 3 = 0 then 0 else if raw_len mod 3 = 1 then 2 else 1)
      in padded_len - padding_len)"

definition MIN_BLOB_B64_LEN :: nat where "MIN_BLOB_B64_LEN = base64_url_no_pad_encoded_len MIN_BLOB_LEN"
definition MAX_BLOB_B64_LEN :: nat where "MAX_BLOB_B64_LEN = base64_url_no_pad_encoded_len MAX_BLOB_LEN"

lemmas blob_len_defs = VERSION_V1_def NONCE_LEN_def TAG_LEN_def EXPIRES_LEN_def MAX_SERVER_ID_LEN_def
  MIN_SERVER_ID_LEN_def MIN_PLAINTEXT_LEN_def MAX_PLAINTEXT_LEN_def MIN_BLOB_LEN_def MAX_BLOB_LEN_def
  MIN_BLOB_B64_LEN_def MAX_BLOB_B64_LEN_def

text \<open>\<open>StickyCookieSecret::try_from_config_value\<close> and \<open>build_sticky_cookie_cipher\<close>;
  \<open>decode_slice\<close> into the 32-byte buffer fails when the decoded value is longer.\<close>

definition is_ascii_whitespace :: "char \<Rightarrow> bool" where
  "is_ascii_whitespace c \<longleftrightarrow> byte c \<in> {9, 10, 12, 13, 32}"

definition try_from_config_value :: "'k cookie_crypto \<Rightarrow> bytes \<Rightarrow> rpxy_error + bytes" where
  "try_from_config_value K s =
     (if list_ex is_ascii_whitespace s then Inl InvalidStickyCookieSecret
      else
        case b64_decode K s of
          None \<Rightarrow> Inl InvalidStickyCookieSecret
        | Some secret \<Rightarrow> if length secret \<noteq> 32 then Inl InvalidStickyCookieSecret else Inr secret)"

definition build_sticky_cookie_cipher :: "'k cookie_crypto \<Rightarrow> bytes \<Rightarrow> rpxy_error + 'k" where
  "build_sticky_cookie_cipher K secret = ok_or (gcm_key K secret) InvalidStickyCookieSecret"

definition validate_sticky_cookie_aad_component :: "bytes \<Rightarrow> rpxy_error + unit" where
  "validate_sticky_cookie_aad_component value =
     (if list_ex (\<lambda>c. byte c = 0) value then Inl InvalidStickyCookieAad else Inr ())"

definition build_sticky_cookie_aad :: "bytes \<Rightarrow> bytes \<Rightarrow> bytes \<Rightarrow> rpxy_error + bytes" where
  "build_sticky_cookie_aad name domain path =
     rbind (validate_sticky_cookie_aad_component name) (\<lambda>_.
     rbind (validate_sticky_cookie_aad_component domain) (\<lambda>_.
     rbind (validate_sticky_cookie_aad_component path) (\<lambda>_.
     Inr (''rpxy-sticky-v1'' @ [char_of (0 :: nat)] @ name @ [char_of (0 :: nat)] @ domain @
          [char_of (0 :: nat)] @ path @ [char_of (0 :: nat)]))))"

text \<open>The nonce drawn by \<open>Nonce::generate\<close> is an argument.\<close>

definition seal_server_id :: "'k cookie_crypto \<Rightarrow> bytes \<Rightarrow> 'k \<Rightarrow> bytes \<Rightarrow> bytes \<Rightarrow> i64 \<Rightarrow> rpxy_error + bytes" where
  "seal_server_id K nonce cipher aad server_id expires_unix =
     (if server_id = [] \<or> MAX_SERVER_ID_LEN < length server_id then Inl FailedToSealStickyCookie
      else
        let plaintext = i64_to_be_bytes expires_unix @ server_id
        in case gcm_encrypt K cipher nonce aad plaintext of
             None \<Rightarrow> Inl FailedToSealStickyCookie
           | Some ct_with_tag \<Rightarrow> Inr (b64_encode K ([char_of VERSION_V1] @ nonce @ ct_with_tag)))"

definition open_server_id_at :: "'k cookie_crypto \<Rightarrow> 'k \<Rightarrow> bytes \<Rightarrow> bytes \<Rightarrow> i64 \<Rightarrow> bytes option" where
  "open_server_id_at K cipher aad blob_b64 now_unix =
     (if length blob_b64 < MIN_BLOB_B64_LEN \<or> MAX_BLOB_B64_LEN < length blob_b64 then None
      else
        case b64_decode K blob_b64 of None \<Rightarrow> None | Some blob \<Rightarrow>
          if length blob < MIN_BLOB_LEN \<or> MAX_BLOB_LEN < length blob then None
          else if byte (hd blob) \<noteq> VERSION_V1 then None
          else
            (case gcm_decrypt K cipher (take NONCE_LEN (tl blob)) aad (drop NONCE_LEN (tl blob)) of
               None \<Rightarrow> None
             | Some plaintext \<Rightarrow>
                 if length plaintext < MIN_PLAINTEXT_LEN \<or> MAX_PLAINTEXT_LEN < length plaintext then None
                 else if sint (i64_from_be_bytes (take EXPIRES_LEN plaintext)) \<le> sint now_unix then None
                 else from_utf8 (drop EXPIRES_LEN plaintext)))"

section \<open>Binding and round trip\<close>

lemma nul_free: "validate_sticky_cookie_aad_component v = Inr u \<Longrightarrow> char_of (0 :: nat) \<notin> set v"
  by (auto simp: validate_sticky_cookie_aad_component_def list_ex_iff byte_def split: if_splits)

text \<open>
  The associated data that seals a sticky cookie binds its name, domain and path: two
  configurations whose components are accepted have the same associated data only when all three
  components agree, so framing cannot be shifted from one component into another.
\<close>

theorem sticky_aad_binds_components:
  assumes "build_sticky_cookie_aad name domain path = Inr aad"
    and "build_sticky_cookie_aad name' domain' path' = Inr aad"
  shows "name = name' \<and> domain = domain' \<and> path = path'"
proof -
  let ?z = "char_of (0 :: nat) :: char"
  have free: "?z \<notin> set name" "?z \<notin> set domain" "?z \<notin> set path"
    "?z \<notin> set name'" "?z \<notin> set domain'" "?z \<notin> set path'"
    using assms by (auto simp: build_sticky_cookie_aad_def dest: nul_free)
  have eq: "name @ ?z # domain @ ?z # path @ [?z] = name' @ ?z # domain' @ ?z # path' @ [?z]"
    using assms by (auto simp: build_sticky_cookie_aad_def)
  have 1: "name = name'" "domain @ ?z # path @ [?z] = domain' @ ?z # path' @ [?z]"
    using arg_cong [OF eq, of "split_once ?z"] free by (simp_all add: split_once_append)
  have 2: "domain = domain'" "path @ [?z] = path' @ [?z]"
    using arg_cong [OF 1(2), of "split_once ?z"] free by (simp_all add: split_once_append)
  from 1 2 show ?thesis by simp
qed

theorem sticky_aad_binds_components_witness:
  "\<exists>aad. build_sticky_cookie_aad ''t'' ''a.example'' ''/x'' = Inr aad \<and> ''t'' = ''t'' \<and>
     ''a.example'' = ''a.example'' \<and> ''/x'' = ''/x''"
proof -
  obtain aad where aad: "build_sticky_cookie_aad ''t'' ''a.example'' ''/x'' = Inr aad"
    by (simp add: build_sticky_cookie_aad_def validate_sticky_cookie_aad_component_def byte_def)
  from sticky_aad_binds_components [OF aad aad] aad show ?thesis by blast
qed

text \<open>The documented behaviour of the third-party operations that the cookie code relies on.\<close>

definition cookie_crypto_laws :: "'k cookie_crypto \<Rightarrow> bool" where
  "cookie_crypto_laws K \<longleftrightarrow>
     (\<forall>k n aad m ct. gcm_encrypt K k n aad m = Some ct \<longrightarrow>
        gcm_decrypt K k n aad ct = Some m \<and> length ct = length m + TAG_LEN) \<and>
     (\<forall>k n aad m. length n = NONCE_LEN \<and> length m < 2 ^ 36 \<longrightarrow> gcm_encrypt K k n aad m \<noteq> None) \<and>
     (\<forall>b. b64_decode K (b64_encode K b) = Some b \<and>
        length (b64_encode K b) = base64_url_no_pad_encoded_len (length b) \<and>
        list_all b64_char (b64_encode K b))"

lemma b64_len_closed: "base64_url_no_pad_encoded_len n = (4 * n + 2) div 3"
proof -
  define q r where "q = n div 3" and "r = n mod 3"
  then have n: "n = 3 * q + r" and "r = 0 \<or> r = 1 \<or> r = 2" by auto
  moreover have "Suc (Suc (3 * q)) div 3 = q" "Suc (Suc (3 * q)) mod 3 = 2"
    "Suc (Suc (12 * q)) div 3 = q * 4" "(10 + 12 * q) div 3 = 3 + q * 4"
    by presburger+
  ultimately show ?thesis
    by (elim disjE) (simp_all add: base64_url_no_pad_encoded_len_def Let_def)
qed

lemma b64_len_mono: "m \<le> n \<Longrightarrow> base64_url_no_pad_encoded_len m \<le> base64_url_no_pad_encoded_len n"
  by (simp add: b64_len_closed div_le_mono)

lemma open_seal:
  assumes laws: "cookie_crypto_laws K" and seal: "seal_server_id K nonce cipher aad server_id expires = Inr w"
    and nonce: "length nonce = NONCE_LEN" and utf8: "utf8_valid server_id"
  shows "open_server_id_at K cipher aad w now = (if sint now < sint expires then Some server_id else None)"
    and "list_all b64_char w" and "w \<noteq> []"
proof -
  let ?pt = "i64_to_be_bytes expires @ server_id"
  obtain ct where ct: "gcm_encrypt K cipher nonce aad ?pt = Some ct"
    and w: "w = b64_encode K ([char_of VERSION_V1] @ nonce @ ct)"
    and len: "server_id \<noteq> []" "length server_id \<le> 256"
    using seal by (auto simp: seal_server_id_def Let_def MAX_SERVER_ID_LEN_def split: if_splits option.splits)
  let ?blob = "[char_of VERSION_V1] @ nonce @ ct"
  have dec: "gcm_decrypt K cipher nonce aad ct = Some ?pt" and lct: "length ct = 8 + length server_id + TAG_LEN"
    using laws ct by (auto simp: cookie_crypto_laws_def)
  have b64: "b64_decode K w = Some ?blob" "length w = base64_url_no_pad_encoded_len (length ?blob)"
    "list_all b64_char w"
    using laws unfolding w cookie_crypto_laws_def by blast+
  have l1: "0 < length server_id" using len by simp
  have blob: "MIN_BLOB_LEN \<le> length ?blob" "length ?blob \<le> MAX_BLOB_LEN"
    using len nonce lct by (simp_all add: blob_len_defs Suc_le_eq)
  then have wl: "MIN_BLOB_B64_LEN \<le> length w" "length w \<le> MAX_BLOB_B64_LEN"
    using b64(2) b64_len_mono by (simp_all add: MIN_BLOB_B64_LEN_def MAX_BLOB_B64_LEN_def)
  have hd: "byte (hd ?blob) = VERSION_V1" by (simp add: byte_def VERSION_V1_def)
  show "open_server_id_at K cipher aad w now = (if sint now < sint expires then Some server_id else None)"
    unfolding open_server_id_at_def b64(1) option.case
    using wl blob hd nonce dec l1 len utf8
    by (simp add: from_utf8_def not_less) (simp add: blob_len_defs)
  show "list_all b64_char w" by (rule b64(3))
  show "w \<noteq> []"
  proof
    assume "w = []"
    with wl(1) show False by (simp add: blob_len_defs base64_url_no_pad_encoded_len_def)
  qed
qed

text \<open>
  C28: A sticky-cookie value sealed under a key and associated data opens, under the same key and
  associated data, to the server id it was sealed for, exactly until its expiry: at any time before
  the expiry the id is returned, from the expiry on nothing is.
\<close>

theorem sticky_seal_open_roundtrip:
  assumes "cookie_crypto_laws K" and "length nonce = NONCE_LEN" and "utf8_valid server_id"
    and "0 < length server_id" and "length server_id \<le> MAX_SERVER_ID_LEN"
  shows "\<exists>w. seal_server_id K nonce cipher aad server_id expires = Inr w \<and>
           open_server_id_at K cipher aad w now = (if sint now < sint expires then Some server_id else None)"
proof -
  let ?pt = "i64_to_be_bytes expires @ server_id"
  have "length ?pt < 2 ^ 36" using assms(5) by (simp add: MAX_SERVER_ID_LEN_def)
  then obtain ct where "gcm_encrypt K cipher nonce aad ?pt = Some ct"
    using assms(1,2) unfolding cookie_crypto_laws_def by blast
  then obtain w where "seal_server_id K nonce cipher aad server_id expires = Inr w"
    using assms(4,5) by (auto simp: seal_server_id_def Let_def)
  with open_seal(1) [OF assms(1) this assms(2,3)] show ?thesis by blast
qed

section \<open>Cookies and their configuration\<close>

record sticky_cookie_value =
  scv_name :: bytes
  scv_value :: bytes

record sticky_cookie_info =
  sci_expires :: i64
  sci_domain :: bytes
  sci_path :: bytes

record sticky_cookie =
  sc_value :: sticky_cookie_value
  sc_info :: "sticky_cookie_info option"

record lb_context =
  lbc_sticky_cookie :: sticky_cookie

record sticky_config =
  scfg_name :: bytes
  scfg_name_prefix :: bytes
  scfg_domain :: bytes
  scfg_path :: bytes
  scfg_duration :: i64
  scfg_aad :: bytes

text \<open>\<open>StickyCookieValue::try_from\<close>.\<close>

definition sticky_value_try_from :: "bytes \<Rightarrow> bytes \<Rightarrow> lb_error + sticky_cookie_value" where
  "sticky_value_try_from value expected_name =
     (case split_once (CHR ''='') value of
        None \<Rightarrow> Inl InvalidStickyCookieStructure
      | Some (name, val) \<Rightarrow>
          if trim name \<noteq> expected_name then Inl FailedToConversionStickyCookie
          else if trim val = [] then Inl NoStickyCookieValue
          else Inr \<lparr>scv_name = expected_name, scv_value = trim val\<rparr>)"

text \<open>\<open>StickyCookieConfig::try_new\<close>.\<close>

definition sticky_config_try_new :: "bytes \<Rightarrow> bytes \<Rightarrow> bytes option \<Rightarrow> i64 \<Rightarrow> rpxy_error + sticky_config" where
  "sticky_config_try_new name server_name path_opt duration =
     (if sint duration \<le> 0 then Inl InvalidStickyCookieConfig
      else
        let domain = to_ascii_lowercase server_name;
            path = (case path_opt of Some p \<Rightarrow> p | None \<Rightarrow> ''/'')
        in rbind (build_sticky_cookie_aad name domain path) (\<lambda>aad.
             Inr \<lparr>scfg_name = name, scfg_name_prefix = name @ ''='', scfg_domain = domain,
                  scfg_path = path, scfg_duration = duration, scfg_aad = aad\<rparr>))"

text \<open>\<open>StickyCookieConfig::build_sticky_cookie\<close> with its builders; \<open>now\<close> is \<open>Utc::now().timestamp()\<close>.\<close>

definition build_sticky_cookie :: "sticky_config \<Rightarrow> i64 \<Rightarrow> bytes \<Rightarrow> sticky_cookie" where
  "build_sticky_cookie cfg now v =
     \<lparr>sc_value = \<lparr>scv_name = to_ascii_lowercase (scfg_name cfg), scv_value = v\<rparr>,
      sc_info = Some \<lparr>sci_expires = now + scfg_duration cfg,
                      sci_domain = to_ascii_lowercase (scfg_domain cfg),
                      sci_path = scfg_path cfg\<rparr>\<rparr>"

definition to_set_cookie_value_with_value_at :: "'k cookie_crypto \<Rightarrow> sticky_cookie \<Rightarrow> bool \<Rightarrow> bytes \<Rightarrow> i64 \<Rightarrow>
    lb_error + bytes" where
  "to_set_cookie_value_with_value_at K c secure cookie_value now_ts =
     (case sc_info c of
        None \<Rightarrow> Inl NoStickyCookieNoMetaInfo
      | Some info \<Rightarrow>
          (case date_format K (sci_expires info) of
             None \<Rightarrow> Inl FailedToConversionStickyCookie
           | Some exp_str \<Rightarrow>
               Inr (scv_name (sc_value c) @ ''='' @ cookie_value @ ''; expires='' @ exp_str @
                    ''; Max-Age='' @ show_i64 (sci_expires info - now_ts) @ ''; path='' @ sci_path info @
                    ''; domain='' @ sci_domain info @ ''; HttpOnly; SameSite=Lax'' @
                    (if secure then ''; Secure'' else []))))"

section \<open>Header operations\<close>

definition COOKIE :: bytes where "COOKIE = ''cookie''"
definition SET_COOKIE :: bytes where "SET_COOKIE = ''set-cookie''"

text \<open>The cookie tokens of a header map: every \<open>Cookie\<close> line split at semicolons and trimmed.\<close>

definition cookie_tokens :: "'h header_api \<Rightarrow> 'h \<Rightarrow> bytes list" where
  "cookie_tokens H headers =
     concat (map (\<lambda>v. map trim (split_on (CHR '';'') (case hv_to_str H v of Some s \<Rightarrow> s | None \<Rightarrow> [])))
               (hm_get_all H headers COOKIE))"

text \<open>The end of \<open>takeout_sticky_cookie_lb_context\<close>: reading the only sticky token.\<close>

definition open_sticky_token :: "'k cookie_crypto \<Rightarrow> i64 \<Rightarrow> sticky_config \<Rightarrow> 'k \<Rightarrow> bytes \<Rightarrow> lb_context option" where
  "open_sticky_token K now cfg cipher first_sticky_cookie =
     (case sticky_value_try_from first_sticky_cookie (scfg_name cfg) of
        Inl _ \<Rightarrow> None
      | Inr raw \<Rightarrow>
          (case open_server_id_at K cipher (scfg_aad cfg) (scv_value raw) now of
             None \<Rightarrow> None
           | Some server_id \<Rightarrow>
               Some \<lparr>lbc_sticky_cookie =
                 \<lparr>sc_value = \<lparr>scv_name = scfg_name cfg, scv_value = server_id\<rparr>, sc_info = None\<rparr>\<rparr>))"

text \<open>
  \<open>takeout_sticky_cookie_lb_context\<close>: the updated headers (also when it fails) and its result;
  \<open>now\<close> is the time at which the value is opened.
\<close>

definition takeout_sticky_cookie_lb_context :: "'h header_api \<Rightarrow> 'k cookie_crypto \<Rightarrow> i64 \<Rightarrow> 'h \<Rightarrow>
    sticky_config \<Rightarrow> 'k \<Rightarrow> 'h \<times> (anyhow + lb_context option)" where
  "takeout_sticky_cookie_lb_context H K now headers cfg cipher =
     (if \<not> hm_contains_key H headers COOKIE then (headers, Inr None)
      else
        let tokens = cookie_tokens H headers;
            sticky = filter (\<lambda>v. starts_with v (scfg_name_prefix cfg)) tokens;
            without_sticky = filter (\<lambda>v. \<not> starts_with v (scfg_name_prefix cfg)) tokens
        in if sticky = [] then (headers, Inr None)
           else
             let headers = snd (hm_remove H headers COOKIE);
                 passed = join ''; '' without_sticky
             in case (if passed = [] then Some headers
                      else map_option (hm_insert H headers COOKIE) (hv_from_str H passed)) of
                  None \<Rightarrow> (headers, Inl (Anyhow ''invalid header value''))
                | Some headers \<Rightarrow>
                    (headers,
                     Inr (if 1 < length sticky then None else open_sticky_token K now cfg cipher (hd sticky))))"

definition set_sticky_cookie_lb_context :: "'h header_api \<Rightarrow> 'k cookie_crypto \<Rightarrow> i64 \<Rightarrow> bytes \<Rightarrow> 'h \<Rightarrow>
    lb_context \<Rightarrow> sticky_config \<Rightarrow> bool \<Rightarrow> 'k \<Rightarrow> anyhow + 'h" where
  "set_sticky_cookie_lb_context H K now nonce headers ctx cfg secure cipher =
     (case sc_info (lbc_sticky_cookie ctx) of
        None \<Rightarrow> Inl (Anyhow ''sticky cookie metadata is missing'')
      | Some info \<Rightarrow>
          rbind (map_err (\<lambda>_. Anyhow ''seal'')
            (seal_server_id K nonce cipher (scfg_aad cfg) (scv_value (sc_value (lbc_sticky_cookie ctx)))
               (sci_expires info))) (\<lambda>sealed_value.
          rbind (map_err (\<lambda>_. Anyhow ''set-cookie'')
            (to_set_cookie_value_with_value_at K (lbc_sticky_cookie ctx) secure sealed_value now)) (\<lambda>cookie_string.
          rbind (ok_or (hv_from_str H cookie_string) (Anyhow ''invalid header value'')) (\<lambda>new_header_val.
          if \<not> hm_contains_key H headers SET_COOKIE then Inr (hm_insert H headers SET_COOKIE new_header_val)
          else
            let is_ours = (\<lambda>e. starts_with (case hv_to_str H e of Some s \<Rightarrow> s | None \<Rightarrow> []) (scfg_name_prefix cfg));
                flag = list_ex is_ours (hm_get_all H headers SET_COOKIE);
                headers = hm_update H headers SET_COOKIE (\<lambda>e. if is_ours e then new_header_val else e)
            in Inr (if flag then headers else hm_append H headers SET_COOKIE new_header_val)))))"

section \<open>Taking the cookie out\<close>

context header_laws
begin

lemma cookie_tokens_wf:
  "t \<in> set (cookie_tokens H h) \<Longrightarrow> CHR '';'' \<notin> set t \<and> trim t = t \<and> list_all visible_ascii t"
proof -
  assume "t \<in> set (cookie_tokens H h)"
  then obtain v u where v: "u \<in> set (split_on (CHR '';'') (case hv_to_str H v of Some s \<Rightarrow> s | None \<Rightarrow> []))"
    and t: "t = trim u"
    by (auto simp: cookie_tokens_def)
  let ?s = "case hv_to_str H v of Some s \<Rightarrow> s | None \<Rightarrow> []"
  have vis: "list_all visible_ascii ?s" by (simp add: to_str_law)
  have "c \<in> set u \<Longrightarrow> c \<in> set ?s \<and> c \<noteq> CHR '';''" for c
    using split_by_elems v unfolding split_on_def by fastforce
  then show ?thesis using set_trim [of u] vis t by (auto simp: list_all_iff)
qed

lemma cookie_tokens_set:
  "cookie_tokens H (hm_insert H h COOKIE v) =
     map trim (split_on (CHR '';'') (case hv_to_str H v of Some s \<Rightarrow> s | None \<Rightarrow> []))"
  "cookie_tokens H (snd (hm_remove H h COOKIE)) = []"
  by (simp_all add: cookie_tokens_def insert_law remove_snd_law)

lemma takeout_cases:
  fixes h :: 'h and cfg :: sticky_config
  defines "passed \<equiv> filter (\<lambda>v. \<not> starts_with v (scfg_name_prefix cfg)) (cookie_tokens H h)"
  shows
   "(takeout_sticky_cookie_lb_context H K now h cfg cipher = (h, Inr None) \<and> passed = cookie_tokens H h) \<or>
    (\<exists>h' c. takeout_sticky_cookie_lb_context H K now h cfg cipher = (h', Inr c) \<and>
       (h' = snd (hm_remove H h COOKIE) \<and> join ''; '' passed = [] \<or>
        h' = hm_insert H (snd (hm_remove H h COOKIE)) COOKIE (join ''; '' passed) \<and> passed \<noteq> []))"
proof -
  have vis: "list_all visible_ascii (join ''; '' passed)"
    using cookie_tokens_wf [of _ h]
    by (intro list_all_join) (auto simp: list_all_iff passed_def visible_ascii_def byte_def)
  have none: "hm_get_all H h COOKIE = [] \<Longrightarrow> cookie_tokens H h = []" by (simp add: cookie_tokens_def)
  have sep: "filter (\<lambda>v. starts_with v (scfg_name_prefix cfg)) (cookie_tokens H h) = [] \<Longrightarrow>
      passed = cookie_tokens H h"
    by (auto simp: passed_def filter_empty_conv)
  show ?thesis
    using vis none sep
    by (auto simp: takeout_sticky_cookie_lb_context_def contains_law from_str_law Let_def passed_def [symmetric])
qed

lemma takeout_strips:
  obtains h' c where "takeout_sticky_cookie_lb_context H K now h cfg cipher = (h', Inr c)"
    and "filter (\<lambda>t. t \<noteq> []) (cookie_tokens H h') =
           filter (\<lambda>t. t \<noteq> []) (filter (\<lambda>v. \<not> starts_with v (scfg_name_prefix cfg)) (cookie_tokens H h))"
    and "\<And>k. k \<noteq> COOKIE \<Longrightarrow> hm_get_all H h' k = hm_get_all H h k"
proof -
  define passed where "passed = filter (\<lambda>v. \<not> starts_with v (scfg_name_prefix cfg)) (cookie_tokens H h)"
  have wf: "\<forall>t \<in> set passed. CHR '';'' \<notin> set t \<and> trim t = t \<and> list_all visible_ascii t"
    using cookie_tokens_wf [of _ h] by (simp add: passed_def)
  have vis: "list_all visible_ascii (join ''; '' passed)"
    using wf by (intro list_all_join) (auto simp: list_all_iff visible_ascii_def byte_def)
  have empty: "join ''; '' passed = [] \<Longrightarrow> filter (\<lambda>t. t \<noteq> []) passed = []"
    by (induction "''; ''" passed rule: join.induct) auto
  have split: "passed \<noteq> [] \<Longrightarrow> map trim (split_on (CHR '';'') (join ''; '' passed)) = passed"
    using wf by (intro map_trim_split_join) (auto simp: is_whitespace_def byte_def)
  consider "takeout_sticky_cookie_lb_context H K now h cfg cipher = (h, Inr None)" "passed = cookie_tokens H h"
    | h' c where "takeout_sticky_cookie_lb_context H K now h cfg cipher = (h', Inr c)"
        "h' = snd (hm_remove H h COOKIE)" "join ''; '' passed = []"
    | h' c where "takeout_sticky_cookie_lb_context H K now h cfg cipher = (h', Inr c)"
        "h' = hm_insert H (snd (hm_remove H h COOKIE)) COOKIE (join ''; '' passed)" "passed \<noteq> []"
    using takeout_cases [of K now h cfg cipher] unfolding passed_def by blast
  then show ?thesis
  proof cases
    case 1
    then show ?thesis using that [of h None] by (simp add: passed_def)
  next
    case 2
    then show ?thesis
      using that [of h' c] empty by (simp add: passed_def [symmetric] cookie_tokens_set remove_snd_law)
  next
    case 3
    then show ?thesis
      using that [of h' c] split vis
      by (simp add: passed_def [symmetric] cookie_tokens_set remove_snd_law insert_law to_str_law)
  qed
qed

lemma takeout_opens:
  assumes "filter (\<lambda>t. starts_with t (scfg_name_prefix cfg)) (cookie_tokens H h) = [scfg_name cfg @ ''='' @ w]"
  shows "snd (takeout_sticky_cookie_lb_context H K now h cfg cipher) =
           Inr (open_sticky_token K now cfg cipher (scfg_name cfg @ ''='' @ w))"
proof -
  have "hm_contains_key H h COOKIE" using assms by (auto simp: contains_law cookie_tokens_def)
  moreover have "list_all visible_ascii
      (join ''; '' (filter (\<lambda>v. \<not> starts_with v (scfg_name_prefix cfg)) (cookie_tokens H h)))"
    using cookie_tokens_wf [of _ h]
    by (intro list_all_join) (auto simp: list_all_iff visible_ascii_def byte_def)
  ultimately show ?thesis
    using assms by (simp add: takeout_sticky_cookie_lb_context_def Let_def from_str_law)
qed

end

lemma b64_char_not_ws: "b64_char c \<Longrightarrow> \<not> is_whitespace c"
  by (auto simp: b64_char_def rust_simps)

lemma open_sticky_token_value:
  assumes "list_all b64_char w" and "w \<noteq> []" and "CHR ''='' \<notin> set (scfg_name cfg)" and "trim (scfg_name cfg) = scfg_name cfg"
    and "open_server_id_at K cipher (scfg_aad cfg) w now = Some server_id"
  shows "open_sticky_token K now cfg cipher (scfg_name cfg @ ''='' @ w) =
           Some \<lparr>lbc_sticky_cookie =
             \<lparr>sc_value = \<lparr>scv_name = scfg_name cfg, scv_value = server_id\<rparr>, sc_info = None\<rparr>\<rparr>"
proof -
  have "trim w = w" using assms(1) by (intro trim_no_ws) (auto simp: list_all_iff b64_char_not_ws)
  then show ?thesis
    using assms split_once_append [of "CHR ''=''" "scfg_name cfg" w]
    by (simp add: open_sticky_token_def sticky_value_try_from_def)
qed

text \<open>
  \<open>takeout_sticky_cookie_lb_context\<close> never fails, and what it leaves in the request's
  \<open>Cookie\<close> header are exactly the non-empty cookies that are not sticky tokens, in their order, with
  every other header untouched: the sticky token is never forwarded to the upstream.
\<close>

theorem sticky_cookie_not_forwarded:
  assumes "header_laws H"
  shows "\<exists>h' c. takeout_sticky_cookie_lb_context H K now h cfg cipher = (h', Inr c) \<and>
           filter (\<lambda>t. t \<noteq> []) (cookie_tokens H h') =
             filter (\<lambda>t. t \<noteq> [] \<and> \<not> starts_with t (scfg_name_prefix cfg)) (cookie_tokens H h) \<and>
           (\<forall>k. k \<noteq> COOKIE \<longrightarrow> hm_get_all H h' k = hm_get_all H h k)"
  by (rule header_laws.takeout_strips [OF assms, of K now h cfg cipher], intro exI conjI)
    (auto simp: filter_filter conj_commute)

section \<open>A concrete base64 engine\<close>

text \<open>
  The URL-safe alphabet without padding, encoded and decoded three bytes at a time, and an
  authenticated cipher that appends a constant tag: an instance on which the laws hold.
\<close>

definition b64_digit :: "nat \<Rightarrow> char" where
  "b64_digit n =
     (if n < 26 then char_of (65 + n) else if n < 52 then char_of (71 + n)
      else if n < 62 then char_of (n - 4) else if n = 62 then CHR ''-'' else CHR ''_'')"

definition b64_value :: "char \<Rightarrow> nat option" where
  "b64_value c =
     (if is_ascii_uppercase c then Some (byte c - 65) else if is_ascii_lowercase c then Some (byte c - 71)
      else if is_ascii_digit c then Some (byte c + 4) else if c = CHR ''-'' then Some 62
      else if c = CHR ''_'' then Some 63 else None)"

fun b64_enc :: "bytes \<Rightarrow> bytes" where
  "b64_enc [] = []"
| "b64_enc [a] = map b64_digit [byte a div 4, byte a mod 4 * 16]"
| "b64_enc [a, b] = map b64_digit [byte a div 4, byte a mod 4 * 16 + byte b div 16, byte b mod 16 * 4]"
| "b64_enc (a # b # c # s) =
     map b64_digit [byte a div 4, byte a mod 4 * 16 + byte b div 16, byte b mod 16 * 4 + byte c div 64,
       byte c mod 64] @ b64_enc s"

fun b64_dec_values :: "nat list \<Rightarrow> bytes option" where
  "b64_dec_values [] = Some []"
| "b64_dec_values [_] = None"
| "b64_dec_values [x, y] = (if y mod 16 = 0 then Some [char_of (x * 4 + y div 16)] else None)"
| "b64_dec_values [x, y, z] =
     (if z mod 4 = 0 then Some [char_of (x * 4 + y div 16), char_of (y mod 16 * 16 + z div 4)] else None)"
| "b64_dec_values (x # y # z # w # vs) =
     (case b64_dec_values vs of
        None \<Rightarrow> None
      | Some s \<Rightarrow>
          Some (char_of (x * 4 + y div 16) # char_of (y mod 16 * 16 + z div 4) # char_of (z mod 4 * 64 + w) # s))"

definition b64_dec :: "bytes \<Rightarrow> bytes option" where
  "b64_dec s = (let vs = map b64_value s in if None \<in> set vs then None else b64_dec_values (map the vs))"

definition sample_crypto :: "unit cookie_crypto" where
  "sample_crypto =
     \<lparr>gcm_encrypt = (\<lambda>k n aad m. Some (m @ replicate 16 (CHR ''t''))),
      gcm_decrypt = (\<lambda>k n aad ct. if 16 \<le> length ct then Some (take (length ct - 16) ct) else None),
      gcm_key = (\<lambda>_. Some ()), b64_encode = b64_enc, b64_decode = b64_dec,
      date_format = (\<lambda>_. Some ''Thu, 01-Jan-1970 00:00:00 GMT''), sha256 = (\<lambda>s. s)\<rparr>"

lemma byte_bound: "byte c < 256"
  by (simp add: byte_def)

lemma b64_digit_char: "n < 64 \<Longrightarrow> b64_char (b64_digit n)"
  by (auto simp: b64_digit_def b64_char_def rust_simps)

lemma b64_value_digit: "n < 64 \<Longrightarrow> b64_value (b64_digit n) = Some n"
  by (auto simp: b64_digit_def b64_value_def rust_simps)

lemma b64_sextets:
  assumes "a < 256" "b < 256" "(c :: nat) < 256"
  shows "a div 4 < 64" "a mod 4 * 16 + b div 16 < 64" "b mod 16 * 4 + c div 64 < 64" "c mod 64 < 64"
    "a mod 4 * 16 < 64" "b mod 16 * 4 < 64"
    "a div 4 * 4 + (a mod 4 * 16 + b div 16) div 16 = a"
    "(a mod 4 * 16 + b div 16) mod 16 * 16 + (b mod 16 * 4 + c div 64) div 4 = b"
    "(b mod 16 * 4 + c div 64) mod 4 * 64 + c mod 64 = c"
    "a div 4 * 4 + (a mod 4 * 16) div 16 = a" "(a mod 4 * 16) mod 16 = 0"
    "(a mod 4 * 16 + b div 16) mod 16 * 16 + (b mod 16 * 4) div 4 = b" "(b mod 16 * 4) mod 4 = 0"
proof -
  have m: "a mod 4 < 4" "b mod 16 < 16" "b div 16 < 16" "c div 64 < 4"
    using assms by (simp_all add: less_mult_imp_div_less)
  then show "a div 4 < 64" "a mod 4 * 16 + b div 16 < 64" "b mod 16 * 4 + c div 64 < 64" "c mod 64 < 64"
    "a mod 4 * 16 < 64" "b mod 16 * 4 < 64"
    using assms by (simp_all add: less_mult_imp_div_less)
  have "(a mod 4 * 16 + b div 16) div 16 = a mod 4" "(a mod 4 * 16 + b div 16) mod 16 = b div 16"
    "(b mod 16 * 4 + c div 64) div 4 = b mod 16" "(b mod 16 * 4 + c div 64) mod 4 = c div 64"
    using m by simp_all
  then show "a div 4 * 4 + (a mod 4 * 16 + b div 16) div 16 = a"
    "(a mod 4 * 16 + b div 16) mod 16 * 16 + (b mod 16 * 4 + c div 64) div 4 = b"
    "(b mod 16 * 4 + c div 64) mod 4 * 64 + c mod 64 = c"
    "a div 4 * 4 + (a mod 4 * 16) div 16 = a" "(a mod 4 * 16) mod 16 = 0"
    "(a mod 4 * 16 + b div 16) mod 16 * 16 + (b mod 16 * 4) div 4 = b" "(b mod 16 * 4) mod 4 = 0"
    by simp_all
qed

lemma b64_dec_append:
  "\<forall>n \<in> set ns. n < 64 \<Longrightarrow>
   b64_dec (map b64_digit ns @ s) =
     (if None \<in> set (map b64_value s) then None else b64_dec_values (ns @ map (the \<circ> b64_value) s))"
proof -
  assume "\<forall>n \<in> set ns. n < 64"
  then have "map b64_value (map b64_digit ns) = map Some ns" by (simp add: b64_value_digit)
  then have eq: "map b64_value (map b64_digit ns @ s) = map Some ns @ map b64_value s"
    by (simp only: map_append)
  show ?thesis unfolding b64_dec_def eq by (simp add: o_def image_iff)
qed

lemma char_of_byte: "char_of (byte c) = c"
  by (simp add: byte_def)

lemma b64_roundtrip: "b64_dec (b64_enc s) = Some s"
proof (induction s rule: b64_enc.induct)
  case (2 a)
  note sx = b64_sextets [OF byte_bound [of a] byte_bound [of a] byte_bound [of a]]
  have "b64_dec (b64_enc [a] @ []) = b64_dec_values [byte a div 4, byte a mod 4 * 16]"
    unfolding b64_enc.simps by (subst b64_dec_append) (use sx(1-6) in auto)
  then show ?case by (simp only: append_Nil2 b64_dec_values.simps sx char_of_byte if_True simp_thms)
next
  case (3 a b)
  note sx = b64_sextets [OF byte_bound [of a] byte_bound [of b] byte_bound [of b]]
  have "b64_dec (b64_enc [a, b] @ []) =
      b64_dec_values [byte a div 4, byte a mod 4 * 16 + byte b div 16, byte b mod 16 * 4]"
    unfolding b64_enc.simps by (subst b64_dec_append) (use sx(1-6) in auto)
  then show ?case by (simp only: append_Nil2 b64_dec_values.simps sx char_of_byte if_True simp_thms)
next
  case (4 a b c s)
  note sx = b64_sextets [OF byte_bound [of a] byte_bound [of b] byte_bound [of c]]
  have v: "None \<notin> set (map b64_value (b64_enc s))" "b64_dec_values (map (the \<circ> b64_value) (b64_enc s)) = Some s"
    using 4 by (auto simp: b64_dec_def Let_def o_def split: if_splits)
  have "b64_dec (b64_enc (a # b # c # s)) =
      b64_dec_values ([byte a div 4, byte a mod 4 * 16 + byte b div 16, byte b mod 16 * 4 + byte c div 64,
        byte c mod 64] @ map (the \<circ> b64_value) (b64_enc s))"
    unfolding b64_enc.simps using v(1) by (subst b64_dec_append) (use sx(1-6) in auto)
  then show ?case
    by (simp only: append.simps b64_dec_values.simps v(2) option.case sx char_of_byte)
qed (simp add: b64_dec_def)

lemma b64_enc_len: "length (b64_enc s) = base64_url_no_pad_encoded_len (length s)"
  by (induction s rule: b64_enc.induct) (simp_all add: b64_len_closed)

lemma b64_enc_chars: "list_all b64_char (b64_enc s)"
proof (induction s rule: b64_enc.induct)
  case (2 a)
  then show ?case using b64_sextets(1-6) [OF byte_bound [of a] byte_bound [of a] byte_bound [of a]]
    by (simp add: b64_digit_char)
next
  case (3 a b)
  then show ?case using b64_sextets(1-6) [OF byte_bound [of a] byte_bound [of b] byte_bound [of b]]
    by (simp add: b64_digit_char)
next
  case (4 a b c s)
  then show ?case using b64_sextets(1-6) [OF byte_bound [of a] byte_bound [of b] byte_bound [of c]]
    by (simp add: b64_digit_char)
qed simp

lemma sample_crypto_laws: "cookie_crypto_laws sample_crypto"
  by (simp add: cookie_crypto_laws_def sample_crypto_def b64_roundtrip b64_enc_len b64_enc_chars TAG_LEN_def)

theorem sticky_seal_open_roundtrip_witness:
  "\<exists>w. seal_server_id sample_crypto (replicate 12 (CHR ''n'')) () ''aad'' ''srv'' 10 = Inr w \<and>
       open_server_id_at sample_crypto () ''aad'' w 5 = Some ''srv''"
  using sticky_seal_open_roundtrip [OF sample_crypto_laws, of "replicate 12 (CHR ''n'')" "''srv''" "()" "''aad''" 10 5]
  by (simp add: NONCE_LEN_def MAX_SERVER_ID_LEN_def byte_def)

theorem sticky_cookie_not_forwarded_witness:
  "\<exists>h' c. takeout_sticky_cookie_lb_context lines_api sample_crypto 0 [(COOKIE, ''a=1; t=x'')]
       \<lparr>scfg_name = ''t'', scfg_name_prefix = ''t='', scfg_domain = ''d'', scfg_path = ''/'', scfg_duration = 300,
        scfg_aad = []\<rparr> () = (h', Inr c) \<and> filter (\<lambda>t. t \<noteq> []) (cookie_tokens lines_api h') = [''a=1'']"
proof -
  let ?cfg = "\<lparr>scfg_name = ''t'', scfg_name_prefix = ''t='', scfg_domain = ''d'', scfg_path = ''/'',
    scfg_duration = 300, scfg_aad = []\<rparr>"
  have "cookie_tokens lines_api [(COOKIE, ''a=1; t=x'')] = [''a=1'', ''t=x'']"
    by (simp add: cookie_tokens_def lines_api_def lines_get_all_def split_on_def trim_def rust_simps visible_ascii_def)
  then show ?thesis
    using sticky_cookie_not_forwarded [OF header_lines.header_laws_axioms, of sample_crypto 0
        "[(COOKIE, ''a=1; t=x'')]" ?cfg "()"]
    by auto
qed

end
