(* ===== verification/Health_Check.thy ===== *)
theory Health_Check
  imports Http_Api
begin

text \<open>
  The health checker of \<open>backend/health_check/\<close>: the consecutive-result counter
  (\<open>counter.rs\<close>), the shared health flag (\<open>health.rs\<close>), the two probes (\<open>check_tcp.rs\<close>,
  \<open>check_http.rs\<close>) and the checker task (\<open>checker.rs\<close>).  The counter is proved to refine a
  specification on the history of probe results, and the flags a checker task publishes are proved
  to be that specification of each upstream's own history.
\<close>

section \<open>The counter\<close>

record counter =
  consecutive_ok :: u32
  consecutive_fail :: u32
  unhealthy_threshold :: u32
  healthy_threshold :: u32
  c_healthy :: bool

definition counter_new :: "u32 \<Rightarrow> u32 \<Rightarrow> counter" where
  "counter_new ut ht =
     \<lparr>consecutive_ok = 0, consecutive_fail = 0, unhealthy_threshold = ut, healthy_threshold = ht,
      c_healthy = True\<rparr>"

text \<open>\<open>u32::saturating_add(1)\<close>.\<close>

definition sat_inc :: "u32 \<Rightarrow> u32" where
  "sat_inc n = (if n = - 1 then n else n + 1)"

definition counter_record :: "counter \<Rightarrow> bool \<Rightarrow> bool option \<times> counter" where
  "counter_record c ok =
     (if ok then
        let c = c\<lparr>consecutive_ok := sat_inc (consecutive_ok c), consecutive_fail := 0\<rparr>
        in if \<not> c_healthy c \<and> healthy_threshold c \<le> consecutive_ok c
           then (Some True, c\<lparr>c_healthy := True, consecutive_ok := 0\<rparr>)
           else (None, c)
      else
        let c = c\<lparr>consecutive_fail := sat_inc (consecutive_fail c), consecutive_ok := 0\<rparr>
        in if c_healthy c \<and> unhealthy_threshold c \<le> consecutive_fail c
           then (Some False, c\<lparr>c_healthy := False, consecutive_fail := 0\<rparr>)
           else (None, c))"

definition counter_history :: "u32 \<Rightarrow> u32 \<Rightarrow> bool list \<Rightarrow> counter" where
  "counter_history ut ht rs = foldl (\<lambda>c r. snd (counter_record c r)) (counter_new ut ht) rs"

section \<open>The specification\<close>

text \<open>The length of the run of results equal to \<open>b\<close> at the end of a history.\<close>

definition trailing :: "bool \<Rightarrow> bool list \<Rightarrow> nat" where
  "trailing b rs = length (takeWhile (\<lambda>r. r = b) (rev rs))"

text \<open>
  What the counter promises: an upstream is healthy at first, goes down when the history ends in
  at least \<open>ut\<close> failures and comes back when it ends in at least \<open>ht\<close> successes.
\<close>

fun health_spec_rev :: "nat \<Rightarrow> nat \<Rightarrow> bool list \<Rightarrow> bool" where
  "health_spec_rev ut ht [] = True"
| "health_spec_rev ut ht (r # rs) =
     (if health_spec_rev ut ht rs
      then length (takeWhile (\<lambda>r. r = False) (r # rs)) < max 1 ut
      else max 1 ht \<le> length (takeWhile (\<lambda>r. r = True) (r # rs)))"

definition health_spec :: "nat \<Rightarrow> nat \<Rightarrow> bool list \<Rightarrow> bool" where
  "health_spec ut ht rs = health_spec_rev ut ht (rev rs)"

lemma trailing_simps [simp]:
  "trailing b [] = 0"
  "trailing b (rs @ [r]) = (if r = b then Suc (trailing b rs) else 0)"
  by (simp_all add: trailing_def)

lemma health_spec_simps [simp]:
  "health_spec ut ht []"
  "health_spec ut ht (rs @ [r]) =
     (if health_spec ut ht rs then trailing False (rs @ [r]) < max 1 ut
      else max 1 ht \<le> trailing True (rs @ [r]))"
  by (simp_all add: health_spec_def trailing_def)

section \<open>The counter refines the specification\<close>

lemma unat_sat_inc: "unat (sat_inc n) = min (Suc (unat n)) (2 ^ 32 - 1)"
proof (cases "n = - 1")
  case False
  then have "Suc (unat n) = unat (n + 1)"
    by (metis Suc_eq_plus1 add.commute unatSuc add_eq_0_iff)
  moreover have "unat (n + 1) < 2 ^ 32" by (rule order_less_le_trans [OF unsigned_less]) simp
  ultimately show ?thesis using False by (simp add: sat_inc_def)
qed (simp add: sat_inc_def unsigned_minus_1_eq_mask mask_eq_exp_minus_1)

definition counter_inv :: "u32 \<Rightarrow> u32 \<Rightarrow> bool list \<Rightarrow> counter \<Rightarrow> bool" where
  "counter_inv ut ht rs c \<longleftrightarrow>
     unhealthy_threshold c = ut \<and> healthy_threshold c = ht \<and>
     c_healthy c = health_spec (unat ut) (unat ht) rs \<and>
     (c_healthy c \<longrightarrow> unat (consecutive_fail c) = min (trailing False rs) (2 ^ 32 - 1)) \<and>
     (\<not> c_healthy c \<longrightarrow> unat (consecutive_ok c) = min (trailing True rs) (2 ^ 32 - 1))"

lemma counter_inv_healthy: "counter_inv ut ht rs c \<Longrightarrow> c_healthy c = health_spec (unat ut) (unat ht) rs"
  by (simp add: counter_inv_def)

lemma counter_inv_new: "counter_inv ut ht [] (counter_new ut ht)"
  by (simp add: counter_inv_def counter_new_def)

lemma u32_le_min: "unat (t :: u32) \<le> min k (2 ^ 32 - 1) \<longleftrightarrow> unat t \<le> k"
proof -
  have "unat t < 2 ^ 32" by (rule order_less_le_trans [OF unsigned_less]) simp
  then show ?thesis by auto
qed

lemma counter_inv_record:
  assumes "counter_inv ut ht rs c"
  shows "counter_inv ut ht (rs @ [ok]) (snd (counter_record c ok))"
    and "fst (counter_record c ok) =
           (if c_healthy (snd (counter_record c ok)) = c_healthy c then None
            else Some (c_healthy (snd (counter_record c ok))))"
proof -
  have ok: "unat (sat_inc (consecutive_ok c)) = min (Suc (trailing True rs)) (2 ^ 32 - 1)" if "\<not> c_healthy c"
    using assms that by (auto simp: counter_inv_def unat_sat_inc)
  have fail: "unat (sat_inc (consecutive_fail c)) = min (Suc (trailing False rs)) (2 ^ 32 - 1)" if "c_healthy c"
    using assms that by (auto simp: counter_inv_def unat_sat_inc)
  have up: "ht \<le> sat_inc (consecutive_ok c) \<longleftrightarrow> unat ht \<le> Suc (trailing True rs)" if "\<not> c_healthy c"
    unfolding word_le_nat_alt ok [OF that] by (rule u32_le_min)
  have down: "ut \<le> sat_inc (consecutive_fail c) \<longleftrightarrow> unat ut \<le> Suc (trailing False rs)" if "c_healthy c"
    unfolding word_le_nat_alt fail [OF that] by (rule u32_le_min)
  show "counter_inv ut ht (rs @ [ok]) (snd (counter_record c ok))"
    using assms ok fail up down by (cases ok) (auto simp: counter_inv_def counter_record_def Let_def)
  show "fst (counter_record c ok) =
           (if c_healthy (snd (counter_record c ok)) = c_healthy c then None
            else Some (c_healthy (snd (counter_record c ok))))"
    by (auto simp: counter_record_def Let_def)
qed

lemma counter_history_inv: "counter_inv ut ht rs (counter_history ut ht rs)"
  by (induction rs rule: rev_induct)
    (simp_all add: counter_history_def counter_inv_new counter_inv_record)

text \<open>
  The consecutive-result counter (with its saturating \<open>u32\<close> counters) is, after any history of
  results, in the state the specification gives for that history: down after \<open>unhealthy_threshold\<close>
  consecutive failures, up again after \<open>healthy_threshold\<close> consecutive successes (a threshold of
  zero acting as one); and \<open>record\<close> reports a transition exactly when that state changes.
\<close>

theorem counter_refines_spec:
  "c_healthy (counter_history ut ht rs) = health_spec (unat ut) (unat ht) rs \<and>
   fst (counter_record (counter_history ut ht rs) r) =
     (if health_spec (unat ut) (unat ht) (rs @ [r]) = health_spec (unat ut) (unat ht) rs then None
      else Some (health_spec (unat ut) (unat ht) (rs @ [r])))"
proof -
  have a: "counter_inv ut ht rs (counter_history ut ht rs)" by (rule counter_history_inv)
  have b: "counter_inv ut ht (rs @ [r]) (snd (counter_record (counter_history ut ht rs) r))"
    using a by (rule counter_inv_record)
  have "c_healthy (counter_history ut ht rs) = health_spec (unat ut) (unat ht) rs"
    "c_healthy (snd (counter_record (counter_history ut ht rs) r)) = health_spec (unat ut) (unat ht) (rs @ [r])"
    using a b by (simp_all only: counter_inv_healthy)
  then show ?thesis using counter_inv_record(2) [OF a, of r] by simp
qed

section \<open>The probes\<close>

datatype check_type = Tcp | Http (hc_path: bytes) (hc_expected_status: u16)

text \<open>\<open>HealthCheckConfig\<close> of \<open>globals.rs\<close>; durations in milliseconds.\<close>

record health_check_config =
  hc_type :: check_type
  hc_interval :: nat
  hc_timeout :: nat
  hc_unhealthy_threshold :: u32
  hc_healthy_threshold :: u32

text \<open>
  The network during one probe round: whether a TCP connection to an address is established within
  the time limit, and the status of the response to a GET of a URI with a \<open>Host\<close> value, none when
  the request cannot be built, fails or times out.
\<close>

record 'u probe_net =
  tcp_connect :: "bytes \<Rightarrow> nat \<Rightarrow> bool"
  http_get :: "'u \<Rightarrow> bytes \<Rightarrow> nat \<Rightarrow> u16 option"

definition build_tcp_addr :: "'u uri_api \<Rightarrow> 'u \<Rightarrow> bytes \<Rightarrow> bytes" where
  "build_tcp_addr U uri auth =
     (let default_port = (if uri_scheme U uri = Some ''https'' then 443 else 80);
          port = (case auth_port U auth of Some p \<Rightarrow> p | None \<Rightarrow> default_port)
      in auth_host U auth @ '':'' @ show_nat (unat port))"

definition check_tcp :: "'u uri_api \<Rightarrow> 'u probe_net \<Rightarrow> 'u \<Rightarrow> nat \<Rightarrow> bool" where
  "check_tcp U net uri timeout =
     (case uri_authority U uri of
        None \<Rightarrow> False
      | Some auth \<Rightarrow> tcp_connect net (build_tcp_addr U uri auth) timeout)"

definition build_health_check_uri :: "'u uri_api \<Rightarrow> 'u \<Rightarrow> bytes \<Rightarrow> 'u option" where
  "build_health_check_uri U base path =
     (case uri_authority U base of
        None \<Rightarrow> None
      | Some auth \<Rightarrow>
          let scheme = (case uri_scheme U base of Some s \<Rightarrow> s | None \<Rightarrow> ''http'')
          in uri_parse U (scheme @ ''://'' @ auth @ path))"

definition check_http :: "'u uri_api \<Rightarrow> 'u probe_net \<Rightarrow> 'u \<Rightarrow> bytes \<Rightarrow> u16 \<Rightarrow> nat \<Rightarrow> bool" where
  "check_http U net uri path expected_status timeout =
     (case build_health_check_uri U uri path of
        None \<Rightarrow> False
      | Some target_uri \<Rightarrow>
          let host = (case uri_authority U target_uri of Some a \<Rightarrow> a | None \<Rightarrow> [])
          in (case http_get net target_uri host timeout of
                Some status \<Rightarrow> status = expected_status
              | None \<Rightarrow> False))"

definition probe :: "'u uri_api \<Rightarrow> bool \<Rightarrow> health_check_config \<Rightarrow> 'u probe_net \<Rightarrow> 'u \<Rightarrow> bool" where
  "probe U has_client cfg net uri =
     (case hc_type cfg of
        Tcp \<Rightarrow> check_tcp U net uri (hc_timeout cfg)
      | Http path expected_status \<Rightarrow>
          if has_client then check_http U net uri path expected_status (hc_timeout cfg) else False)"

section \<open>The checker task\<close>

text \<open>
  The shared flags (\<open>Arc<UpstreamHealth>\<close>) are a store from addresses to booleans; the checker has
  one counter per upstream and writes a flag only on a transition.
\<close>

type_synonym health_store = "nat \<Rightarrow> bool"

definition record_result :: "nat list \<Rightarrow> counter list \<times> health_store \<Rightarrow> nat \<times> bool \<Rightarrow> counter list \<times> health_store" where
  "record_result healths st res =
     (let (counters, flags) = st; (i, ok) = res; (changed, c) = counter_record (counters ! i) ok
      in (counters[i := c],
          case changed of Some new_state \<Rightarrow> flags(healths ! i := new_state) | None \<Rightarrow> flags))"

definition check_round :: "'u uri_api \<Rightarrow> bool \<Rightarrow> health_check_config \<Rightarrow> ('u \<times> nat) list \<Rightarrow> 'u probe_net \<Rightarrow>
    counter list \<times> health_store \<Rightarrow> counter list \<times> health_store" where
  "check_round U has_client cfg upstreams net st =
     foldl (record_result (map snd upstreams)) st
       (enumerate 0 (map (\<lambda>(uri, _). probe U has_client cfg net uri) upstreams))"

datatype 'u checker_event = Cancelled | Ticked "'u probe_net"

fun checker_loop :: "'u uri_api \<Rightarrow> bool \<Rightarrow> health_check_config \<Rightarrow> ('u \<times> nat) list \<Rightarrow>
    'u checker_event list \<Rightarrow> counter list \<times> health_store \<Rightarrow> counter list \<times> health_store" where
  "checker_loop U has_client cfg upstreams [] st = st"
| "checker_loop U has_client cfg upstreams (Cancelled # es) st = st"
| "checker_loop U has_client cfg upstreams (Ticked net # es) st =
     checker_loop U has_client cfg upstreams es (check_round U has_client cfg upstreams net st)"

definition run_health_checker :: "'u uri_api \<Rightarrow> bool \<Rightarrow> health_check_config \<Rightarrow> ('u \<times> nat) list \<Rightarrow>
    'u checker_event list \<Rightarrow> health_store \<Rightarrow> health_store" where
  "run_health_checker U has_client cfg upstreams events flags =
     snd (checker_loop U has_client cfg upstreams events
            (map (\<lambda>_. counter_new (hc_unhealthy_threshold cfg) (hc_healthy_threshold cfg)) upstreams, flags))"

text \<open>
  The invariant of the task: every counter is in the state of its upstream's own history, and every
  flag shows what its counter says; flags of other upstreams are left alone.
\<close>

definition checker_inv :: "health_check_config \<Rightarrow> nat list \<Rightarrow> health_store \<Rightarrow> (nat \<Rightarrow> bool list) \<Rightarrow>
    counter list \<times> health_store \<Rightarrow> bool" where
  "checker_inv cfg healths flags0 hist st \<longleftrightarrow>
     length (fst st) = length healths \<and>
     (\<forall>i < length healths.
        counter_inv (hc_unhealthy_threshold cfg) (hc_healthy_threshold cfg) (hist i) (fst st ! i) \<and>
        snd st (healths ! i) = c_healthy (fst st ! i)) \<and>
     (\<forall>a. a \<notin> set healths \<longrightarrow> snd st a = flags0 a)"

lemma checker_inv_cong:
  "checker_inv cfg healths flags0 hist st \<Longrightarrow> (\<And>i. i < length healths \<Longrightarrow> hist' i = hist i) \<Longrightarrow>
   checker_inv cfg healths flags0 hist' st"
  by (simp add: checker_inv_def)

lemma record_result_inv:
  assumes inv: "checker_inv cfg healths flags0 hist st" and i: "i < length healths" and d: "distinct healths"
  shows "checker_inv cfg healths flags0 (hist(i := hist i @ [ok])) (record_result healths st (i, ok))"
proof -
  obtain cs flags where st: "st = (cs, flags)" by (cases st)
  obtain ch c where rec: "counter_record (cs ! i) ok = (ch, c)" by fastforce
  have ci: "counter_inv (hc_unhealthy_threshold cfg) (hc_healthy_threshold cfg) (hist i) (cs ! i)"
    and fl: "flags (healths ! i) = c_healthy (cs ! i)"
    using inv i st by (auto simp: checker_inv_def)
  have c: "counter_inv (hc_unhealthy_threshold cfg) (hc_healthy_threshold cfg) (hist i @ [ok]) c"
    and ch: "ch = (if c_healthy c = c_healthy (cs ! i) then None else Some (c_healthy c))"
    using counter_inv_record [OF ci, of ok] unfolding rec fst_conv snd_conv by blast+
  have ne: "j < length healths \<Longrightarrow> j \<noteq> i \<Longrightarrow> healths ! j \<noteq> healths ! i" for j
    using i d by (simp add: nth_eq_iff_index_eq)
  have eq: "record_result healths st (i, ok) = (cs[i := c], flags(healths ! i := c_healthy c))"
    using st rec ch fl by (auto simp: record_result_def fun_eq_iff)
  show ?thesis
    using inv i st c ne unfolding eq by (auto simp: checker_inv_def nth_list_update)
qed

lemma foldl_record_result_inv:
  assumes "checker_inv cfg healths flags0 hist st" and "k + length oks \<le> length healths" and "distinct healths"
  shows "checker_inv cfg healths flags0
           (\<lambda>i. if k \<le> i \<and> i < k + length oks then hist i @ [oks ! (i - k)] else hist i)
           (foldl (record_result healths) st (enumerate k oks))"
  using assms
proof (induction oks arbitrary: k hist st)
  case (Cons ok oks)
  have "checker_inv cfg healths flags0 (hist(k := hist k @ [ok])) (record_result healths st (k, ok))"
    using Cons.prems by (intro record_result_inv) auto
  from Cons.IH [OF this, of "Suc k"] Cons.prems show ?case
    by (simp, elim checker_inv_cong) (auto simp: nth_Cons' Suc_diff_le not_less_eq_eq le_Suc_eq)
qed (auto elim: checker_inv_cong)

lemma check_round_inv:
  assumes "checker_inv cfg (map snd upstreams) flags0 hist st" and "distinct (map snd upstreams)"
  shows "checker_inv cfg (map snd upstreams) flags0
           (\<lambda>i. hist i @ [probe U cl cfg net (fst (upstreams ! i))]) (check_round U cl cfg upstreams net st)"
  using foldl_record_result_inv [OF assms(1), of 0 "map (\<lambda>(uri, _). probe U cl cfg net uri) upstreams"] assms(2)
  unfolding check_round_def by (simp, elim checker_inv_cong) (simp add: case_prod_unfold)

text \<open>The probe rounds that run before the task is cancelled.\<close>

fun rounds :: "'u checker_event list \<Rightarrow> 'u probe_net list" where
  "rounds [] = []"
| "rounds (Cancelled # es) = []"
| "rounds (Ticked net # es) = net # rounds es"

lemma checker_loop_inv:
  assumes "checker_inv cfg (map snd upstreams) flags0 hist st" and "distinct (map snd upstreams)"
  shows "checker_inv cfg (map snd upstreams) flags0
           (\<lambda>i. hist i @ map (\<lambda>net. probe U cl cfg net (fst (upstreams ! i))) (rounds events))
           (checker_loop U cl cfg upstreams events st)"
  using assms(1)
proof (induction events arbitrary: hist st rule: rounds.induct)
  case (3 net es)
  show ?case
    using "3.IH" [OF check_round_inv [OF "3.prems" assms(2), of U cl net]] by simp
qed simp_all

text \<open>
  Whatever the network does in every probe round, when the flags start healthy the health
  checker leaves in the shared flag of each of its upstreams exactly what the specification gives
  for the results of that upstream's own probes, and touches no other flag.
\<close>

theorem health_checker_publishes_spec:
  assumes "distinct (map snd upstreams)" and "\<forall>a \<in> set (map snd upstreams). flags a"
    and "i < length upstreams"
  shows "run_health_checker U cl cfg upstreams events flags (snd (upstreams ! i)) =
           health_spec (unat (hc_unhealthy_threshold cfg)) (unat (hc_healthy_threshold cfg))
             (map (\<lambda>net. probe U cl cfg net (fst (upstreams ! i))) (rounds events)) \<and>
         (\<forall>a. a \<notin> set (map snd upstreams) \<longrightarrow>
            run_health_checker U cl cfg upstreams events flags a = flags a)"
proof -
  let ?st = "(map (\<lambda>_. counter_new (hc_unhealthy_threshold cfg) (hc_healthy_threshold cfg)) upstreams, flags)"
  have "checker_inv cfg (map snd upstreams) flags (\<lambda>_. []) ?st"
    using assms by (auto simp: checker_inv_def counter_inv_new) (simp add: counter_new_def)
  from checker_loop_inv [OF this assms(1), of U cl events] show ?thesis
    using assms counter_inv_healthy unfolding checker_inv_def run_health_checker_def by fastforce
qed

definition sample_uri_api :: "bytes uri_api" where
  "sample_uri_api =
     \<lparr>uri_scheme = (\<lambda>u. Some ''http''), uri_authority = Some, auth_host = (\<lambda>a. a), auth_port = (\<lambda>a. None),
      uri_host = Some, uri_port = (\<lambda>u. None), uri_path = (\<lambda>u. ''/''), uri_path_and_query = (\<lambda>u. None),
      uri_display = (\<lambda>u. u), uri_parse = Some, uri_build = (\<lambda>s a p. Some a),
      pq_try_from = Some\<rparr>"

theorem health_checker_publishes_spec_witness:
  "\<not> run_health_checker sample_uri_api False
       \<lparr>hc_type = Tcp, hc_interval = 1, hc_timeout = 1, hc_unhealthy_threshold = 2, hc_healthy_threshold = 1\<rparr>
       [(''a'', 0), (''b'', 1)]
       [Ticked \<lparr>tcp_connect = (\<lambda>a t. a = ''a:80''), http_get = (\<lambda>u h t. None)\<rparr>,
        Ticked \<lparr>tcp_connect = (\<lambda>a t. a = ''a:80''), http_get = (\<lambda>u h t. None)\<rparr>]
       (\<lambda>_. True) 1"
proof -
  let ?net = "\<lparr>tcp_connect = (\<lambda>a t. a = ''a:80''), http_get = (\<lambda>u h t. None)\<rparr> :: bytes probe_net"
  let ?cfg = "\<lparr>hc_type = Tcp, hc_interval = 1, hc_timeout = 1, hc_unhealthy_threshold = 2,
    hc_healthy_threshold = 1\<rparr>"
  have "\<not> probe sample_uri_api False ?cfg ?net ''b''"
    by (simp add: probe_def check_tcp_def sample_uri_api_def build_tcp_addr_def)
  then show ?thesis
    using health_checker_publishes_spec [of "[(''a'', 0), (''b'', 1)]" "\<lambda>_. True" 1 sample_uri_api False ?cfg
        "[Ticked ?net, Ticked ?net]"]
    by (simp add: health_spec_def)
qed

end
