(* ===== verification/Load_Balance.thy ===== *)
theory Load_Balance
  imports Sticky_Cookie Health_Check
begin

text \<open>
  Load balancing: the upstream of \<open>backend/upstream.rs\<close>, the index selection and the strategies of
  \<open>backend/load_balance/load_balance_main.rs\<close>, and the sticky strategy of
  \<open>load_balance_sticky.rs\<close>.  The trait \<open>LoadBalanceWithPointer\<close> is the locale
  \<open>load_balance_with_pointer\<close>, interpreted for every strategy.
\<close>

section \<open>Upstreams\<close>

text \<open>The health of an upstream is the address of its shared flag.\<close>

record 'u upstream =
  up_uri :: 'u
  up_host_header :: "bytes option"
  up_health :: "nat option"

text \<open>\<open>Upstream::from(&UpstreamUri)\<close>.\<close>

definition upstream_from :: "'h header_api \<Rightarrow> 'u uri_api \<Rightarrow> 'u \<Rightarrow> 'u upstream" where
  "upstream_from H U uri =
     \<lparr>up_uri = uri,
      up_host_header =
        (case uri_host U uri of
           None \<Rightarrow> None
         | Some host \<Rightarrow>
             (case uri_port U uri of
                Some port \<Rightarrow> hv_from_str H (host @ '':'' @ show_nat (unat port))
              | None \<Rightarrow> hv_from_str H host)),
      up_health = None\<rparr>"

definition up_is_healthy :: "health_store \<Rightarrow> 'u upstream \<Rightarrow> bool" where
  "up_is_healthy view u = (case up_health u of None \<Rightarrow> True | Some a \<Rightarrow> view a)"

definition has_health_state :: "'u upstream \<Rightarrow> bool" where
  "has_health_state u \<longleftrightarrow> up_health u \<noteq> None"

text \<open>\<open>Upstream::calculate_id_with_index\<close>.\<close>

definition calculate_id_with_index :: "'u uri_api \<Rightarrow> 'k cookie_crypto \<Rightarrow> 'u upstream \<Rightarrow> nat \<Rightarrow> bytes" where
  "calculate_id_with_index U K u index =
     b64_encode K (sha256 K (uri_display U (up_uri u) @ ''&index='' @ show_nat index))"

section \<open>Picking an index\<close>

text \<open>
  The flags are shared with the health checkers and may change while an index is picked.  One pass
  over the upstreams reads each flag once, so a pass is given one view of the flags, and a function
  that makes several passes takes one view for each.
\<close>

definition first_healthy_index :: "health_store \<Rightarrow> 'u upstream list \<Rightarrow> nat option" where
  "first_healthy_index view ups = first_value (filter (\<lambda>i. up_is_healthy view (ups ! i)) [0..<length ups])"

definition healthy_index_count :: "health_store \<Rightarrow> 'u upstream list \<Rightarrow> nat" where
  "healthy_index_count view ups = length (filter (up_is_healthy view) ups)"

definition pick_nth_available_index :: "health_store \<Rightarrow> health_store \<Rightarrow> 'u upstream list \<Rightarrow> nat \<Rightarrow> nat" where
  "pick_nth_available_index view view' ups n =
     (let len = length ups
      in if len = 0 then 0
         else if \<not> list_ex has_health_state ups then n mod len
         else
           let healthy_count = healthy_index_count view ups
           in if healthy_count = len then n mod len
              else if healthy_count = 0 then n mod len
              else
                let target = n mod healthy_count;
                    scan = filter (\<lambda>i. up_is_healthy view' (ups ! i)) [0..<len]
                in if target < length scan then scan ! target else n mod len)"

definition first_available_index :: "health_store \<Rightarrow> 'u upstream list \<Rightarrow> nat" where
  "first_available_index view ups =
     (if ups = [] then 0
      else if \<not> list_ex has_health_state ups then 0
      else case first_healthy_index view ups of Some i \<Rightarrow> i | None \<Rightarrow> 0)"

section \<open>The strategies\<close>

record pointer_to_upstream =
  pt_ptr :: nat
  pt_context :: "lb_context option"

text \<open>
  What a call reads from outside: the views of the flags in the order the passes are made, the
  generator's \<open>random_range(0..n)\<close>, and the clock.
\<close>

record lb_env =
  env_view :: "nat \<Rightarrow> health_store"
  env_random :: "nat \<Rightarrow> nat"
  env_now :: i64

definition fetch_and_advance :: "usize \<Rightarrow> usize \<times> usize" where
  "fetch_and_advance ptr =
     (let prev = ptr; ptr = ptr + 1
      in (prev, if - 2 \<le> prev then 0 else ptr))"

definition rr_get_ptr :: "lb_env \<Rightarrow> 'u upstream list \<Rightarrow> lb_context option \<Rightarrow> usize \<Rightarrow>
    pointer_to_upstream option \<times> usize" where
  "rr_get_ptr E ups req_info ptr =
     (let (c, ptr) = fetch_and_advance ptr
      in (Some \<lparr>pt_ptr = pick_nth_available_index (env_view E 0) (env_view E 1) ups (unat c),
               pt_context = None\<rparr>, ptr))"

definition random_get_ptr :: "lb_env \<Rightarrow> 'u upstream list \<Rightarrow> lb_context option \<Rightarrow> unit \<Rightarrow>
    pointer_to_upstream option \<times> unit" where
  "random_get_ptr E ups req_info s =
     (let len = length ups
      in if len = 0 then (Some \<lparr>pt_ptr = 0, pt_context = None\<rparr>, s)
         else
           let ptr =
             (if \<not> list_ex has_health_state ups then env_random E len
              else
                let healthy_count = healthy_index_count (env_view E 0) ups
                in if healthy_count = len \<or> healthy_count = 0 then env_random E len
                   else pick_nth_available_index (env_view E 1) (env_view E 2) ups (env_random E healthy_count))
           in (Some \<lparr>pt_ptr = ptr, pt_context = None\<rparr>, s))"

definition primary_backup_get_ptr :: "lb_env \<Rightarrow> 'u upstream list \<Rightarrow> lb_context option \<Rightarrow> unit \<Rightarrow>
    pointer_to_upstream option \<times> unit" where
  "primary_backup_get_ptr E ups req_info s =
     (Some \<lparr>pt_ptr = first_available_index (env_view E 0) ups, pt_context = None\<rparr>, s)"

text \<open>The sticky strategy: the two maps between indices and server ids, and the round-robin pointer.\<close>

record lb_sticky =
  st_ptr :: usize
  st_config :: sticky_config
  st_index_map :: "bytes list"
  st_id_map :: "bytes \<rightharpoonup> nat"

definition upstream_maps :: "'u uri_api \<Rightarrow> 'k cookie_crypto \<Rightarrow> 'u upstream list \<Rightarrow> bytes list \<times> (bytes \<rightharpoonup> nat)" where
  "upstream_maps U K ups =
     (let index_map = map (\<lambda>(i, v). calculate_id_with_index U K v i) (enumerate 0 ups)
      in (index_map, foldl (\<lambda>m (i, v). m(v \<mapsto> i)) Map.empty (enumerate 0 index_map)))"

definition lb_sticky_build :: "'u uri_api \<Rightarrow> 'k cookie_crypto \<Rightarrow> sticky_config \<Rightarrow> 'u upstream list \<Rightarrow> lb_sticky" where
  "lb_sticky_build U K cfg ups =
     (let (index_map, id_map) = upstream_maps U K ups
      in \<lparr>st_ptr = 0, st_config = cfg, st_index_map = index_map, st_id_map = id_map\<rparr>)"

definition rr_next_index :: "health_store \<Rightarrow> health_store \<Rightarrow> 'u upstream list \<Rightarrow> lb_sticky \<Rightarrow> nat \<times> lb_sticky" where
  "rr_next_index view view' ups s =
     (let (c, ptr) = fetch_and_advance (st_ptr s)
      in (pick_nth_available_index view view' ups (unat c), s\<lparr>st_ptr := ptr\<rparr>))"

text \<open>\<open>build_ptr_with_new_cookie\<close>; its \<open>unwrap\<close> of a missing id is the panic \<open>None\<close>.\<close>

definition build_ptr_with_new_cookie :: "i64 \<Rightarrow> lb_sticky \<Rightarrow> nat \<Rightarrow> pointer_to_upstream option" where
  "build_ptr_with_new_cookie now s ptr =
     (if ptr < length (st_index_map s)
      then Some \<lparr>pt_ptr = ptr,
                 pt_context = Some \<lparr>lbc_sticky_cookie =
                   build_sticky_cookie (st_config s) now (st_index_map s ! ptr)\<rparr>\<rparr>
      else None)"

definition sticky_get_ptr :: "lb_env \<Rightarrow> 'u upstream list \<Rightarrow> lb_context option \<Rightarrow> lb_sticky \<Rightarrow>
    pointer_to_upstream option \<times> lb_sticky" where
  "sticky_get_ptr E ups req_info s =
     (let fallback = (let (ptr, s') = rr_next_index (env_view E 1) (env_view E 2) ups s
                      in (build_ptr_with_new_cookie (env_now E) s' ptr, s'))
      in case req_info of
           None \<Rightarrow> fallback
         | Some context \<Rightarrow>
             (case st_id_map s (scv_value (sc_value (lbc_sticky_cookie context))) of
                Some index \<Rightarrow>
                  if index < length ups \<and> up_is_healthy (env_view E 0) (ups ! index)
                  then (Some \<lparr>pt_ptr = index, pt_context = None\<rparr>, s)
                  else fallback
              | None \<Rightarrow> fallback))"

datatype load_balance =
    FixToFirst
  | Random
  | RoundRobin usize
  | StickyRoundRobin lb_sticky
  | PrimaryBackup

definition get_context :: "lb_env \<Rightarrow> lb_context option \<Rightarrow> 'u upstream list \<Rightarrow> load_balance \<Rightarrow>
    pointer_to_upstream option \<times> load_balance" where
  "get_context E context_to_lb ups lb =
     (case lb of
        FixToFirst \<Rightarrow> (Some \<lparr>pt_ptr = first_available_index (env_view E 0) ups, pt_context = None\<rparr>, FixToFirst)
      | RoundRobin ptr \<Rightarrow> (let (r, ptr) = rr_get_ptr E ups None ptr in (r, RoundRobin ptr))
      | Random \<Rightarrow> (let (r, _) = random_get_ptr E ups None () in (r, Random))
      | StickyRoundRobin s \<Rightarrow> (let (r, s) = sticky_get_ptr E ups context_to_lb s in (r, StickyRoundRobin s))
      | PrimaryBackup \<Rightarrow> (let (r, _) = primary_backup_get_ptr E ups None () in (r, PrimaryBackup)))"

section \<open>Selection lemmas\<close>

text \<open>The upstreams a view leaves to choose from: the healthy ones, or all when none is.\<close>

definition healthy_indices :: "health_store \<Rightarrow> 'u upstream list \<Rightarrow> nat list" where
  "healthy_indices view ups = filter (\<lambda>i. up_is_healthy view (ups ! i)) [0..<length ups]"

definition any_healthy :: "health_store \<Rightarrow> 'u upstream list \<Rightarrow> bool" where
  "any_healthy view ups \<longleftrightarrow> list_ex (up_is_healthy view) ups"

definition eligible :: "health_store \<Rightarrow> 'u upstream list \<Rightarrow> nat list" where
  "eligible view ups = (if healthy_indices view ups = [] then [0..<length ups] else healthy_indices view ups)"

lemma healthy_index_count_alt: "healthy_index_count view ups = length (healthy_indices view ups)"
proof -
  have "filter (up_is_healthy view) ups = map ((!) ups) (healthy_indices view ups)"
    by (metis (no_types, lifting) filter_map comp_def map_nth healthy_indices_def filter_cong)
  then show ?thesis by (simp add: healthy_index_count_def)
qed

lemma healthy_indices_mem: "i \<in> set (healthy_indices view ups) \<longleftrightarrow> i < length ups \<and> up_is_healthy view (ups ! i)"
  by (auto simp: healthy_indices_def)

lemma distinct_healthy_indices [simp]: "distinct (healthy_indices view ups)"
  by (simp add: healthy_indices_def)

lemma healthy_indices_all:
  "length (healthy_indices view ups) = length ups \<Longrightarrow> healthy_indices view ups = [0..<length ups]"
  unfolding healthy_indices_def
  by (metis diff_zero filter_True length_filter_less length_upt less_irrefl_nat)

lemma no_health_state_healthy: "\<not> list_ex has_health_state ups \<Longrightarrow> healthy_indices view ups = [0..<length ups]"
  by (auto simp: healthy_indices_def list_ex_iff has_health_state_def up_is_healthy_def
      intro!: filter_True split: option.splits)

lemma pick_in_range: "ups \<noteq> [] \<Longrightarrow> pick_nth_available_index view view' ups n < length ups"
proof -
  assume ne: "ups \<noteq> []"
  have "i < length (healthy_indices view' ups) \<Longrightarrow> healthy_indices view' ups ! i < length ups" for i
    using healthy_indices_mem nth_mem by metis
  then show ?thesis
    using ne by (auto simp: pick_nth_available_index_def Let_def healthy_indices_def [symmetric])
qed

text \<open>With flags that do not change during the call, the pick is the reference one.\<close>

lemma pick_eligible:
  assumes "ups \<noteq> []"
  shows "pick_nth_available_index view view ups n = eligible view ups ! (n mod length (eligible view ups))"
proof -
  have hl: "\<not> list_ex has_health_state ups \<Longrightarrow> eligible view ups = [0..<length ups]"
    using no_health_state_healthy [of ups view] by (simp add: eligible_def)
  have al: "length (healthy_indices view ups) = length ups \<Longrightarrow> eligible view ups = [0..<length ups]"
    using healthy_indices_all [of view ups] by (simp add: eligible_def)
  have no: "healthy_indices view ups = [] \<Longrightarrow> eligible view ups = [0..<length ups]"
    by (simp add: eligible_def)
  show ?thesis
    using assms hl al no
    by (auto simp: pick_nth_available_index_def Let_def healthy_indices_def [symmetric]
        healthy_index_count_alt eligible_def)
qed

lemma eligible_ne: "ups \<noteq> [] \<Longrightarrow> eligible view ups \<noteq> []"
  by (auto simp: eligible_def)

lemma eligible_lt: "i \<in> set (eligible view ups) \<Longrightarrow> i < length ups"
  by (auto simp: eligible_def healthy_indices_mem split: if_splits)

lemma hd_eligible: "ups \<noteq> [] \<Longrightarrow> hd (eligible view ups) \<in> set (eligible view ups)"
  by (simp add: eligible_ne)

lemma eligible_healthy:
  "any_healthy view ups \<Longrightarrow> i \<in> set (eligible view ups) \<Longrightarrow> up_is_healthy view (ups ! i)"
proof -
  assume "any_healthy view ups" and i: "i \<in> set (eligible view ups)"
  then obtain j where "j < length ups" "up_is_healthy view (ups ! j)"
    by (metis any_healthy_def list_ex_iff in_set_conv_nth)
  then have "j \<in> set (healthy_indices view ups)" by (simp add: healthy_indices_mem)
  then have "healthy_indices view ups \<noteq> []" by auto
  with i show ?thesis by (simp add: eligible_def healthy_indices_mem)
qed

lemma pick_healthy:
  "ups \<noteq> [] \<Longrightarrow> any_healthy view ups \<Longrightarrow>
   up_is_healthy view (ups ! pick_nth_available_index view view ups n)"
  by (rule eligible_healthy) (simp_all add: pick_eligible eligible_ne)

lemma first_healthy_alt: "first_healthy_index view ups = first_value (healthy_indices view ups)"
  by (simp only: first_healthy_index_def healthy_indices_def)

lemma first_available_alt:
  assumes "ups \<noteq> []"
  shows "first_available_index view ups = hd (eligible view ups)"
proof (cases "list_ex has_health_state ups")
  case False
  then show ?thesis
    using assms no_health_state_healthy [of ups view]
    by (simp add: first_available_index_def eligible_def hd_upt)
next
  case True
  then show ?thesis
    using assms
    by (cases "healthy_indices view ups")
      (simp_all add: first_available_index_def first_healthy_alt eligible_def hd_upt)
qed

lemma hd_eligible_least:
  assumes "i < length ups" and "up_is_healthy view (ups ! i)"
  shows "hd (eligible view ups) \<le> i"
proof -
  have i: "i \<in> set (healthy_indices view ups)" using assms by (simp add: healthy_indices_mem)
  moreover have "sorted (healthy_indices view ups)" by (simp add: healthy_indices_def sorted_wrt_filter)
  ultimately have "hd (healthy_indices view ups) \<le> i" by (cases "healthy_indices view ups") auto
  then show ?thesis using i by (auto simp: eligible_def)
qed

section \<open>The contract of a strategy\<close>

definition env_ok :: "lb_env \<Rightarrow> bool" where
  "env_ok E \<longleftrightarrow> (\<forall>n > 0. env_random E n < n)"

text \<open>The flags do not change during the call.\<close>

definition env_stable :: "health_store \<Rightarrow> lb_env \<Rightarrow> bool" where
  "env_stable view E \<longleftrightarrow> (\<forall>k. env_view E k = view)"

text \<open>Serving a sequence of requests, each with its own environment and sticky context.\<close>

fun lb_run :: "(lb_env \<Rightarrow> 'u upstream list \<Rightarrow> lb_context option \<Rightarrow> 's \<Rightarrow> pointer_to_upstream option \<times> 's) \<Rightarrow>
    'u upstream list \<Rightarrow> (lb_env \<times> lb_context option) list \<Rightarrow> 's \<Rightarrow> pointer_to_upstream option list" where
  "lb_run get_ptr ups [] s = []"
| "lb_run get_ptr ups ((E, c) # rs) s = (let (p, s') = get_ptr E ups c s in p # lb_run get_ptr ups rs s')"

text \<open>
  What the handler relies on: whatever the flags do, a call on a group of upstreams gives an index
  of the group (the sticky strategy never panics), and with stable flags the upstream it gives is
  healthy when any is.
\<close>

locale load_balance_with_pointer =
  fixes get_ptr :: "lb_env \<Rightarrow> 'u upstream list \<Rightarrow> lb_context option \<Rightarrow> 's \<Rightarrow> pointer_to_upstream option \<times> 's"
    and wf :: "'u upstream list \<Rightarrow> 's \<Rightarrow> bool"
  assumes get_ptr_in_range:
      "wf ups s \<Longrightarrow> ups \<noteq> [] \<Longrightarrow> env_ok E \<Longrightarrow>
       \<exists>p. fst (get_ptr E ups c s) = Some p \<and> pt_ptr p < length ups"
    and get_ptr_wf: "wf ups s \<Longrightarrow> ups \<noteq> [] \<Longrightarrow> env_ok E \<Longrightarrow> wf ups (snd (get_ptr E ups c s))"
    and get_ptr_healthy:
      "wf ups s \<Longrightarrow> ups \<noteq> [] \<Longrightarrow> env_ok E \<Longrightarrow> env_stable view E \<Longrightarrow>
       any_healthy view ups \<Longrightarrow> fst (get_ptr E ups c s) = Some p \<Longrightarrow>
       up_is_healthy view (ups ! pt_ptr p)"
begin

definition served :: "'u upstream list \<Rightarrow> lb_env \<Rightarrow> pointer_to_upstream option \<Rightarrow> bool" where
  "served ups E r \<longleftrightarrow>
     (\<exists>p. r = Some p \<and> pt_ptr p < length ups \<and>
        (\<forall>view. env_stable view E \<longrightarrow> any_healthy view ups \<longrightarrow> up_is_healthy view (ups ! pt_ptr p)))"

lemma run_served:
  assumes "wf ups s" and "ups \<noteq> []" and "\<forall>(E, c) \<in> set rs. env_ok E"
  shows "list_all2 (\<lambda>(E, c) r. served ups E r) rs (lb_run get_ptr ups rs s)"
  using assms
proof (induction rs arbitrary: s)
  case (Cons Ec rs)
  obtain E c where Ec: "Ec = (E, c)" by (cases Ec)
  have ok: "env_ok E" using Cons.prems Ec by simp
  obtain p s' where g: "get_ptr E ups c s = (Some p, s')" and p: "pt_ptr p < length ups"
    using get_ptr_in_range [OF Cons.prems(1,2) ok, of c] by (metis prod.collapse)
  have s': "wf ups s'" using get_ptr_wf [OF Cons.prems(1,2) ok, of c] g by simp
  have "served ups E (Some p)"
    using p get_ptr_healthy [OF Cons.prems(1,2) ok, of _ c p] g by (simp add: served_def)
  moreover have "list_all2 (\<lambda>(E, c) r. served ups E r) rs (lb_run get_ptr ups rs s')"
    by (rule Cons.IH) (use s' Cons.prems in auto)
  ultimately show ?case using g Ec by simp
qed simp

end

interpretation lb_rr: load_balance_with_pointer rr_get_ptr "\<lambda>_ _. True"
  by unfold_locales
    (auto simp: rr_get_ptr_def env_stable_def pick_in_range pick_healthy split: prod.splits)

interpretation lb_pb: load_balance_with_pointer primary_backup_get_ptr "\<lambda>_ _. True"
  by unfold_locales
    (auto simp: primary_backup_get_ptr_def first_available_alt env_stable_def
      intro!: eligible_healthy hd_eligible eligible_lt)

lemma healthy_count_pos: "any_healthy view ups \<longleftrightarrow> 0 < healthy_index_count view ups"
  by (induction ups) (auto simp: any_healthy_def healthy_index_count_def)

lemma all_healthy:
  "healthy_index_count view ups = length ups \<Longrightarrow> i < length ups \<Longrightarrow> up_is_healthy view (ups ! i)"
  unfolding healthy_index_count_def by (metis filter_True length_filter_less less_irrefl_nat nth_mem)

lemma no_health_state_up: "\<not> list_ex has_health_state ups \<Longrightarrow> i < length ups \<Longrightarrow> up_is_healthy view (ups ! i)"
  using nth_mem [of i ups] by (auto simp: list_ex_iff has_health_state_def up_is_healthy_def split: option.splits)

interpretation lb_random: load_balance_with_pointer random_get_ptr "\<lambda>_ _. True"
  by unfold_locales
    (auto simp: random_get_ptr_def env_stable_def env_ok_def pick_in_range pick_healthy all_healthy
      no_health_state_up healthy_count_pos Let_def)

text \<open>The sticky maps: the ids of the upstreams in order, and the inverse of that list.\<close>

definition sticky_wf :: "'u upstream list \<Rightarrow> lb_sticky \<Rightarrow> bool" where
  "sticky_wf ups s \<longleftrightarrow>
     length (st_index_map s) = length ups \<and>
     (\<forall>v i. st_id_map s v = Some i \<longrightarrow> i < length ups \<and> st_index_map s ! i = v) \<and>
     (\<forall>v. v \<in> set (st_index_map s) \<longrightarrow> st_id_map s v \<noteq> None)"

lemma foldl_id_map_Some:
  "foldl (\<lambda>m (i, v). m(v \<mapsto> i)) m0 (enumerate k vs) v = Some i \<Longrightarrow>
   m0 v = Some i \<or> (k \<le> i \<and> i < k + length vs \<and> vs ! (i - k) = v)"
proof (induction vs arbitrary: k m0)
  case (Cons x vs)
  then have "(m0(x \<mapsto> k)) v = Some i \<or> (Suc k \<le> i \<and> i < Suc k + length vs \<and> vs ! (i - Suc k) = v)"
    using Cons.IH [of "m0(x \<mapsto> k)" "Suc k"] by simp
  then show ?case by (auto simp: nth_Cons' split: if_splits)
qed simp

lemma foldl_id_map_None:
  "foldl (\<lambda>m (i, v). m(v \<mapsto> i)) m0 (enumerate k vs) v = None \<longleftrightarrow> m0 v = None \<and> v \<notin> set vs"
  by (induction vs arbitrary: k m0) auto

lemma length_upstream_maps [simp]: "length (fst (upstream_maps U K ups)) = length ups"
  by (simp add: upstream_maps_def Let_def)

lemma sticky_build_wf: "sticky_wf ups (lb_sticky_build U K cfg ups)"
  using foldl_id_map_Some [of Map.empty 0]
  by (auto simp: sticky_wf_def lb_sticky_build_def upstream_maps_def Let_def foldl_id_map_None
      split: prod.splits) fastforce+

lemma rr_next_index_simps:
  "fst (rr_next_index view view' ups s) =
     pick_nth_available_index view view' ups (unat (fst (fetch_and_advance (st_ptr s))))"
  "snd (rr_next_index view view' ups s) = s\<lparr>st_ptr := snd (fetch_and_advance (st_ptr s))\<rparr>"
  by (simp_all add: rr_next_index_def split: prod.splits)

lemma sticky_wf_ptr [simp]: "sticky_wf ups (s\<lparr>st_ptr := p\<rparr>) = sticky_wf ups s"
  by (simp add: sticky_wf_def)

text \<open>The two ways a sticky call goes.\<close>

lemma sticky_get_ptr_cases:
  fixes E ups s
  defines "i \<equiv> pick_nth_available_index (env_view E 1) (env_view E 2) ups (unat (fst (fetch_and_advance (st_ptr s))))"
    and "s' \<equiv> s\<lparr>st_ptr := snd (fetch_and_advance (st_ptr s))\<rparr>"
  shows
   "(\<exists>ctx j. c = Some ctx \<and> st_id_map s (scv_value (sc_value (lbc_sticky_cookie ctx))) = Some j \<and> j < length ups \<and>
       up_is_healthy (env_view E 0) (ups ! j) \<and>
       sticky_get_ptr E ups c s = (Some \<lparr>pt_ptr = j, pt_context = None\<rparr>, s)) \<or>
    (\<forall>ctx j. c = Some ctx \<and> st_id_map s (scv_value (sc_value (lbc_sticky_cookie ctx))) = Some j \<longrightarrow>
       \<not> (j < length ups \<and> up_is_healthy (env_view E 0) (ups ! j))) \<and>
    sticky_get_ptr E ups c s = (build_ptr_with_new_cookie (env_now E) s' i, s')"
  by (auto simp: sticky_get_ptr_def i_def s'_def rr_next_index_def Let_def split: option.splits prod.splits)

lemma sticky_get_ptr_wf_cases:
  assumes "sticky_wf ups s" and "ups \<noteq> []"
  obtains j where "sticky_get_ptr E ups c s = (Some \<lparr>pt_ptr = j, pt_context = None\<rparr>, s)" "j < length ups"
      "up_is_healthy (env_view E 0) (ups ! j)"
  | i s' where "i = pick_nth_available_index (env_view E 1) (env_view E 2) ups (unat (fst (fetch_and_advance (st_ptr s))))"
      "s' = s\<lparr>st_ptr := snd (fetch_and_advance (st_ptr s))\<rparr>" "i < length ups"
      "sticky_get_ptr E ups c s = (Some \<lparr>pt_ptr = i, pt_context = Some \<lparr>lbc_sticky_cookie =
         build_sticky_cookie (st_config s) (env_now E) (st_index_map s ! i)\<rparr>\<rparr>, s')"
  using sticky_get_ptr_cases [of c s ups E] assms pick_in_range [OF assms(2)]
  by (auto simp: build_ptr_with_new_cookie_def sticky_wf_def)

interpretation lb_sticky: load_balance_with_pointer sticky_get_ptr sticky_wf
proof unfold_locales
  fix ups :: "'u upstream list" and s E c
  assume "sticky_wf ups s" "ups \<noteq> []"
  then show "\<exists>p. fst (sticky_get_ptr E ups c s) = Some p \<and> pt_ptr p < length ups"
    "sticky_wf ups (snd (sticky_get_ptr E ups c s))"
    by (rule sticky_get_ptr_wf_cases [of ups s E c]; simp)+
next
  fix ups :: "'u upstream list" and s E c view p
  assume wf: "sticky_wf ups s" "ups \<noteq> []" and h: "env_stable view E" "any_healthy view ups"
    and r: "fst (sticky_get_ptr E ups c s) = Some p"
  show "up_is_healthy view (ups ! pt_ptr p)"
    by (rule sticky_get_ptr_wf_cases [OF wf, of E c])
      (use h r pick_healthy [OF wf(2) h(2)] in \<open>auto simp: env_stable_def\<close>)
qed

section \<open>Every strategy behind \<open>get_context\<close>\<close>

definition lb_wf :: "'u upstream list \<Rightarrow> load_balance \<Rightarrow> bool" where
  "lb_wf ups lb = (case lb of StickyRoundRobin s \<Rightarrow> sticky_wf ups s | _ \<Rightarrow> True)"

lemma get_context_fst:
  "fst (get_context E c ups lb) =
     (case lb of
        FixToFirst \<Rightarrow> fst (primary_backup_get_ptr E ups None ())
      | Random \<Rightarrow> fst (random_get_ptr E ups None ())
      | RoundRobin ptr \<Rightarrow> fst (rr_get_ptr E ups None ptr)
      | StickyRoundRobin s \<Rightarrow> fst (sticky_get_ptr E ups c s)
      | PrimaryBackup \<Rightarrow> fst (primary_backup_get_ptr E ups None ()))"
  by (simp add: get_context_def primary_backup_get_ptr_def split: load_balance.splits prod.splits)

lemma get_context_wf: "lb_wf ups lb \<Longrightarrow> ups \<noteq> [] \<Longrightarrow> env_ok E \<Longrightarrow> lb_wf ups (snd (get_context E c ups lb))"
  using lb_sticky.get_ptr_wf [of ups _ E c]
  by (auto simp: get_context_def lb_wf_def split: load_balance.splits prod.splits) (metis snd_conv)

interpretation lb_any: load_balance_with_pointer "\<lambda>E ups c lb. get_context E c ups lb" lb_wf
proof unfold_locales
  fix ups :: "'u upstream list" and lb E c
  assume "lb_wf ups lb" "ups \<noteq> []" "env_ok E"
  then show "\<exists>p. fst (get_context E c ups lb) = Some p \<and> pt_ptr p < length ups"
    using lb_rr.get_ptr_in_range [of ups E] lb_pb.get_ptr_in_range [of ups E] lb_random.get_ptr_in_range [of ups E]
      lb_sticky.get_ptr_in_range [of ups _ E]
    by (simp add: get_context_fst lb_wf_def split: load_balance.splits)
next
  fix ups :: "'u upstream list" and lb E c view p
  assume wf: "lb_wf ups lb" "ups \<noteq> []" "env_ok E" "env_stable view E" "any_healthy view ups"
    and p: "fst (get_context E c ups lb) = Some p"
  note contracts = lb_rr.get_ptr_healthy [OF TrueI wf(2-5)] lb_pb.get_ptr_healthy [OF TrueI wf(2-5)]
    lb_random.get_ptr_healthy [OF TrueI wf(2-5)] lb_sticky.get_ptr_healthy [OF _ wf(2-5)]
  show "up_is_healthy view (ups ! pt_ptr p)"
    using wf(1) p
    by (cases lb) (simp_all add: get_context_fst lb_wf_def contracts)
qed (rule get_context_wf)

text \<open>
  C12: Whatever the health checkers do to the shared flags during and between the calls, a load
  balancer of any strategy serves every sequence of requests without a panic: each call gives an
  index of an existing upstream, and when the flags do not change during that call and some
  upstream is healthy, the upstream it gives is healthy.
\<close>

theorem load_balance_serves:
  assumes "lb_wf ups lb" and "ups \<noteq> []" and "\<forall>(E, c) \<in> set rs. env_ok E"
  shows "list_all2 (\<lambda>(E, c) r. \<exists>p. r = Some p \<and> pt_ptr p < length ups \<and>
           (\<forall>view. env_stable view E \<longrightarrow> any_healthy view ups \<longrightarrow> up_is_healthy view (ups ! pt_ptr p)))
         rs (lb_run (\<lambda>E ups c lb. get_context E c ups lb) ups rs lb)"
  using lb_any.run_served [OF assms] by (simp add: lb_any.served_def)

theorem load_balance_serves_witness:
  "\<exists>p. fst (get_context \<lparr>env_view = (\<lambda>_ a. a = 1), env_random = (\<lambda>n. n - 1), env_now = 0\<rparr> None
          [\<lparr>up_uri = (), up_host_header = None, up_health = Some 0\<rparr>,
           \<lparr>up_uri = (), up_host_header = None, up_health = Some 1\<rparr>] (RoundRobin 0)) = Some p \<and>
       pt_ptr p = 1"
proof -
  let ?E = "\<lparr>env_view = (\<lambda>_ a. a = 1), env_random = (\<lambda>n. n - 1), env_now = 0\<rparr> :: lb_env"
  let ?ups = "[\<lparr>up_uri = (), up_host_header = None, up_health = Some 0\<rparr>,
           \<lparr>up_uri = (), up_host_header = None, up_health = Some 1\<rparr>] :: unit upstream list"
  obtain p where p: "fst (get_context ?E None ?ups (RoundRobin 0)) = Some p" "pt_ptr p < length ?ups"
    and h: "\<forall>view. env_stable view ?E \<longrightarrow> any_healthy view ?ups \<longrightarrow> up_is_healthy view (?ups ! pt_ptr p)"
    using load_balance_serves [of ?ups "RoundRobin 0" "[(?E, None)]"]
    by (auto simp: lb_wf_def env_ok_def split: prod.splits)
  have "up_is_healthy (\<lambda>a. a = 1) (?ups ! pt_ptr p)"
    by (rule h [rule_format]) (simp_all add: env_stable_def any_healthy_def up_is_healthy_def)
  then have "pt_ptr p = 1" using p(2) by (cases "pt_ptr p") (auto simp: up_is_healthy_def)
  then show ?thesis using p(1) by (intro exI conjI)
qed

section \<open>Fairness of round robin\<close>

lemma fetch_and_advance_below:
  "unat ptr < 2 ^ 64 - 2 \<Longrightarrow> fetch_and_advance ptr = (ptr, ptr + 1) \<and> unat (ptr + 1) = Suc (unat ptr)"
proof -
  assume b: "unat ptr < 2 ^ 64 - 2"
  have m: "unat (- 2 :: usize) = 2 ^ 64 - 2" by simp
  then have "\<not> - 2 \<le> ptr" using b by (simp add: word_le_nat_alt)
  moreover have "unat (ptr + 1) = Suc (unat ptr)"
    using b by (subst unat_word_ariths) simp
  ultimately show ?thesis by (simp add: fetch_and_advance_def Let_def)
qed

lemma mset_rotate_list: "mset (rotate n xs) = mset xs"
proof -
  let ?k = "n mod length xs"
  have "mset (rotate n xs) = mset (take ?k xs) + mset (drop ?k xs)" by (simp add: rotate_drop_take)
  also have "\<dots> = mset (take ?k xs @ drop ?k xs)" by (simp only: mset_append)
  also have "\<dots> = mset xs" by (simp only: append_take_drop_id)
  finally show ?thesis .
qed

lemma cyclic_window: "map (\<lambda>j. xs ! ((a + j) mod length xs)) [0..<length xs] = rotate a xs"
  by (rule nth_equalityI) (auto simp: nth_rotate)

lemma cyclic_windows:
  "mset (map (\<lambda>j. xs ! ((a + j) mod length xs)) [0..<m * length xs]) = repeat_mset m (mset xs)"
proof (induction m arbitrary: a)
  case (Suc m)
  let ?f = "\<lambda>a j. xs ! ((a + j) mod length xs)"
  have "[0..<Suc m * length xs] = [0..<length xs] @ map (\<lambda>j. j + length xs) [0..<m * length xs]"
    using upt_add_eq_append [of 0 "length xs" "m * length xs"] map_add_upt [of "length xs" "m * length xs"]
    by (simp add: add.commute)
  then have "map (?f a) [0..<Suc m * length xs] = map (?f a) [0..<length xs] @ map (?f (a + length xs)) [0..<m * length xs]"
    by (simp add: o_def ac_simps)
  then show ?case
    using Suc [of "a + length xs"] by (simp add: cyclic_window mset_rotate_list)
qed simp

lemma rr_run_indices:
  assumes "ups \<noteq> []" and "\<forall>(E, c) \<in> set rs. env_stable view E" and "unat ptr + length rs \<le> 2 ^ 64 - 2"
  shows "map (pt_ptr \<circ> the) (lb_run rr_get_ptr ups rs ptr) =
           map (\<lambda>j. eligible view ups ! ((unat ptr + j) mod length (eligible view ups))) [0..<length rs]"
  using assms(2,3)
proof (induction rs arbitrary: ptr)
  case (Cons Ec rs)
  obtain E c where Ec: "Ec = (E, c)" by (cases Ec)
  have adv: "fetch_and_advance ptr = (ptr, ptr + 1)" "unat (ptr + 1) = Suc (unat ptr)"
    using fetch_and_advance_below [of ptr] Cons.prems by simp_all
  have E: "env_view E k = view" for k using Cons.prems Ec by (simp add: env_stable_def)
  have "map (pt_ptr \<circ> the) (lb_run rr_get_ptr ups rs (ptr + 1)) =
      map (\<lambda>j. eligible view ups ! ((unat (ptr + 1) + j) mod length (eligible view ups))) [0..<length rs]"
    using Cons.prems adv(2) by (intro Cons.IH) simp_all
  moreover have "rr_get_ptr E ups c ptr =
      (Some \<lparr>pt_ptr = eligible view ups ! (unat ptr mod length (eligible view ups)), pt_context = None\<rparr>, ptr + 1)"
    using adv E pick_eligible [OF assms(1)] by (simp add: rr_get_ptr_def)
  ultimately show ?case
    using Ec adv(2) by (simp add: upt_conv_Cons map_Suc_upt [symmetric] o_def del: upt_Suc)
qed simp

text \<open>
  Round robin is fair.  While the flags are stable and the pointer does not reach its reset,
  \<open>m\<close> rounds of as many requests as there are eligible upstreams (the healthy ones, or all when
  none is) give every eligible upstream exactly \<open>m\<close> requests, and no other upstream any.
\<close>

theorem round_robin_fair:
  assumes "ups \<noteq> []" and "\<forall>(E, c) \<in> set rs. env_stable view E"
    and "length rs = m * length (eligible view ups)" and "unat ptr + length rs \<le> 2 ^ 64 - 2"
  shows "mset (map (pt_ptr \<circ> the) (lb_run rr_get_ptr ups rs ptr)) = repeat_mset m (mset (eligible view ups))"
  unfolding rr_run_indices [OF assms(1,2,4)] assms(3) by (rule cyclic_windows)

theorem round_robin_fair_witness:
  "mset (map (pt_ptr \<circ> the) (lb_run rr_get_ptr
      [\<lparr>up_uri = (), up_host_header = None, up_health = Some 0\<rparr>,
       \<lparr>up_uri = (), up_host_header = None, up_health = Some 1\<rparr>]
      [(\<lparr>env_view = (\<lambda>_ _. True), env_random = (\<lambda>n. 0), env_now = 0\<rparr>, None),
       (\<lparr>env_view = (\<lambda>_ _. True), env_random = (\<lambda>n. 0), env_now = 0\<rparr>, None),
       (\<lparr>env_view = (\<lambda>_ _. True), env_random = (\<lambda>n. 0), env_now = 0\<rparr>, None),
       (\<lparr>env_view = (\<lambda>_ _. True), env_random = (\<lambda>n. 0), env_now = 0\<rparr>, None)] 7)) =
   {#0, 1, 0, 1#}"
proof -
  let ?r = "(\<lparr>env_view = (\<lambda>_ _. True), env_random = (\<lambda>n. 0), env_now = 0\<rparr>, None) :: lb_env \<times> lb_context option"
  let ?ups = "[\<lparr>up_uri = (), up_host_header = None, up_health = Some 0\<rparr>,
       \<lparr>up_uri = (), up_host_header = None, up_health = Some 1\<rparr>] :: unit upstream list"
  have e: "eligible (\<lambda>_. True) ?ups = [0, 1]"
    by (simp add: eligible_def healthy_indices_def up_is_healthy_def upt_conv_Cons)
  show ?thesis
    using round_robin_fair [of ?ups "[?r, ?r, ?r, ?r]" "\<lambda>_. True" "Suc (Suc 0)" 7]
    unfolding e by (simp add: env_stable_def)
qed

text \<open>
  The primary/backup strategy (and the fixed one) always gives the healthy upstream of the
  lowest index, and the first upstream when none is healthy.
\<close>

theorem primary_backup_lowest:
  assumes "ups \<noteq> []" and "lb = PrimaryBackup \<or> lb = FixToFirst"
    and "fst (get_context E c ups lb) = Some p"
  shows "(\<not> any_healthy (env_view E 0) ups \<longrightarrow> pt_ptr p = 0) \<and>
         (any_healthy (env_view E 0) ups \<longrightarrow> up_is_healthy (env_view E 0) (ups ! pt_ptr p)) \<and>
         (\<forall>i < pt_ptr p. \<not> up_is_healthy (env_view E 0) (ups ! i)) \<and> pt_ptr p < length ups"
proof -
  let ?v = "env_view E 0"
  have p: "pt_ptr p = hd (eligible ?v ups)"
    using assms by (auto simp: get_context_fst primary_backup_get_ptr_def first_available_alt)
  have lt: "pt_ptr p < length ups" unfolding p using hd_eligible [OF assms(1)] by (rule eligible_lt)
  have none: "\<not> any_healthy ?v ups \<Longrightarrow> healthy_indices ?v ups = []"
    by (simp add: healthy_count_pos healthy_index_count_alt)
  show ?thesis
  proof (intro conjI impI allI)
    show "\<not> any_healthy ?v ups \<Longrightarrow> pt_ptr p = 0"
      using none assms(1) by (simp add: p eligible_def hd_upt)
    show "any_healthy ?v ups \<Longrightarrow> up_is_healthy ?v (ups ! pt_ptr p)"
      unfolding p by (rule eligible_healthy [OF _ hd_eligible [OF assms(1)]])
    show "\<not> up_is_healthy ?v (ups ! i)" if "i < pt_ptr p" for i
      using hd_eligible_least [of i ups ?v] that lt p by auto
    show "pt_ptr p < length ups" by (rule lt)
  qed
qed

theorem primary_backup_lowest_witness:
  "\<exists>p. fst (get_context \<lparr>env_view = (\<lambda>_ a. a = 1), env_random = (\<lambda>n. 0), env_now = 0\<rparr> None
       [\<lparr>up_uri = (), up_host_header = None, up_health = Some 0\<rparr>,
        \<lparr>up_uri = (), up_host_header = None, up_health = Some 1\<rparr>] PrimaryBackup) = Some p \<and> pt_ptr p = 1"
proof -
  let ?E = "\<lparr>env_view = (\<lambda>_ a. a = 1), env_random = (\<lambda>n. 0), env_now = 0\<rparr> :: lb_env"
  let ?ups = "[\<lparr>up_uri = (), up_host_header = None, up_health = Some 0\<rparr>,
        \<lparr>up_uri = (), up_host_header = None, up_health = Some 1\<rparr>] :: unit upstream list"
  obtain p where p: "fst (get_context ?E None ?ups PrimaryBackup) = Some p"
    by (simp add: get_context_def primary_backup_get_ptr_def)
  from primary_backup_lowest [OF _ _ p] have "up_is_healthy (\<lambda>a. a = 1) (?ups ! pt_ptr p)" "pt_ptr p < 2"
    by (simp_all add: any_healthy_def up_is_healthy_def)
  then have "pt_ptr p = 1" by (cases "pt_ptr p") (auto simp: up_is_healthy_def)
  with p show ?thesis by blast
qed

section \<open>Stickiness\<close>

lemma sticky_id_map_distinct:
  assumes "sticky_wf ups s" and "distinct (st_index_map s)" and "i < length ups"
  shows "st_id_map s (st_index_map s ! i) = Some i"
proof -
  have i: "i < length (st_index_map s)" using assms by (simp add: sticky_wf_def)
  then have "st_id_map s (st_index_map s ! i) \<noteq> None"
    using assms(1) nth_mem [OF i] unfolding sticky_wf_def by blast
  then obtain j where j: "st_id_map s (st_index_map s ! i) = Some j" by blast
  then have "j < length (st_index_map s)" "st_index_map s ! j = st_index_map s ! i"
    using assms(1) by (simp_all add: sticky_wf_def)
  with assms(2) i j show ?thesis by (simp add: nth_eq_iff_index_eq)
qed

text \<open>
  C27: Sessions stick.  When the server ids are pairwise distinct, a cookie issued by the sticky
  strategy names the upstream the request was sent to: a later request that presents it goes to
  the same upstream, without a new cookie and without moving the pointer, for as long as that
  upstream is healthy, whatever other requests have been served in between.
\<close>

theorem sticky_returns_to_upstream:
  assumes "sticky_wf ups s" and "distinct (st_index_map s)" and "ups \<noteq> []"
    and "fst (sticky_get_ptr E ups c s) = Some p" and "pt_context p = Some ctx"
    and "up_is_healthy (env_view E' 0) (ups ! pt_ptr p)"
  shows "sticky_get_ptr E' ups (Some ctx) (s\<lparr>st_ptr := q\<rparr>) =
           (Some \<lparr>pt_ptr = pt_ptr p, pt_context = None\<rparr>, s\<lparr>st_ptr := q\<rparr>)"
proof (rule sticky_get_ptr_wf_cases [OF assms(1,3), of E c])
  fix j
  assume "sticky_get_ptr E ups c s = (Some \<lparr>pt_ptr = j, pt_context = None\<rparr>, s)"
  then show ?thesis using assms(4,5) by auto
next
  fix i s'
  assume i: "i < length ups" and "sticky_get_ptr E ups c s = (Some \<lparr>pt_ptr = i, pt_context = Some \<lparr>lbc_sticky_cookie =
         build_sticky_cookie (st_config s) (env_now E) (st_index_map s ! i)\<rparr>\<rparr>, s')"
  then have "pt_ptr p = i" "scv_value (sc_value (lbc_sticky_cookie ctx)) = st_index_map s ! i"
    using assms(4,5) by (auto simp: build_sticky_cookie_def)
  then show ?thesis
    using i assms(6) sticky_id_map_distinct [OF assms(1,2) i] by (simp add: sticky_get_ptr_def Let_def)
qed

lemma sticky_new_client:
  assumes "sticky_wf ups s" and "ups \<noteq> []"
  obtains p ctx where "fst (sticky_get_ptr E ups None s) = Some p" and "pt_context p = Some ctx"
  using sticky_get_ptr_cases [of None s ups E] assms pick_in_range [OF assms(2)]
  by (auto simp: build_ptr_with_new_cookie_def sticky_wf_def)

definition sample_upstreams :: "bytes upstream list" where
  "sample_upstreams =
     [\<lparr>up_uri = ''http://a'', up_host_header = None, up_health = Some 0\<rparr>,
      \<lparr>up_uri = ''http://b'', up_host_header = None, up_health = Some 1\<rparr>]"

definition sample_sticky_config :: sticky_config where
  "sample_sticky_config =
     \<lparr>scfg_name = ''t'', scfg_name_prefix = ''t='', scfg_domain = ''d'', scfg_path = ''/'',
      scfg_duration = 300, scfg_aad = ''aad''\<rparr>"

lemma sample_ids:
  "st_index_map (lb_sticky_build sample_uri_api sample_crypto sample_sticky_config sample_upstreams) =
     map b64_enc [''http://a&index=0'', ''http://b&index=1'']"
proof -
  have "char_of (48 :: nat) = CHR ''0''" "char_of (49 :: nat) = CHR ''1''"
    using char_of_char [of "CHR ''0''", where 'a = nat] char_of_char [of "CHR ''1''", where 'a = nat] by simp_all
  then have "show_nat 0 = ''0''" "show_nat 1 = ''1''"
    by (simp_all add: show_nat_def show_radix.simps digit_char_def)
  then show ?thesis
    by (simp add: lb_sticky_build_def upstream_maps_def sample_upstreams_def calculate_id_with_index_def
        sample_uri_api_def sample_crypto_def del: b64_enc.simps)
qed

lemma b64_enc_inject: "b64_enc a = b64_enc b \<longleftrightarrow> a = b"
proof
  assume "b64_enc a = b64_enc b"
  then have "b64_dec (b64_enc a) = b64_dec (b64_enc b)" by (simp only:)
  then show "a = b" by (simp only: b64_roundtrip option.inject)
qed simp

theorem sticky_returns_to_upstream_witness:
  "\<exists>p ctx. fst (sticky_get_ptr \<lparr>env_view = (\<lambda>_ _. True), env_random = (\<lambda>n. 0), env_now = 0\<rparr> sample_upstreams None
        (lb_sticky_build sample_uri_api sample_crypto sample_sticky_config sample_upstreams)) = Some p \<and>
     pt_context p = Some ctx \<and>
     fst (sticky_get_ptr \<lparr>env_view = (\<lambda>_ _. True), env_random = (\<lambda>n. 0), env_now = 9\<rparr> sample_upstreams (Some ctx)
        (lb_sticky_build sample_uri_api sample_crypto sample_sticky_config sample_upstreams\<lparr>st_ptr := 5\<rparr>)) =
       Some \<lparr>pt_ptr = pt_ptr p, pt_context = None\<rparr>"
proof -
  let ?s = "lb_sticky_build sample_uri_api sample_crypto sample_sticky_config sample_upstreams"
  let ?E = "\<lparr>env_view = (\<lambda>_ _. True), env_random = (\<lambda>n. 0), env_now = 0\<rparr> :: lb_env"
  let ?E' = "\<lparr>env_view = (\<lambda>_ _. True), env_random = (\<lambda>n. 0), env_now = 9\<rparr> :: lb_env"
  have wf: "sticky_wf sample_upstreams ?s" by (rule sticky_build_wf)
  have d: "distinct (st_index_map ?s)" unfolding sample_ids by (simp add: b64_enc_inject del: b64_enc.simps)
  have ne: "sample_upstreams \<noteq> []" by (simp add: sample_upstreams_def)
  obtain p ctx where p: "fst (sticky_get_ptr ?E sample_upstreams None ?s) = Some p" "pt_context p = Some ctx"
    by (rule sticky_new_client [OF wf ne, of ?E])
  have "up_is_healthy (env_view ?E' 0) (sample_upstreams ! pt_ptr p)"
    by (simp add: up_is_healthy_def split: option.splits)
  from sticky_returns_to_upstream [OF wf d ne p this, of 5]
  have "fst (sticky_get_ptr ?E' sample_upstreams (Some ctx) (?s\<lparr>st_ptr := 5\<rparr>)) =
      Some \<lparr>pt_ptr = pt_ptr p, pt_context = None\<rparr>" by (simp only: fst_conv)
  with p show ?thesis by blast
qed

end
