(* ===== verification/Backend.thy ===== *)
theory Backend
  imports Load_Balance
begin

text \<open>
  The backend: upstream options (\<open>backend/upstream_opts.rs\<close>), the upstream groups and the path
  routing (\<open>backend/upstream.rs\<close>), the applications and their manager
  (\<open>backend/backend_main.rs\<close>), with the configuration records of \<open>globals.rs\<close> they are built
  from, and the start of the health checkers (\<open>spawn_health_checkers\<close> of
  \<open>backend/health_check/checker.rs\<close>).  A \<open>HashMap\<close> is an association list in its (unspecified)
  iteration order; what the code computes from one is proved not to depend on that order.
\<close>

section \<open>Configuration\<close>

datatype upstream_option =
    KeepOriginalHost
  | SetUpstreamHost
  | UpgradeInsecureRequests
  | ForceHttp11Upstream
  | ForceHttp2Upstream
  | ForwardedHeader

definition upstream_option_try_from :: "bytes \<Rightarrow> rpxy_error + upstream_option" where
  "upstream_option_try_from val =
     (if val = ''keep_original_host'' then Inr KeepOriginalHost
      else if val = ''set_upstream_host'' then Inr SetUpstreamHost
      else if val = ''upgrade_insecure_requests'' then Inr UpgradeInsecureRequests
      else if val = ''force_http11_upstream'' then Inr ForceHttp11Upstream
      else if val = ''force_http2_upstream'' then Inr ForceHttp2Upstream
      else if val = ''forwarded_header'' then Inr ForwardedHeader
      else Inl UnsupportedUpstreamOption)"

record 'u reverse_proxy_config =
  rp_path :: "bytes option"
  rp_replace_path :: "bytes option"
  rp_upstream :: "'u list"
  rp_upstream_options :: "bytes list option"
  rp_load_balance :: "bytes option"
  rp_health_check :: "health_check_config option"

record tls_config =
  tls_mutual_tls :: bool
  tls_https_redirection :: bool
  tls_acme :: bool

record 'u app_config =
  ac_app_name :: bytes
  ac_server_name :: bytes
  ac_reverse_proxy :: "'u reverse_proxy_config list"
  ac_tls :: "tls_config option"

record 'u app_config_list =
  acl_inner :: "'u app_config list"
  acl_default_app :: "bytes option"

section \<open>Upstream groups\<close>

record 'u candidates =
  uc_inner :: "'u upstream list"
  uc_path :: path_name
  uc_replace_path :: "path_name option"
  uc_load_balance :: load_balance
  uc_options :: "upstream_option list"
  uc_health_check :: "health_check_config option"

definition STICKY_COOKIE_NAME :: bytes where "STICKY_COOKIE_NAME = ''rpxy_sticky_token''"
definition STICKY_COOKIE_DURATION_SECS :: i64 where "STICKY_COOKIE_DURATION_SECS = 300"

text \<open>\<open>UpstreamCandidatesBuilder::load_balance\<close>.\<close>

definition build_load_balance :: "'u uri_api \<Rightarrow> 'k cookie_crypto \<Rightarrow> bytes option \<Rightarrow> 'u upstream list \<Rightarrow> bytes \<Rightarrow>
    bytes option \<Rightarrow> rpxy_error + load_balance" where
  "build_load_balance U K v ups server_name path_opt =
     (case v of
        None \<Rightarrow> Inr FixToFirst
      | Some x \<Rightarrow>
          if x = ''none'' then Inr FixToFirst
          else if x = ''random'' then Inr Random
          else if x = ''round_robin'' then Inr (RoundRobin 0)
          else if x = ''sticky'' then
            rbind (sticky_config_try_new STICKY_COOKIE_NAME server_name path_opt STICKY_COOKIE_DURATION_SECS)
              (\<lambda>sticky_config. Inr (StickyRoundRobin (lb_sticky_build U K sticky_config ups)))
          else if x = ''primary_backup'' then Inr PrimaryBackup
          else Inr FixToFirst)"

text \<open>\<open>UpstreamCandidatesBuilder::options\<close>: unknown options are dropped.\<close>

definition build_options :: "bytes list option \<Rightarrow> upstream_option list" where
  "build_options v =
     (case v of
        None \<Rightarrow> []
      | Some opts \<Rightarrow> remdups (List.map_filter (\<lambda>s. case upstream_option_try_from s of Inr opt \<Rightarrow> Some opt | Inl _ \<Rightarrow> None) opts))"

text \<open>
  The upstreams of a group: each gets a flag of its own when the group has a health check.  The
  flags are allocated at consecutive fresh addresses.
\<close>

definition build_upstreams :: "'h header_api \<Rightarrow> 'u uri_api \<Rightarrow> nat \<Rightarrow> 'u reverse_proxy_config \<Rightarrow> 'u upstream list \<times> nat" where
  "build_upstreams H U next_addr rpc =
     (case rp_health_check rpc of
        None \<Rightarrow> (map (upstream_from H U) (rp_upstream rpc), next_addr)
      | Some _ \<Rightarrow>
          (map (\<lambda>(a, uri). (upstream_from H U uri)\<lparr>up_health := Some a\<rparr>) (enumerate next_addr (rp_upstream rpc)),
           next_addr + length (rp_upstream rpc)))"

definition build_candidates :: "'h header_api \<Rightarrow> 'u uri_api \<Rightarrow> 'k cookie_crypto \<Rightarrow> bytes \<Rightarrow> nat \<Rightarrow>
    'u reverse_proxy_config \<Rightarrow> rpxy_error + 'u candidates \<times> nat" where
  "build_candidates H U K server_name next_addr rpc =
     (let (ups, next_addr) = build_upstreams H U next_addr rpc
      in rbind (build_load_balance U K (rp_load_balance rpc) ups server_name (rp_path rpc)) (\<lambda>lb.
         Inr (\<lparr>uc_inner = ups,
               uc_path = (case rp_path rpc of Some p \<Rightarrow> to_path_name p | None \<Rightarrow> to_path_name ''/''),
               uc_replace_path = map_option to_path_name (rp_replace_path rpc),
               uc_load_balance = lb,
               uc_options = build_options (rp_upstream_options rpc),
               uc_health_check = rp_health_check rpc\<rparr>, next_addr)))"

section \<open>Path routing\<close>

type_synonym 'u path_manager = "(path_name \<times> 'u candidates) list"

fun build_paths :: "'h header_api \<Rightarrow> 'u uri_api \<Rightarrow> 'k cookie_crypto \<Rightarrow> bytes \<Rightarrow> nat \<Rightarrow>
    'u reverse_proxy_config list \<Rightarrow> 'u path_manager \<Rightarrow> rpxy_error + 'u path_manager \<times> nat" where
  "build_paths H U K server_name next_addr [] inner = Inr (inner, next_addr)"
| "build_paths H U K server_name next_addr (rpc # rpcs) inner =
     rbind (build_candidates H U K server_name next_addr rpc) (\<lambda>(elem, next_addr).
       build_paths H U K server_name next_addr rpcs (AList.update (uc_path elem) elem inner))"

text \<open>\<open>PathManager::try_from(&AppConfig)\<close>.\<close>

definition path_manager_try_from :: "'h header_api \<Rightarrow> 'u uri_api \<Rightarrow> 'k cookie_crypto \<Rightarrow> nat \<Rightarrow> 'u app_config \<Rightarrow>
    rpxy_error + 'u path_manager \<times> nat" where
  "path_manager_try_from H U K next_addr ac =
     rbind (build_paths H U K (ac_server_name ac) next_addr (ac_reverse_proxy ac) []) (\<lambda>(inner, next_addr).
       if 2 \<le> length (filter (\<lambda>rpc. rp_path rpc = None) (ac_reverse_proxy ac)) then Inl InvalidReverseProxyConfig
       else if \<not> list_all (\<lambda>(_, elem). \<not> (ForceHttp11Upstream \<in> set (uc_options elem) \<and>
                                           ForceHttp2Upstream \<in> set (uc_options elem))) inner
       then Inl InvalidUpstreamOptionSetting
       else Inr (inner, next_addr))"

text \<open>\<open>PathManager::get\<close>; \<open>max_by_key\<close> returns the last of the maximal elements.\<close>

definition route_matches :: "bytes \<Rightarrow> bytes \<Rightarrow> bool" where
  "route_matches path route \<longleftrightarrow>
     starts_with path route \<and>
     (length route = 1 \<or> (if length route < length path then path ! length route = CHR ''/'' else True))"

fun max_by_key :: "('a \<Rightarrow> nat) \<Rightarrow> 'a list \<Rightarrow> 'a option" where
  "max_by_key key [] = None"
| "max_by_key key (x # xs) =
     (case max_by_key key xs of None \<Rightarrow> Some x | Some y \<Rightarrow> if key x \<le> key y then Some y else Some x)"

definition path_manager_get :: "'u path_manager \<Rightarrow> bytes \<Rightarrow> 'u candidates option" where
  "path_manager_get pm path_bytes =
     map_option snd (max_by_key (\<lambda>(route, _). pn_len route)
       (filter (\<lambda>(route, _). route_matches path_bytes (pn_inner route)) pm))"

text \<open>\<open>UpstreamCandidates::get\<close>: the upstream and the new context; the state is the updated group.\<close>

definition candidates_get :: "lb_env \<Rightarrow> lb_context option \<Rightarrow> 'u candidates \<Rightarrow>
    ('u upstream option \<times> lb_context option) option \<times> 'u candidates" where
  "candidates_get E context_to_lb uc =
     (let (p, lb) = get_context E context_to_lb (uc_inner uc) (uc_load_balance uc)
      in (map_option (\<lambda>p. (if pt_ptr p < length (uc_inner uc) then Some (uc_inner uc ! pt_ptr p) else None,
                           pt_context p)) p,
          uc\<lparr>uc_load_balance := lb\<rparr>))"

section \<open>Routing is longest-prefix matching\<close>

text \<open>What a route covers: itself, everything below it, and for a one-byte route every continuation.\<close>

definition covers :: "bytes \<Rightarrow> bytes \<Rightarrow> bool" where
  "covers route path \<longleftrightarrow>
     path = route \<or> (\<exists>rest. path = route @ ''/'' @ rest) \<or> (length route = 1 \<and> (\<exists>rest. path = route @ rest))"

lemma route_matches_covers: "route_matches path route \<longleftrightarrow> covers route path"
proof
  assume m: "route_matches path route"
  then obtain rest where p: "path = route @ rest"
    by (auto simp: route_matches_def starts_with_def prefix_def)
  with m show "covers route path" by (cases rest) (auto simp: route_matches_def covers_def)
next
  assume "covers route path"
  then show "route_matches path route" by (auto simp: covers_def route_matches_def starts_with_def)
qed

lemma max_by_key_None [simp]: "max_by_key key xs = None \<longleftrightarrow> xs = []"
  by (cases xs) (auto split: option.splits)

lemma max_by_key_Some:
  "max_by_key key xs = Some x \<Longrightarrow> x \<in> set xs \<and> (\<forall>y \<in> set xs. key y \<le> key x)"
proof (induction xs arbitrary: x)
  case (Cons a xs)
  then show ?case by (cases "max_by_key key xs") (fastforce split: if_splits)+
qed simp

lemma covering_routes_same_length:
  "covers r path \<Longrightarrow> covers r' path \<Longrightarrow> length r = length r' \<Longrightarrow> r = r'"
  by (auto simp: covers_def)

lemma path_manager_get_Some:
  assumes "path_manager_get pm path = Some u"
  obtains r where "(r, u) \<in> set pm" and "covers (pn_inner r) path"
    and "\<And>r' u'. (r', u') \<in> set pm \<Longrightarrow> covers (pn_inner r') path \<Longrightarrow> r' = r \<or> pn_len r' < pn_len r"
proof -
  obtain r where m: "max_by_key (\<lambda>(route, _). pn_len route)
      (filter (\<lambda>(route, _). route_matches path (pn_inner route)) pm) = Some (r, u)"
    using assms by (auto simp: path_manager_get_def)
  note mm = max_by_key_Some [OF m]
  have r: "(r, u) \<in> set pm" "covers (pn_inner r) path" using mm by (auto simp: route_matches_covers)
  have "r' = r \<or> pn_len r' < pn_len r" if "(r', u') \<in> set pm" "covers (pn_inner r') path" for r' u'
  proof -
    have le: "pn_len r' \<le> pn_len r" using mm that by (auto simp: route_matches_covers)
    show ?thesis
    proof (cases "pn_len r' = pn_len r")
      case True
      then have "pn_inner r' = pn_inner r"
        using covering_routes_same_length [OF that(2) r(2)] by (simp add: pn_len_def)
      then show ?thesis by (simp add: path_name.expand)
    qed (use le in simp)
  qed
  with r show thesis by (rule that)
qed

lemma path_manager_get_None:
  "path_manager_get pm path = None \<longleftrightarrow> (\<forall>(r, u) \<in> set pm. \<not> covers (pn_inner r) path)"
  by (auto simp: path_manager_get_def filter_empty_conv route_matches_covers)

text \<open>
  C18: Path routing is longest-prefix matching on path segments.  A request path is given to the
  group of the longest configured route that covers it (the route itself, a path below it after a
  slash, or any path for a one-byte route), to none exactly when no route covers it, and the answer
  does not depend on the iteration order of the hash map of routes.
\<close>

theorem path_routing_longest_prefix:
  assumes "distinct (map fst pm)" and "distinct (map fst pm')" and "set pm' = set pm"
  shows "path_manager_get pm' path = path_manager_get pm path \<and>
         (case path_manager_get pm path of
            None \<Rightarrow> \<forall>(r, u) \<in> set pm. \<not> covers (pn_inner r) path
          | Some u \<Rightarrow> \<exists>r. (r, u) \<in> set pm \<and> covers (pn_inner r) path \<and>
              (\<forall>(r', u') \<in> set pm. covers (pn_inner r') path \<longrightarrow> r' = r \<or> pn_len r' < pn_len r))"
proof (cases "path_manager_get pm path")
  case None
  then show ?thesis using path_manager_get_None [of pm path] path_manager_get_None [of pm' path] assms(3) by auto
next
  case (Some u)
  then obtain r where r: "(r, u) \<in> set pm" "covers (pn_inner r) path"
    and max: "\<And>r' u'. (r', u') \<in> set pm \<Longrightarrow> covers (pn_inner r') path \<Longrightarrow> r' = r \<or> pn_len r' < pn_len r"
    by (rule path_manager_get_Some) blast
  have "path_manager_get pm' path \<noteq> None" using r assms(3) path_manager_get_None [of pm' path] by blast
  then obtain u' where u': "path_manager_get pm' path = Some u'" by blast
  then obtain r' where r': "(r', u') \<in> set pm" "covers (pn_inner r') path"
    and max': "\<And>q w. (q, w) \<in> set pm \<Longrightarrow> covers (pn_inner q) path \<Longrightarrow> q = r' \<or> pn_len q < pn_len r'"
    using assms(3) by (metis path_manager_get_Some)
  have "r' = r" using max [OF r'] max' [OF r] by auto
  then have "u' = u" using r(1) r'(1) assms(1) by (metis eq_key_imp_eq_value)
  with Some u' r max show ?thesis by auto
qed

definition sample_group :: "bytes \<Rightarrow> bytes candidates" where
  "sample_group p =
     \<lparr>uc_inner = [], uc_path = PathName p, uc_replace_path = None, uc_load_balance = FixToFirst,
      uc_options = [], uc_health_check = None\<rparr>"

theorem path_routing_longest_prefix_witness:
  "path_manager_get [(PathName ''/'', sample_group ''/''), (PathName ''/a'', sample_group ''/a'')] ''/a/b'' =
     Some (sample_group ''/a'') \<and>
   path_manager_get [(PathName ''/a'', sample_group ''/a''), (PathName ''/'', sample_group ''/'')] ''/a/b'' =
     path_manager_get [(PathName ''/'', sample_group ''/''), (PathName ''/a'', sample_group ''/a'')] ''/a/b''"
proof -
  let ?pm = "[(PathName ''/'', sample_group ''/''), (PathName ''/a'', sample_group ''/a'')]"
  let ?pm' = "[(PathName ''/a'', sample_group ''/a''), (PathName ''/'', sample_group ''/'')]"
  have "path_manager_get ?pm ''/a/b'' = Some (sample_group ''/a'')"
    by (simp add: path_manager_get_def route_matches_def pn_len_def)
  with path_routing_longest_prefix [of ?pm ?pm' "''/a/b''"] show ?thesis by auto
qed

section \<open>What a built group satisfies\<close>

definition health_addrs :: "'u candidates \<Rightarrow> nat list" where
  "health_addrs uc = List.map_filter up_health (uc_inner uc)"

definition group_ok :: "nat \<Rightarrow> nat \<Rightarrow> 'u candidates \<Rightarrow> bool" where
  "group_ok lo hi uc \<longleftrightarrow>
     lb_wf (uc_inner uc) (uc_load_balance uc) \<and> distinct (uc_options uc) \<and>
     distinct (health_addrs uc) \<and> set (health_addrs uc) \<subseteq> {lo..<hi} \<and>
     (case uc_health_check uc of
        None \<Rightarrow> \<forall>u \<in> set (uc_inner uc). up_health u = None
      | Some _ \<Rightarrow> \<forall>u \<in> set (uc_inner uc). up_health u \<noteq> None)"

lemma build_load_balance_wf: "build_load_balance U K v ups sn p = Inr lb \<Longrightarrow> lb_wf ups lb"
  by (auto simp: build_load_balance_def lb_wf_def sticky_build_wf split: option.splits if_splits)

lemma up_health_upstream_from [simp]: "up_health (upstream_from H U uri) = None"
  by (simp add: upstream_from_def)

lemma build_upstreams_addrs:
  assumes "build_upstreams H U n rpc = (ups, n')"
  shows "List.map_filter up_health ups =
           (case rp_health_check rpc of None \<Rightarrow> [] | Some _ \<Rightarrow> [n..<n'])"
    and "n \<le> n'" and "length ups = length (rp_upstream rpc)"
    and "(case rp_health_check rpc of
        None \<Rightarrow> \<forall>u \<in> set ups. up_health u = None
      | Some _ \<Rightarrow> \<forall>u \<in> set ups. up_health u \<noteq> None)"
proof -
  have 1: "List.map_filter up_health (map (\<lambda>(a, uri). upstream_from H U uri\<lparr>up_health := Some a\<rparr>) (enumerate n xs)) =
      [n..<n + length xs]" for xs
    unfolding map_fst_enumerate [symmetric] by (induction xs arbitrary: n) (auto simp: List.map_filter_simps)
  have 2: "List.map_filter up_health (map (upstream_from H U) xs) = []" for xs
    by (induction xs) (auto simp: List.map_filter_simps)
  show "List.map_filter up_health ups = (case rp_health_check rpc of None \<Rightarrow> [] | Some _ \<Rightarrow> [n..<n'])"
    using assms 1 2 by (auto simp: build_upstreams_def split: option.splits)
  show "n \<le> n'" "length ups = length (rp_upstream rpc)"
    using assms by (auto simp: build_upstreams_def split: option.splits)
  show "(case rp_health_check rpc of
        None \<Rightarrow> \<forall>u \<in> set ups. up_health u = None
      | Some _ \<Rightarrow> \<forall>u \<in> set ups. up_health u \<noteq> None)"
    using assms by (auto simp: build_upstreams_def split: option.splits)
qed

lemma build_candidates_ok:
  assumes "build_candidates H U K sn n rpc = Inr (uc, n')"
  shows "group_ok n n' uc" and "n \<le> n'" and "length (uc_inner uc) = length (rp_upstream rpc)"
proof -
  obtain ups where u: "build_upstreams H U n rpc = (ups, n')" and inner: "uc_inner uc = ups"
    and lb: "build_load_balance U K (rp_load_balance rpc) ups sn (rp_path rpc) = Inr (uc_load_balance uc)"
    and opt: "uc_options uc = build_options (rp_upstream_options rpc)"
    and hc: "uc_health_check uc = rp_health_check rpc"
    using assms by (auto simp: build_candidates_def Let_def split: prod.splits)
  have "distinct (uc_options uc)" by (simp add: opt build_options_def split: option.splits)
  then show "group_ok n n' uc"
    using build_upstreams_addrs [OF u] build_load_balance_wf [OF lb] inner hc
    by (auto simp: group_ok_def health_addrs_def split: option.splits)
  show "n \<le> n'" "length (uc_inner uc) = length (rp_upstream rpc)"
    using build_upstreams_addrs [OF u] inner by simp_all
qed

lemma group_ok_mono: "group_ok lo hi uc \<Longrightarrow> lo' \<le> lo \<Longrightarrow> hi \<le> hi' \<Longrightarrow> group_ok lo' hi' uc"
  by (auto simp: group_ok_def)

text \<open>The routes of an application: distinct, each group well formed, no flag shared by two groups.\<close>

definition paths_ok :: "nat \<Rightarrow> nat \<Rightarrow> 'u path_manager \<Rightarrow> bool" where
  "paths_ok lo hi pm \<longleftrightarrow>
     distinct (map fst pm) \<and>
     (\<forall>(r, u) \<in> set pm. uc_path u = r \<and> group_ok lo hi u) \<and>
     (\<forall>(r, u) \<in> set pm. \<forall>(r', u') \<in> set pm. r \<noteq> r' \<longrightarrow> set (health_addrs u) \<inter> set (health_addrs u') = {})"

lemma paths_ok_group: "paths_ok lo hi pm \<Longrightarrow> (r, u) \<in> set pm \<Longrightarrow> group_ok lo hi u"
  unfolding paths_ok_def by blast

lemma set_alist_update:
  "distinct (map fst al) \<Longrightarrow> (k', v') \<in> set (AList.update k v al) \<longleftrightarrow> (k' = k \<and> v' = v) \<or> (k' \<noteq> k \<and> (k', v') \<in> set al)"
  by (induction al) (auto simp: image_iff dest: bspec)

lemma paths_ok_update:
  assumes "paths_ok lo hi pm" and "group_ok hi hi' uc" and "lo \<le> hi" and "hi \<le> hi'"
  shows "paths_ok lo hi' (AList.update (uc_path uc) uc pm)"
proof -
  have d: "distinct (map fst pm)" using assms(1) by (simp add: paths_ok_def)
  have old: "\<And>r u. (r, u) \<in> set pm \<Longrightarrow> uc_path u = r \<and> group_ok lo hi u"
    and dis: "\<And>r u r' u'. (r, u) \<in> set pm \<Longrightarrow> (r', u') \<in> set pm \<Longrightarrow> r \<noteq> r' \<Longrightarrow>
      set (health_addrs u) \<inter> set (health_addrs u') = {}"
    using assms(1) unfolding paths_ok_def by blast+
  have new: "set (health_addrs uc) \<subseteq> {hi..<hi'}" using assms(2) by (simp add: group_ok_def)
  have sep: "set (health_addrs u) \<inter> set (health_addrs uc) = {}" if "(r, u) \<in> set pm" for r u
  proof -
    have "set (health_addrs u) \<subseteq> {lo..<hi}" using old [OF that] by (simp add: group_ok_def)
    with new have "set (health_addrs u) \<inter> set (health_addrs uc) \<subseteq> {lo..<hi} \<inter> {hi..<hi'}" by blast
    also have "\<dots> = {}" by auto
    finally show ?thesis by simp
  qed
  show ?thesis
    unfolding paths_ok_def
  proof (intro conjI ballI, safe)
    show "distinct (map fst (AList.update (uc_path uc) uc pm))" using d by (rule distinct_update)
  next
    fix r u
    assume "(r, u) \<in> set (AList.update (uc_path uc) uc pm)"
    then consider "r = uc_path uc" "u = uc" | "(r, u) \<in> set pm" using d by (auto simp: set_alist_update)
    note ru = this
    show "uc_path u = r" by (cases rule: ru) (use old in auto)
    show "group_ok lo hi' u"
      by (cases rule: ru) (use old assms group_ok_mono in blast)+
  next
    fix r u r' u' a
    assume "(r, u) \<in> set (AList.update (uc_path uc) uc pm)" "(r', u') \<in> set (AList.update (uc_path uc) uc pm)"
      "r \<noteq> r'" "a \<in> set (health_addrs u)" "a \<in> set (health_addrs u')"
    then show "a \<in> {}" using d dis sep by (fastforce simp: set_alist_update)
  qed
qed

lemma build_paths_ok:
  assumes "build_paths H U K sn n rpcs pm = Inr (pm', n')" and "paths_ok lo n pm" and "lo \<le> n"
  shows "paths_ok lo n' pm' \<and> n \<le> n'"
  using assms
proof (induction rpcs arbitrary: n pm)
  case (Cons rpc rpcs)
  from Cons.prems(1) obtain uc m where c: "build_candidates H U K sn n rpc = Inr (uc, m)"
    and rest: "build_paths H U K sn m rpcs (AList.update (uc_path uc) uc pm) = Inr (pm', n')"
    by auto
  note ok = build_candidates_ok [OF c]
  have "paths_ok lo m (AList.update (uc_path uc) uc pm)"
    using Cons.prems(2,3) ok by (intro paths_ok_update) auto
  from Cons.IH [OF rest this] ok Cons.prems(3) show ?case by auto
qed simp

lemma path_manager_try_from_ok:
  assumes "path_manager_try_from H U K n ac = Inr (pm, n')"
  shows "paths_ok n n' pm" and "n \<le> n'"
    and "\<forall>(r, u) \<in> set pm. \<not> (ForceHttp11Upstream \<in> set (uc_options u) \<and> ForceHttp2Upstream \<in> set (uc_options u))"
proof -
  have b: "build_paths H U K (ac_server_name ac) n (ac_reverse_proxy ac) [] = Inr (pm, n')"
    and f: "list_all (\<lambda>(_, elem). \<not> (ForceHttp11Upstream \<in> set (uc_options elem) \<and>
                                   ForceHttp2Upstream \<in> set (uc_options elem))) pm"
    using assms by (auto simp: path_manager_try_from_def split: prod.splits if_splits)
  have "paths_ok n n []" by (simp add: paths_ok_def)
  from build_paths_ok [OF b this] show "paths_ok n n' pm" "n \<le> n'" by simp_all
  show "\<forall>(r, u) \<in> set pm. \<not> (ForceHttp11Upstream \<in> set (uc_options u) \<and> ForceHttp2Upstream \<in> set (uc_options u))"
    using f by (simp add: list_all_iff)
qed

section \<open>Applications\<close>

record 'u backend_app =
  ba_app_name :: bytes
  ba_server_name :: server_name
  ba_path_manager :: "'u path_manager"
  ba_https_redirection :: "bool option"
  ba_mutual_tls :: "bool option"

record 'u app_manager =
  am_apps :: "(server_name \<times> 'u backend_app) list"
  am_default_server_name :: "server_name option"

text \<open>\<open>BackendApp::try_from(&AppConfig)\<close>.\<close>

definition backend_app_try_from :: "'h header_api \<Rightarrow> 'u uri_api \<Rightarrow> 'k cookie_crypto \<Rightarrow> nat \<Rightarrow> 'u app_config \<Rightarrow>
    rpxy_error + 'u backend_app \<times> nat" where
  "backend_app_try_from H U K next_addr ac =
     rbind (path_manager_try_from H U K next_addr ac) (\<lambda>(pm, next_addr).
       Inr (\<lparr>ba_app_name = ac_app_name ac,
             ba_server_name = to_server_name (ac_server_name ac),
             ba_path_manager = pm,
             ba_https_redirection = map_option tls_https_redirection (ac_tls ac),
             ba_mutual_tls = map_option tls_mutual_tls (ac_tls ac)\<rparr>, next_addr))"

fun build_apps :: "'h header_api \<Rightarrow> 'u uri_api \<Rightarrow> 'k cookie_crypto \<Rightarrow> nat \<Rightarrow> 'u app_config list \<Rightarrow>
    (server_name \<times> 'u backend_app) list \<Rightarrow> rpxy_error + (server_name \<times> 'u backend_app) list \<times> nat" where
  "build_apps H U K next_addr [] apps = Inr (apps, next_addr)"
| "build_apps H U K next_addr (ac # acs) apps =
     rbind (backend_app_try_from H U K next_addr ac) (\<lambda>(backend, next_addr).
       build_apps H U K next_addr acs (AList.update (to_server_name (ac_server_name ac)) backend apps))"

text \<open>\<open>BackendAppManager::try_from(&AppConfigList)\<close>.\<close>

definition app_manager_try_from :: "'h header_api \<Rightarrow> 'u uri_api \<Rightarrow> 'k cookie_crypto \<Rightarrow> nat \<Rightarrow> 'u app_config_list \<Rightarrow>
    rpxy_error + 'u app_manager \<times> nat" where
  "app_manager_try_from H U K next_addr acl =
     rbind (build_apps H U K next_addr (acl_inner acl) []) (\<lambda>(apps, next_addr).
       case acl_default_app acl of
         None \<Rightarrow> Inr (\<lparr>am_apps = apps, am_default_server_name = None\<rparr>, next_addr)
       | Some default_app_name \<Rightarrow>
           Inr (\<lparr>am_apps = apps,
                 am_default_server_name =
                   first_value (map (\<lambda>(_, v). ba_server_name v)
                     (filter (\<lambda>(_, v). ba_app_name v = default_app_name) apps))\<rparr>, next_addr))"

definition app_addrs :: "'u backend_app \<Rightarrow> nat set" where
  "app_addrs a = (\<Union>(r, u) \<in> set (ba_path_manager a). set (health_addrs u))"

text \<open>
  The invariant of a built manager: every application is registered under its own lower-cased name,
  its routes are well formed, and no health flag is shared by two applications.
\<close>

definition apps_ok :: "nat \<Rightarrow> nat \<Rightarrow> (server_name \<times> 'u backend_app) list \<Rightarrow> bool" where
  "apps_ok lo hi apps \<longleftrightarrow>
     distinct (map fst apps) \<and>
     (\<forall>(k, a) \<in> set apps. ba_server_name a = k \<and> paths_ok lo hi (ba_path_manager a) \<and>
        (\<forall>(r, u) \<in> set (ba_path_manager a).
           \<not> (ForceHttp11Upstream \<in> set (uc_options u) \<and> ForceHttp2Upstream \<in> set (uc_options u)))) \<and>
     (\<forall>(k, a) \<in> set apps. \<forall>(k', a') \<in> set apps. k \<noteq> k' \<longrightarrow> app_addrs a \<inter> app_addrs a' = {})"

lemma paths_ok_mono: "paths_ok lo hi pm \<Longrightarrow> lo' \<le> lo \<Longrightarrow> hi \<le> hi' \<Longrightarrow> paths_ok lo' hi' pm"
  using group_ok_mono unfolding paths_ok_def by blast

lemma app_addrs_range: "paths_ok lo hi (ba_path_manager a) \<Longrightarrow> app_addrs a \<subseteq> {lo..<hi}"
  by (force simp: app_addrs_def paths_ok_def group_ok_def)

lemma apps_ok_update:
  assumes ok: "apps_ok lo hi apps" and bounds: "lo \<le> hi" "hi \<le> hi'"
    and new: "paths_ok hi hi' (ba_path_manager b)" "ba_server_name b = k"
      "\<forall>(r, u) \<in> set (ba_path_manager b).
         \<not> (ForceHttp11Upstream \<in> set (uc_options u) \<and> ForceHttp2Upstream \<in> set (uc_options u))"
  shows "apps_ok lo hi' (AList.update k b apps)"
proof -
  have d: "distinct (map fst apps)" using ok by (simp add: apps_ok_def)
  have sep: "app_addrs a \<inter> app_addrs b = {}" if "(q, a) \<in> set apps" for q a
  proof -
    have "app_addrs a \<subseteq> {lo..<hi}" using ok that by (intro app_addrs_range) (auto simp: apps_ok_def)
    then have "app_addrs a \<inter> app_addrs b \<subseteq> {lo..<hi} \<inter> {hi..<hi'}" using app_addrs_range [OF new(1)] by blast
    also have "\<dots> = {}" by auto
    finally show ?thesis by simp
  qed
  have old: "\<And>q a. (q, a) \<in> set apps \<Longrightarrow> ba_server_name a = q \<and> paths_ok lo hi (ba_path_manager a) \<and>
      (\<forall>(r, u) \<in> set (ba_path_manager a).
         \<not> (ForceHttp11Upstream \<in> set (uc_options u) \<and> ForceHttp2Upstream \<in> set (uc_options u)))"
    and dis: "\<And>q a q' a'. (q, a) \<in> set apps \<Longrightarrow> (q', a') \<in> set apps \<Longrightarrow> q \<noteq> q' \<Longrightarrow> app_addrs a \<inter> app_addrs a' = {}"
    using ok unfolding apps_ok_def by blast+
  have m: "paths_ok lo hi' pm" if "paths_ok lo hi pm \<or> paths_ok hi hi' pm" for pm :: "'a path_manager"
    using that bounds paths_ok_mono by (metis order_refl)
  show ?thesis
    unfolding apps_ok_def
  proof (intro conjI ballI, safe)
    show "distinct (map fst (AList.update k b apps))" using d by (rule distinct_update)
  next
    fix q a
    assume "(q, a) \<in> set (AList.update k b apps)"
    then consider "q = k" "a = b" | "(q, a) \<in> set apps" using d by (auto simp: set_alist_update)
    note qa = this
    show "ba_server_name a = q" by (cases rule: qa) (use old new in auto)
    show "paths_ok lo hi' (ba_path_manager a)" by (cases rule: qa) (use old new m in blast)+
    fix r u
    assume "(r, u) \<in> set (ba_path_manager a)" "ForceHttp11Upstream \<in> set (uc_options u)"
      "ForceHttp2Upstream \<in> set (uc_options u)"
    then show False by (cases rule: qa) (use old new in blast)+
  next
    fix q a q' a' x
    assume "(q, a) \<in> set (AList.update k b apps)" "(q', a') \<in> set (AList.update k b apps)" "q \<noteq> q'"
      "x \<in> app_addrs a" "x \<in> app_addrs a'"
    then show "x \<in> {}" using d dis sep by (fastforce simp: set_alist_update)
  qed
qed

lemma build_apps_ok:
  assumes "build_apps H U K n acs apps = Inr (apps', n')" and "apps_ok lo n apps" and "lo \<le> n"
  shows "apps_ok lo n' apps' \<and> n \<le> n'"
  using assms
proof (induction acs arbitrary: n apps)
  case (Cons ac acs)
  from Cons.prems(1) obtain b m where b: "backend_app_try_from H U K n ac = Inr (b, m)"
    and rest: "build_apps H U K m acs (AList.update (to_server_name (ac_server_name ac)) b apps) = Inr (apps', n')"
    by auto
  from b have pm: "path_manager_try_from H U K n ac = Inr (ba_path_manager b, m)"
    and sn: "ba_server_name b = to_server_name (ac_server_name ac)"
    by (auto simp: backend_app_try_from_def split: prod.splits)
  note ok = path_manager_try_from_ok [OF pm]
  have "apps_ok lo m (AList.update (to_server_name (ac_server_name ac)) b apps)"
    using Cons.prems(2,3) ok(2,1) sn ok(3) by (rule apps_ok_update)
  from Cons.IH [OF rest this] ok Cons.prems(3) show ?case by auto
qed simp

text \<open>
  Routing and load balancing of a built configuration never fail: for any application of a
  manager built from the configuration, whatever route a path is given, a group with upstreams
  serves the request with one of its upstreams, without a panic under any change of the health
  flags, and with a healthy one when the flags are stable and one is healthy.
\<close>

theorem built_backend_serves:
  assumes "app_manager_try_from H U K n acl = Inr (am, n')" and "(k, a) \<in> set (am_apps am)"
    and "path_manager_get (ba_path_manager a) path = Some uc" and "uc_inner uc \<noteq> []" and "env_ok E"
  shows "\<exists>u ctx. fst (candidates_get E c uc) = Some (Some u, ctx) \<and> u \<in> set (uc_inner uc) \<and>
           (\<forall>view. env_stable view E \<longrightarrow> any_healthy view (uc_inner uc) \<longrightarrow> up_is_healthy view u)"
proof -
  obtain apps where apps: "build_apps H U K n (acl_inner acl) [] = Inr (apps, n')" "am_apps am = apps"
    using assms(1) by (auto simp: app_manager_try_from_def split: prod.splits option.splits)
  have "apps_ok n n []" by (simp add: apps_ok_def)
  with build_apps_ok [OF apps(1) this] assms(2) apps(2) have pm: "paths_ok n n' (ba_path_manager a)"
    by (auto simp: apps_ok_def)
  obtain r where "(r, uc) \<in> set (ba_path_manager a)" using assms(3) by (rule path_manager_get_Some)
  then have wf: "lb_wf (uc_inner uc) (uc_load_balance uc)" using pm by (auto simp: paths_ok_def group_ok_def)
  obtain p where p: "fst (get_context E c (uc_inner uc) (uc_load_balance uc)) = Some p" "pt_ptr p < length (uc_inner uc)"
    using lb_any.get_ptr_in_range [OF wf assms(4,5), of c] by blast
  have "fst (candidates_get E c uc) = Some (Some (uc_inner uc ! pt_ptr p), pt_context p)"
    using p by (simp add: candidates_get_def case_prod_unfold)
  moreover have "uc_inner uc ! pt_ptr p \<in> set (uc_inner uc)" using p(2) by simp
  moreover have "env_stable view E \<Longrightarrow> any_healthy view (uc_inner uc) \<Longrightarrow> up_is_healthy view (uc_inner uc ! pt_ptr p)" for view
    using lb_any.get_ptr_healthy [OF wf assms(4,5) _ _ p(1)] by blast
  ultimately show ?thesis by blast
qed

definition sample_config :: "bytes app_config_list" where
  "sample_config =
     \<lparr>acl_inner =
        [\<lparr>ac_app_name = ''app'', ac_server_name = ''Example.com'',
          ac_reverse_proxy =
            [\<lparr>rp_path = None, rp_replace_path = None, rp_upstream = [''a'', ''b''], rp_upstream_options = None,
              rp_load_balance = Some ''round_robin'', rp_health_check = None\<rparr>],
          ac_tls = None\<rparr>],
      acl_default_app = None\<rparr>"

theorem built_backend_serves_witness:
  "\<exists>am n' k a uc u ctx. app_manager_try_from lines_api sample_uri_api sample_crypto 0 sample_config = Inr (am, n') \<and>
     (k, a) \<in> set (am_apps am) \<and> path_manager_get (ba_path_manager a) ''/x'' = Some uc \<and>
     fst (candidates_get \<lparr>env_view = (\<lambda>_ _. True), env_random = (\<lambda>n. 0), env_now = 0\<rparr> None uc) = Some (Some u, ctx)"
proof -
  let ?E = "\<lparr>env_view = (\<lambda>_ _. True), env_random = (\<lambda>n. 0), env_now = 0\<rparr> :: lb_env"
  obtain am n' where am: "app_manager_try_from lines_api sample_uri_api sample_crypto 0 sample_config = Inr (am, n')"
    and apps: "am_apps am =
      [(to_server_name ''Example.com'',
        \<lparr>ba_app_name = ''app'', ba_server_name = to_server_name ''Example.com'',
         ba_path_manager = [(to_path_name ''/'',
           \<lparr>uc_inner = map (upstream_from lines_api sample_uri_api) [''a'', ''b''], uc_path = to_path_name ''/'',
            uc_replace_path = None, uc_load_balance = RoundRobin 0, uc_options = [], uc_health_check = None\<rparr>)],
         ba_https_redirection = None, ba_mutual_tls = None\<rparr>)]"
    by (simp add: app_manager_try_from_def sample_config_def backend_app_try_from_def path_manager_try_from_def
        build_candidates_def build_upstreams_def build_load_balance_def build_options_def)
  let ?a = "snd (hd (am_apps am))"
  obtain uc where uc: "path_manager_get (ba_path_manager ?a) ''/x'' = Some uc" and ne: "uc_inner uc \<noteq> []"
    unfolding apps by (simp add: path_manager_get_def route_matches_def to_path_name_def)
  have mem: "(fst (hd (am_apps am)), ?a) \<in> set (am_apps am)" unfolding apps by simp
  have "env_ok ?E" by (simp add: env_ok_def)
  from built_backend_serves [OF am mem uc ne this, of None] am mem uc show ?thesis by blast
qed

section \<open>Starting the health checkers\<close>

record 'u checker_task =
  ct_upstreams :: "('u \<times> nat) list"
  ct_config :: health_check_config
  ct_has_client :: bool

definition is_http_check :: "health_check_config \<Rightarrow> bool" where
  "is_http_check c = (case hc_type c of Http _ _ \<Rightarrow> True | Tcp \<Rightarrow> False)"

definition has_http_health_check :: "'u app_manager \<Rightarrow> bool" where
  "has_http_health_check am =
     list_ex (\<lambda>(_, app). list_ex (\<lambda>(_, uc). case uc_health_check uc of None \<Rightarrow> False | Some c \<Rightarrow> is_http_check c)
       (ba_path_manager app)) (am_apps am)"

definition health_upstreams :: "'u candidates \<Rightarrow> ('u \<times> nat) list" where
  "health_upstreams uc = List.map_filter (\<lambda>u. map_option (\<lambda>h. (up_uri u, h)) (up_health u)) (uc_inner uc)"

definition group_task :: "'u candidates \<Rightarrow> 'u checker_task option" where
  "group_task uc =
     (if health_upstreams uc = [] then None
      else
        case uc_health_check uc of
          None \<Rightarrow> None
        | Some config \<Rightarrow>
            Some \<lparr>ct_upstreams = health_upstreams uc, ct_config = config, ct_has_client = is_http_check config\<rparr>)"

text \<open>\<open>spawn_health_checkers\<close>; \<open>client_built\<close> says whether \<open>HealthCheckHttpClient::try_new\<close> succeeds.\<close>

definition spawn_health_checkers :: "bool \<Rightarrow> 'u app_manager \<Rightarrow> rpxy_error + 'u checker_task list" where
  "spawn_health_checkers client_built am =
     (if has_http_health_check am \<and> \<not> client_built then Inl FailedToBuildHealthCheckClient
      else Inr (concat (map (\<lambda>(_, app). List.map_filter (\<lambda>(_, uc). group_task uc) (ba_path_manager app)) (am_apps am))))"

text \<open>
  The checker tasks run concurrently.  A schedule says which task runs its next probe round, and on
  what network; the tasks share the flags, and each has its own counters.
\<close>

definition schedule_step :: "'u uri_api \<Rightarrow> 'u checker_task list \<Rightarrow> counter list list \<times> health_store \<Rightarrow>
    nat \<times> 'u probe_net \<Rightarrow> counter list list \<times> health_store" where
  "schedule_step U tasks st ev =
     (let (css, flags) = st; (t, net) = ev; task = tasks ! t;
          (cs, flags) = check_round U (ct_has_client task) (ct_config task) (ct_upstreams task) net (css ! t, flags)
      in (css[t := cs], flags))"

definition initial_counters :: "'u checker_task \<Rightarrow> counter list" where
  "initial_counters task =
     map (\<lambda>_. counter_new (hc_unhealthy_threshold (ct_config task)) (hc_healthy_threshold (ct_config task)))
       (ct_upstreams task)"

definition run_schedule :: "'u uri_api \<Rightarrow> 'u checker_task list \<Rightarrow> (nat \<times> 'u probe_net) list \<Rightarrow> health_store \<Rightarrow> health_store" where
  "run_schedule U tasks sched flags =
     snd (foldl (schedule_step U tasks) (map initial_counters tasks, flags) sched)"

definition task_addrs :: "'u checker_task \<Rightarrow> nat list" where
  "task_addrs task = map snd (ct_upstreams task)"

definition tasks_separate :: "'u checker_task list \<Rightarrow> bool" where
  "tasks_separate tasks \<longleftrightarrow>
     list_all (\<lambda>x. distinct (task_addrs x)) tasks \<and>
     sorted_wrt (\<lambda>x y. set (task_addrs x) \<inter> set (task_addrs y) = {}) tasks"

text \<open>The results of the probes of upstream \<open>j\<close> of task \<open>t\<close> along a schedule.\<close>

definition probe_history :: "'u uri_api \<Rightarrow> 'u checker_task list \<Rightarrow> (nat \<times> 'u probe_net) list \<Rightarrow> nat \<Rightarrow> nat \<Rightarrow> bool list" where
  "probe_history U tasks sched t j =
     map (\<lambda>(_, net). probe U (ct_has_client (tasks ! t)) (ct_config (tasks ! t)) net
                       (fst (ct_upstreams (tasks ! t) ! j)))
       (filter (\<lambda>(t', _). t' = t) sched)"

definition schedule_inv :: "'u uri_api \<Rightarrow> 'u checker_task list \<Rightarrow> (nat \<times> 'u probe_net) list \<Rightarrow>
    counter list list \<times> health_store \<Rightarrow> bool" where
  "schedule_inv U tasks hist st \<longleftrightarrow>
     length (fst st) = length tasks \<and>
     (\<forall>t < length tasks. checker_inv (ct_config (tasks ! t)) (task_addrs (tasks ! t)) (snd st)
        (probe_history U tasks hist t) (fst st ! t, snd st))"

lemma tasks_separate_disjoint:
  assumes "tasks_separate tasks" and "t < length tasks" "t' < length tasks" "t \<noteq> t'"
  shows "set (task_addrs (tasks ! t)) \<inter> set (task_addrs (tasks ! t')) = {}"
proof -
  have "sorted_wrt (\<lambda>x y. set (task_addrs x) \<inter> set (task_addrs y) = {}) tasks"
    using assms(1) by (simp add: tasks_separate_def)
  with assms(2-4) show ?thesis
    unfolding sorted_wrt_iff_nth_less by (metis Int_commute nat_neq_iff)
qed

lemma checker_inv_flags:
  "checker_inv cfg healths flags0 hist (cs, flags) \<Longrightarrow> \<forall>a \<in> set healths. flags' a = flags a \<Longrightarrow>
   checker_inv cfg healths flags' hist (cs, flags')"
  by (auto simp: checker_inv_def)

lemma schedule_step_inv:
  assumes sep: "tasks_separate tasks" and inv: "schedule_inv U tasks hist st" and t: "t < length tasks"
  shows "schedule_inv U tasks (hist @ [(t, net)]) (schedule_step U tasks st (t, net))"
proof -
  obtain css flags where st: "st = (css, flags)" by (cases st)
  let ?task = "tasks ! t"
  obtain cs flags' where r: "check_round U (ct_has_client ?task) (ct_config ?task) (ct_upstreams ?task) net
      (css ! t, flags) = (cs, flags')" by fastforce
  have step: "schedule_step U tasks st (t, net) = (css[t := cs], flags')"
    using r st by (simp add: schedule_step_def)
  have len: "length css = length tasks" using inv st by (simp add: schedule_inv_def)
  have d: "distinct (map snd (ct_upstreams ?task))"
    using sep t by (auto simp: tasks_separate_def list_all_length task_addrs_def)
  have "checker_inv (ct_config ?task) (map snd (ct_upstreams ?task)) flags (probe_history U tasks hist t) (css ! t, flags)"
    using inv st t by (simp add: schedule_inv_def task_addrs_def)
  from check_round_inv [OF this d, of U "ct_has_client ?task" net]
  have me: "checker_inv (ct_config ?task) (task_addrs ?task) flags (probe_history U tasks (hist @ [(t, net)]) t) (cs, flags')"
    unfolding r task_addrs_def by (rule checker_inv_cong) (simp add: probe_history_def)
  have frame: "a \<notin> set (task_addrs ?task) \<Longrightarrow> flags' a = flags a" for a
    using me by (simp add: checker_inv_def)
  have other: "checker_inv (ct_config (tasks ! t')) (task_addrs (tasks ! t')) flags'
      (probe_history U tasks (hist @ [(t, net)]) t') (css ! t', flags')" if "t' < length tasks" "t' \<noteq> t" for t'
  proof -
    have "checker_inv (ct_config (tasks ! t')) (task_addrs (tasks ! t')) flags (probe_history U tasks hist t') (css ! t', flags)"
      using inv st that by (simp add: schedule_inv_def)
    moreover have "\<forall>a \<in> set (task_addrs (tasks ! t')). flags' a = flags a"
      using frame tasks_separate_disjoint [OF sep that(1) t that(2)] by blast
    moreover have "probe_history U tasks (hist @ [(t, net)]) t' = probe_history U tasks hist t'"
      using that by (simp add: probe_history_def fun_eq_iff)
    ultimately show ?thesis using checker_inv_flags by metis
  qed
  have "checker_inv (ct_config ?task) (task_addrs ?task) flags' (probe_history U tasks (hist @ [(t, net)]) t) (cs, flags')"
    by (rule checker_inv_flags [OF me]) simp
  with other len t show ?thesis
    unfolding step schedule_inv_def by (simp add: nth_list_update)
qed

lemma run_schedule_inv:
  assumes sep: "tasks_separate tasks" and "\<forall>(t, net) \<in> set sched. t < length tasks"
    and healthy: "\<forall>task \<in> set tasks. \<forall>a \<in> set (task_addrs task). flags a"
  shows "schedule_inv U tasks sched (foldl (schedule_step U tasks) (map initial_counters tasks, flags) sched)"
  using assms(2)
proof (induction sched rule: rev_induct)
  case Nil
  have "checker_inv (ct_config task) (task_addrs task) flags (probe_history U tasks [] t) (initial_counters task, flags)"
    if "task \<in> set tasks" for task t
    using healthy that
    by (auto simp: checker_inv_def probe_history_def initial_counters_def task_addrs_def counter_inv_new)
      (simp add: counter_new_def)
  then show ?case by (simp add: schedule_inv_def)
next
  case (snoc ev sched)
  obtain t net where ev: "ev = (t, net)" by (cases ev)
  have "t < length tasks" using snoc.prems ev by simp
  moreover have "schedule_inv U tasks sched (foldl (schedule_step U tasks) (map initial_counters tasks, flags) sched)"
    using snoc by simp
  ultimately show ?case using schedule_step_inv [OF sep] ev by simp
qed

lemma sorted_wrt_keys:
  "distinct (map fst al) \<Longrightarrow> (\<And>k a k' a'. (k, a) \<in> set al \<Longrightarrow> (k', a') \<in> set al \<Longrightarrow> k \<noteq> k' \<Longrightarrow> R a a') \<Longrightarrow>
   sorted_wrt (\<lambda>x y. R (snd x) (snd y)) al"
proof (induction al)
  case (Cons x al)
  obtain k a where x: "x = (k, a)" by (cases x)
  have "R a (snd y)" if "y \<in> set al" for y
  proof -
    obtain k' a' where y: "y = (k', a')" by (cases y)
    have "k \<noteq> k'" using Cons.prems(1) x y that by force
    then show ?thesis using Cons.prems(2) [of k a k' a'] x y that by simp
  qed
  moreover have "sorted_wrt (\<lambda>x y. R (snd x) (snd y)) al"
    using Cons.prems by (intro Cons.IH) (auto simp: image_iff)
  ultimately show ?case using x by simp
qed simp

lemma sorted_wrt_concat:
  "list_all (sorted_wrt P) xss \<Longrightarrow> sorted_wrt (\<lambda>xs ys. \<forall>x \<in> set xs. \<forall>y \<in> set ys. P x y) xss \<Longrightarrow>
   sorted_wrt P (concat xss)"
  by (induction xss) (auto simp: sorted_wrt_append)

lemma set_map_filter: "x \<in> set (List.map_filter f xs) \<longleftrightarrow> (\<exists>y \<in> set xs. f y = Some x)"
  by (induction xs) (auto simp: List.map_filter_simps split: option.splits)

lemma sorted_wrt_map_filter:
  "sorted_wrt (\<lambda>x y. \<forall>a b. f x = Some a \<longrightarrow> f y = Some b \<longrightarrow> P a b) xs \<Longrightarrow> sorted_wrt P (List.map_filter f xs)"
  by (induction xs) (auto simp: List.map_filter_def)

lemma group_task_addrs: "group_task uc = Some task \<Longrightarrow> task_addrs task = health_addrs uc"
proof -
  have "map snd (health_upstreams uc) = health_addrs uc"
    unfolding health_upstreams_def health_addrs_def
    by (induction "uc_inner uc" arbitrary: uc) (auto simp: List.map_filter_def)
  moreover assume "group_task uc = Some task"
  ultimately show ?thesis by (auto simp: group_task_def task_addrs_def split: if_splits option.splits)
qed

definition app_tasks :: "'u backend_app \<Rightarrow> 'u checker_task list" where
  "app_tasks app = List.map_filter (\<lambda>(_, uc). group_task uc) (ba_path_manager app)"

lemma app_tasks_mem:
  "task \<in> set (app_tasks app) \<longleftrightarrow> (\<exists>r uc. (r, uc) \<in> set (ba_path_manager app) \<and> group_task uc = Some task)"
  by (auto simp: app_tasks_def set_map_filter intro: bexI [rotated])

lemma app_tasks_separate:
  assumes "paths_ok lo hi (ba_path_manager app)"
  shows "tasks_separate (app_tasks app)"
proof -
  let ?R = "\<lambda>u u' :: 'a candidates. set (health_addrs u) \<inter> set (health_addrs u') = {}"
  have "sorted_wrt (\<lambda>x y. ?R (snd x) (snd y)) (ba_path_manager app)"
    using assms unfolding paths_ok_def by (intro sorted_wrt_keys) blast+
  then have "sorted_wrt (\<lambda>x y. \<forall>a b. (\<lambda>(_, uc). group_task uc) x = Some a \<longrightarrow> (\<lambda>(_, uc). group_task uc) y = Some b \<longrightarrow>
      set (task_addrs a) \<inter> set (task_addrs b) = {}) (ba_path_manager app)"
    by (rule sorted_wrt_mono_rel [rotated]) (auto simp: group_task_addrs)
  then have "sorted_wrt (\<lambda>x y. set (task_addrs x) \<inter> set (task_addrs y) = {}) (app_tasks app)"
    unfolding app_tasks_def by (rule sorted_wrt_map_filter)
  moreover have "list_all (\<lambda>x. distinct (task_addrs x)) (app_tasks app)"
    using paths_ok_group [OF assms] by (auto simp: list_all_iff app_tasks_mem group_task_addrs group_ok_def)
  ultimately show ?thesis by (simp add: tasks_separate_def)
qed

lemma app_tasks_addrs: "task \<in> set (app_tasks app) \<Longrightarrow> set (task_addrs task) \<subseteq> app_addrs app"
  by (force simp: app_tasks_mem app_addrs_def group_task_addrs)

lemma spawned_tasks_separate:
  assumes "apps_ok lo hi (am_apps am)" and "spawn_health_checkers cb am = Inr tasks"
  shows "tasks_separate tasks"
proof -
  let ?apps = "am_apps am"
  have tasks: "tasks = concat (map (app_tasks \<circ> snd) ?apps)"
    using assms(2) by (auto simp: spawn_health_checkers_def app_tasks_def case_prod_unfold comp_def split: if_splits)
  let ?dis = "\<lambda>x y :: 'a checker_task. set (task_addrs x) \<inter> set (task_addrs y) = {}"
  have each: "tasks_separate (app_tasks a)" if "(k, a) \<in> set ?apps" for k a
    using assms(1) that unfolding apps_ok_def by (intro app_tasks_separate) blast
  have "sorted_wrt (\<lambda>x y. app_addrs (snd x) \<inter> app_addrs (snd y) = {}) ?apps"
    using assms(1) unfolding apps_ok_def by (intro sorted_wrt_keys) blast+
  then have "sorted_wrt (\<lambda>x y. \<forall>a \<in> set (app_tasks (snd x)). \<forall>b \<in> set (app_tasks (snd y)). ?dis a b) ?apps"
    by (rule sorted_wrt_mono_rel [rotated]) (use app_tasks_addrs in blast)
  then have "sorted_wrt ?dis tasks"
    unfolding tasks using each
    by (intro sorted_wrt_concat) (auto simp: sorted_wrt_map list_all_iff tasks_separate_def)
  moreover have "list_all (\<lambda>x. distinct (task_addrs x)) tasks"
    using each by (auto simp: tasks list_all_iff tasks_separate_def)
  ultimately show ?thesis by (simp add: tasks_separate_def)
qed

text \<open>
  C15: The health checkers of a built configuration do not disturb one another.  Whatever the order
  in which the probe rounds of the spawned tasks interleave, and whatever the network does, the
  flag of every checked upstream is at the end what the specification gives for the results of
  that upstream's own probes under its group's thresholds.
\<close>

theorem interleaved_checkers_publish_spec:
  assumes "app_manager_try_from H U K n acl = Inr (am, n')" and "spawn_health_checkers cb am = Inr tasks"
    and "\<forall>(t, net) \<in> set sched. t < length tasks" and "\<forall>a < n'. flags a"
    and "t < length tasks" and "j < length (ct_upstreams (tasks ! t))"
  shows "run_schedule U tasks sched flags (snd (ct_upstreams (tasks ! t) ! j)) =
           health_spec (unat (hc_unhealthy_threshold (ct_config (tasks ! t))))
             (unat (hc_healthy_threshold (ct_config (tasks ! t)))) (probe_history U tasks sched t j)"
proof -
  obtain apps where apps: "build_apps H U K n (acl_inner acl) [] = Inr (apps, n')" "am_apps am = apps"
    using assms(1) by (auto simp: app_manager_try_from_def split: prod.splits option.splits)
  have "apps_ok n n []" by (simp add: apps_ok_def)
  with build_apps_ok [OF apps(1) this] apps(2) have ok: "apps_ok n n' (am_apps am)" by simp
  note sep = spawned_tasks_separate [OF ok assms(2)]
  have "a < n'" if "task \<in> set tasks" "a \<in> set (task_addrs task)" for task a
  proof -
    have "tasks = concat (map (app_tasks \<circ> snd) (am_apps am))"
      using assms(2) by (auto simp: spawn_health_checkers_def app_tasks_def case_prod_unfold comp_def split: if_splits)
    with that(1) obtain k app where app: "(k, app) \<in> set (am_apps am)" "task \<in> set (app_tasks app)" by auto
    have "paths_ok n n' (ba_path_manager app)" using ok app(1) unfolding apps_ok_def by blast
    from app_tasks_addrs [OF app(2)] app_addrs_range [OF this] that(2) show ?thesis by auto
  qed
  with assms(4) have "\<forall>task \<in> set tasks. \<forall>a \<in> set (task_addrs task). flags a" by blast
  from run_schedule_inv [OF sep assms(3) this, of U] assms(5,6)
  have "checker_inv (ct_config (tasks ! t)) (task_addrs (tasks ! t)) (run_schedule U tasks sched flags)
      (probe_history U tasks sched t)
      (fst (foldl (schedule_step U tasks) (map initial_counters tasks, flags) sched) ! t, run_schedule U tasks sched flags)"
    by (simp add: schedule_inv_def run_schedule_def)
  then show ?thesis
    using assms(6) counter_inv_healthy by (fastforce simp: checker_inv_def task_addrs_def)
qed

definition sample_checked_config :: "bytes app_config_list" where
  "sample_checked_config =
     \<lparr>acl_inner =
        [\<lparr>ac_app_name = ''app'', ac_server_name = ''example.com'',
          ac_reverse_proxy =
            [\<lparr>rp_path = None, rp_replace_path = None, rp_upstream = [''a'', ''b''], rp_upstream_options = None,
              rp_load_balance = None,
              rp_health_check = Some \<lparr>hc_type = Tcp, hc_interval = 1, hc_timeout = 1,
                hc_unhealthy_threshold = 1, hc_healthy_threshold = 1\<rparr>\<rparr>],
          ac_tls = None\<rparr>],
      acl_default_app = None\<rparr>"

theorem interleaved_checkers_publish_spec_witness:
  "\<exists>am n' tasks. app_manager_try_from lines_api sample_uri_api sample_crypto 0 sample_checked_config = Inr (am, n') \<and>
     spawn_health_checkers True am = Inr tasks \<and>
     \<not> run_schedule sample_uri_api tasks
         [(0, \<lparr>tcp_connect = (\<lambda>a t. a = ''a:80''), http_get = (\<lambda>u h t. None)\<rparr>)] (\<lambda>_. True) 1"
proof -
  let ?net = "\<lparr>tcp_connect = (\<lambda>a t. a = ''a:80''), http_get = (\<lambda>u h t. None)\<rparr> :: bytes probe_net"
  let ?cfg = "\<lparr>hc_type = Tcp, hc_interval = 1, hc_timeout = 1, hc_unhealthy_threshold = 1, hc_healthy_threshold = 1\<rparr>"
  let ?tasks = "[\<lparr>ct_upstreams = [(''a'', 0), (''b'', 1)], ct_config = ?cfg, ct_has_client = False\<rparr>]"
  obtain am n' where am: "app_manager_try_from lines_api sample_uri_api sample_crypto 0 sample_checked_config = Inr (am, n')"
    and tasks: "spawn_health_checkers True am = Inr ?tasks"
    by (simp add: app_manager_try_from_def sample_checked_config_def backend_app_try_from_def path_manager_try_from_def
        build_candidates_def build_upstreams_def build_load_balance_def build_options_def spawn_health_checkers_def
        group_task_def health_upstreams_def List.map_filter_simps is_http_check_def upstream_from_def)
  have fail: "\<not> probe sample_uri_api False ?cfg ?net ''b''"
    by (simp add: probe_def check_tcp_def sample_uri_api_def build_tcp_addr_def)
  have "probe_history sample_uri_api ?tasks [(0, ?net)] 0 1 = [False]"
    using fail by (simp add: probe_history_def)
  then have "\<not> run_schedule sample_uri_api ?tasks [(0, ?net)] (\<lambda>_. True) 1"
    using interleaved_checkers_publish_spec [OF am tasks, of "[(0, ?net)]" "\<lambda>_. True" 0 1]
    by (simp add: health_spec_def)
  with am tasks show ?thesis by blast
qed

end
