(* ===== verification/Header_Common.thy ===== *)
theory Header_Common
  imports Backend
begin

text \<open>
  The shared header operations of \<open>message_handler/header_ops/\<close>: \<open>common.rs\<close> (overwriting an
  entry, merging \<open>Cookie\<close> lines, the authoritative host), \<open>hop.rs\<close> (hop-by-hop headers and the
  upgrade token) and \<open>redact.rs\<close> (the debug view of the headers).
\<close>

section \<open>Header names\<close>

definition HOST :: bytes where "HOST = ''host''"
definition CONNECTION :: bytes where "CONNECTION = ''connection''"
definition TE :: bytes where "TE = ''te''"
definition UPGRADE :: bytes where "UPGRADE = ''upgrade''"
definition FORWARDED :: bytes where "FORWARDED = ''forwarded''"
definition X_FORWARDED_FOR :: bytes where "X_FORWARDED_FOR = ''x-forwarded-for''"
definition X_FORWARDED_PROTO :: bytes where "X_FORWARDED_PROTO = ''x-forwarded-proto''"
definition X_FORWARDED_PORT :: bytes where "X_FORWARDED_PORT = ''x-forwarded-port''"
definition X_FORWARDED_SSL :: bytes where "X_FORWARDED_SSL = ''x-forwarded-ssl''"
definition X_ORIGINAL_URI :: bytes where "X_ORIGINAL_URI = ''x-original-uri''"
definition X_REAL_IP :: bytes where "X_REAL_IP = ''x-real-ip''"
definition X_FORWARDED_HOST :: bytes where "X_FORWARDED_HOST = ''x-forwarded-host''"
definition PROXY :: bytes where "PROXY = ''proxy''"

lemmas header_name_defs = HOST_def CONNECTION_def TE_def UPGRADE_def FORWARDED_def X_FORWARDED_FOR_def
  X_FORWARDED_PROTO_def X_FORWARDED_PORT_def X_FORWARDED_SSL_def X_ORIGINAL_URI_def X_REAL_IP_def
  X_FORWARDED_HOST_def PROXY_def COOKIE_def SET_COOKIE_def

section \<open>Common operations\<close>

definition add_header_entry_overwrite_if_exist :: "'h header_api \<Rightarrow> 'h \<Rightarrow> bytes \<Rightarrow> bytes \<Rightarrow> anyhow + 'h" where
  "add_header_entry_overwrite_if_exist H headers key value =
     (if \<not> hm_contains_key H headers key
      then rbind (ok_or (hv_from_str H value) (Anyhow ''invalid header value'')) (\<lambda>v. Inr (hm_insert H headers key v))
      else rbind (ok_or (hv_from_bytes H value) (Anyhow ''invalid header value'')) (\<lambda>v. Inr (hm_insert H headers key v)))"

definition make_cookie_single_line :: "'h header_api \<Rightarrow> 'h \<Rightarrow> anyhow + 'h" where
  "make_cookie_single_line H headers =
     (let vs = hm_get_all H headers COOKIE
      in if length vs < 2 then Inr headers
         else
           let joined = join ''; '' (map (\<lambda>v. case hv_to_str H v of Some s \<Rightarrow> s | None \<Rightarrow> []) vs);
               headers = snd (hm_remove H headers COOKIE)
           in rbind (ok_or (hv_from_bytes H joined) (Anyhow ''invalid header value''))
                (\<lambda>v. Inr (hm_insert H headers COOKIE v)))"

definition host_from_uri_or_host_header :: "'h header_api \<Rightarrow> 'u uri_api \<Rightarrow> 'u \<Rightarrow> bytes option \<Rightarrow> anyhow + bytes" where
  "host_from_uri_or_host_header H U uri host_header_value =
     (case uri_host U uri of
        Some host \<Rightarrow>
          Inr (case uri_port U uri of Some port \<Rightarrow> host @ '':'' @ show_nat (unat port) | None \<Rightarrow> host)
      | None \<Rightarrow>
          (case host_header_value of
             None \<Rightarrow> Inl (Anyhow ''No host found in URI or Host header'')
           | Some h \<Rightarrow> ok_or (hv_to_str H h) (Anyhow ''invalid header value'')))"

section \<open>Hop-by-hop headers\<close>

definition remove_connection_header :: "'h header_api \<Rightarrow> 'h \<Rightarrow> 'h" where
  "remove_connection_header H headers =
     (let (values, headers) = hm_remove H headers CONNECTION
      in case values of
           None \<Rightarrow> headers
         | Some values \<Rightarrow>
             (case hv_to_str H values of
                None \<Rightarrow> headers
              | Some v \<Rightarrow>
                  foldl (\<lambda>headers m. snd (hm_remove_str H headers m)) headers
                    (filter (\<lambda>m. m \<noteq> []) (map trim (split_on (CHR '','') v)))))"

definition HOP_HEADERS :: "bytes list" where
  "HOP_HEADERS =
     [CONNECTION, TE, ''trailer'', ''keep-alive'', ''proxy-connection'', ''proxy-authenticate'',
      ''proxy-authorization'', ''transfer-encoding'', UPGRADE]"

definition remove_hop_header :: "'h header_api \<Rightarrow> 'h \<Rightarrow> 'h" where
  "remove_hop_header H headers = foldl (\<lambda>headers key. snd (hm_remove H headers key)) headers HOP_HEADERS"

definition extract_upgrade :: "'h header_api \<Rightarrow> 'h \<Rightarrow> bytes option" where
  "extract_upgrade H headers =
     (case hm_get H headers CONNECTION of
        None \<Rightarrow> None
      | Some c \<Rightarrow>
          let s = (case hv_to_str H c of Some s \<Rightarrow> s | None \<Rightarrow> []);
              has_upgrade_token = list_ex (\<lambda>w. eq_ignore_ascii_case (trim w) UPGRADE) (split_on (CHR '','') s)
          in if \<not> has_upgrade_token then None
             else (case hm_get H headers UPGRADE of None \<Rightarrow> None | Some m \<Rightarrow> hv_to_str H m))"

section \<open>The debug view\<close>

definition SENSITIVE_HEADERS :: "bytes list" where
  "SENSITIVE_HEADERS = [''authorization'', ''proxy-authorization'', COOKIE]"

definition debug_headers :: "'h header_api \<Rightarrow> 'h \<Rightarrow> bool \<Rightarrow> (bytes \<times> bytes) list" where
  "debug_headers H headers unsafe_debug_headers =
     (let redact = (\<not> unsafe_debug_headers)
      in map (\<lambda>(name, value). if redact \<and> name \<in> set SENSITIVE_HEADERS then (name, ''<redacted>'') else (name, value))
           (hm_iter H headers))"

section \<open>What they do\<close>

text \<open>The names the first \<open>Connection\<close> line lists.\<close>

definition connection_listed :: "'h header_api \<Rightarrow> 'h \<Rightarrow> bytes list" where
  "connection_listed H h =
     (case hm_get H h CONNECTION of
        None \<Rightarrow> []
      | Some v \<Rightarrow>
          (case hv_to_str H v of
             None \<Rightarrow> []
           | Some s \<Rightarrow> map to_ascii_lowercase (filter (\<lambda>m. m \<noteq> []) (map trim (split_on (CHR '','') s)))))"

context header_laws
begin

lemma get_all_remove_connection:
  "hm_get_all H (remove_connection_header H h) k =
     (if k = CONNECTION \<or> k \<in> set (connection_listed H h) then [] else hm_get_all H h k)"
proof -
  obtain v h' where r: "hm_remove H h CONNECTION = (v, h')" by fastforce
  have v: "v = first_value (hm_get_all H h CONNECTION)" using remove_fst_law [of h CONNECTION] r by simp
  have h': "hm_get_all H h' k = (if k = CONNECTION then [] else hm_get_all H h k)" for k
    using remove_snd_law [of h CONNECTION] r by simp
  show ?thesis
    unfolding remove_connection_header_def r connection_listed_def get_law v [symmetric]
    using h' by (auto simp: get_all_remove_str_list split: option.splits)
qed

lemma get_all_remove_hop:
  "hm_get_all H (remove_hop_header H h) k = (if k \<in> set HOP_HEADERS then [] else hm_get_all H h k)"
  unfolding remove_hop_header_def by (rule get_all_remove_list)

lemma overwrite_get_all:
  assumes "add_header_entry_overwrite_if_exist H h k v = Inr h'"
  shows "hm_get_all H h' k' = (if k' = k then [v] else hm_get_all H h k')"
  using assms from_str_id
  by (auto simp: add_header_entry_overwrite_if_exist_def insert_law from_bytes_law split: if_splits)

lemma overwrite_ok:
  assumes "list_all visible_ascii v"
  shows "\<exists>h'. add_header_entry_overwrite_if_exist H h k v = Inr h'"
proof -
  have "list_all legal_value_byte v" using assms visible_legal by (auto simp: list_all_iff)
  then show ?thesis
    using assms by (auto simp: add_header_entry_overwrite_if_exist_def from_str_law from_bytes_law)
qed

lemma cookie_tokens_join:
  assumes "hm_get_all H h COOKIE = [join ''; '' vs]" and "vs \<noteq> []" and "\<forall>v \<in> set vs. list_all visible_ascii v"
  shows "cookie_tokens H h = concat (map (\<lambda>v. map trim (split_on (CHR '';'') v)) vs)"
proof -
  have "map trim (split_on (CHR '';'') (join ''; '' vs)) = concat (map (\<lambda>v. map trim (split_on (CHR '';'') v)) vs)"
    using assms(2)
  proof (induction vs)
    case (Cons v vs)
    then show ?case
      by (cases vs) (simp_all add: split_on_append_sep map_trim_split_on_ws is_whitespace_def byte_def)
  qed simp
  moreover have "list_all visible_ascii (join ''; '' vs)"
    using assms(3) by (intro list_all_join) (auto simp: list_all_iff visible_ascii_def byte_def)
  ultimately show ?thesis using assms(1) by (simp add: cookie_tokens_def to_str_law)
qed

lemma make_cookie_single_line_ok:
  obtains h' where "make_cookie_single_line H h = Inr h'" and "length (hm_get_all H h' COOKIE) \<le> 1"
    and "cookie_tokens H h' = cookie_tokens H h" and "\<And>k. k \<noteq> COOKIE \<Longrightarrow> hm_get_all H h' k = hm_get_all H h k"
proof (cases "length (hm_get_all H h COOKIE) < 2")
  case True
  then show ?thesis using that [of h] by (simp add: make_cookie_single_line_def)
next
  case False
  define vs where "vs = map (\<lambda>v. case hv_to_str H v of Some s \<Rightarrow> s | None \<Rightarrow> []) (hm_get_all H h COOKIE)"
  have ne: "vs \<noteq> []" using False by (auto simp: vs_def)
  have vis: "\<forall>v \<in> set vs. list_all visible_ascii v" by (auto simp: vs_def to_str_law)
  then have "list_all visible_ascii (join ''; '' vs)"
    by (intro list_all_join) (auto simp: list_all_iff visible_ascii_def byte_def)
  then have leg: "list_all legal_value_byte (join ''; '' vs)" using visible_legal by (auto simp: list_all_iff)
  let ?h' = "hm_insert H (snd (hm_remove H h COOKIE)) COOKIE (join ''; '' vs)"
  have "make_cookie_single_line H h = Inr ?h'"
    using False leg by (simp add: make_cookie_single_line_def Let_def vs_def [symmetric] from_bytes_law)
  moreover have "cookie_tokens H ?h' = cookie_tokens H h"
    by (subst cookie_tokens_join [OF _ ne vis])
      (simp_all add: insert_law cookie_tokens_def vs_def o_def)
  ultimately show ?thesis using that [of ?h'] by (simp add: insert_law remove_snd_law)
qed

end

text \<open>
  Removing the connection and hop-by-hop headers leaves exactly the end-to-end headers: the nine
  hop-by-hop headers are gone, every header the \<open>Connection\<close> line names is gone whatever its
  letter case, and every other header keeps its values.
\<close>

theorem hop_headers_removed:
  assumes "header_laws H"
  shows "hm_get_all H (remove_hop_header H (remove_connection_header H h)) k =
           (if k \<in> set HOP_HEADERS \<or> k \<in> set (connection_listed H h) then [] else hm_get_all H h k)"
  using header_laws.get_all_remove_hop [OF assms] header_laws.get_all_remove_connection [OF assms]
  by (simp add: HOP_HEADERS_def)

theorem hop_headers_removed_witness:
  "lines_get_all (remove_hop_header lines_api (remove_connection_header lines_api
       [(CONNECTION, ''close, X-Foo''), (''x-foo'', ''1''), (''te'', ''trailers''), (''a'', ''2'')])) ''x-foo'' = []"
proof -
  let ?h = "[(CONNECTION, ''close, X-Foo''), (''x-foo'', ''1''), (''te'', ''trailers''), (''a'', ''2'')]"
  have "char_of (120 :: nat) = CHR ''x''" "char_of (102 :: nat) = CHR ''f''"
    using char_of_char [of "CHR ''x''", where 'a = nat] char_of_char [of "CHR ''f''", where 'a = nat] by simp_all
  then have "''x-foo'' \<in> set (connection_listed lines_api ?h)"
    by (simp add: connection_listed_def lines_api_def lines_get_all_def split_on_def trim_def rust_simps
        visible_ascii_def to_ascii_lowercase_def lower_char_def)
  then show ?thesis
    using hop_headers_removed [OF header_lines.header_laws_axioms, of ?h "''x-foo''"] by (simp add: lines_api_def)
qed

text \<open>
  Only the first \<open>Connection\<close> line is read: a header that a second line names is forwarded, although
  the documentation of \<open>remove_connection_header\<close> promises to remove every header it lists.
\<close>

lemma second_connection_line_ignored:
  "lines_get_all (remove_hop_header lines_api (remove_connection_header lines_api
       [(CONNECTION, ''close''), (CONNECTION, ''x-foo''), (''x-foo'', ''1'')])) ''x-foo'' = [''1'']"
proof -
  let ?h = "[(CONNECTION, ''close''), (CONNECTION, ''x-foo''), (''x-foo'', ''1'')]"
  have "connection_listed lines_api ?h = [''close'']"
    by (simp add: connection_listed_def lines_api_def lines_get_all_def split_on_def trim_def rust_simps
        visible_ascii_def to_ascii_lowercase_def lower_char_def)
  then show ?thesis
    using header_lines.get_all_remove_hop [of "remove_connection_header lines_api ?h" "''x-foo''"]
      header_lines.get_all_remove_connection [of ?h "''x-foo''"]
    by (simp add: lines_api_def HOP_HEADERS_def header_name_defs lines_get_all_def)
qed

end
