(* ===== verification/Forwarding.thy ===== *)
theory Forwarding
  imports Header_Common
begin

text \<open>
  The forwarding headers of \<open>message_handler/header_ops/forwarding.rs\<close>: reading the chain of hops
  from \<open>Forwarded\<close> (RFC 7239) and \<open>X-Forwarded-*\<close>, cutting it at the trust boundary, and writing
  the outgoing headers from the normalised chain; the client-visible scheme; and the upstream
  header options of \<open>header_ops/upstream.rs\<close>.
\<close>

section \<open>The chain\<close>

text \<open>\<open>ipnet::IpNet::contains\<close> and \<open>from_str\<close>, and \<open>itoa::Buffer::format\<close> of an octet.\<close>

record 'n net_api =
  net_contains :: "'n \<Rightarrow> ip_addr \<Rightarrow> bool"
  net_from_str :: "bytes \<Rightarrow> 'n option"
  itoa_u8 :: "u8 \<Rightarrow> bytes"

datatype forwarded_node_raw = RawIp | RawUnknown | RawObfuscated bytes

datatype forwarded_port = PortNumeric u16 | PortObfuscated bytes

record forwarded_node =
  fn_ip :: "ip_addr option"
  fn_port :: "forwarded_port option"
  fn_raw :: forwarded_node_raw

record forwarded_entry =
  fe_for :: forwarded_node
  fe_proto :: "bytes option"
  fe_host :: "bytes option"
  fe_by :: "bytes option"

section \<open>Reading header values\<close>

definition first_header_value :: "'h header_api \<Rightarrow> 'h \<Rightarrow> bytes \<Rightarrow> anyhow + bytes option" where
  "first_header_value H headers key =
     (case hm_get H headers key of
        None \<Rightarrow> Inr None
      | Some v \<Rightarrow> rbind (ok_or (hv_to_str H v) (Anyhow ''invalid header value'')) (\<lambda>s. Inr (Some s)))"

definition join_header_values :: "'h header_api \<Rightarrow> 'h \<Rightarrow> bytes \<Rightarrow> anyhow + bytes option" where
  "join_header_values H headers key =
     (case hm_get_all H headers key of
        [] \<Rightarrow> Inr None
      | vs \<Rightarrow>
          rbind (try_map (\<lambda>v. ok_or (hv_to_str H v) (Anyhow ''invalid header value'')) vs)
            (\<lambda>ss. Inr (Some (join '', '' ss))))"

text \<open>
  The scanner of \<open>split_respecting_quotes\<close>: the segment read so far (reversed), the quote and escape
  flags, the rest of the input.
\<close>

fun split_quotes_scan :: "char \<Rightarrow> bytes \<Rightarrow> bool \<Rightarrow> bool \<Rightarrow> bytes \<Rightarrow> bytes list" where
  "split_quotes_scan d acc in_quotes escaped [] = [trim (rev acc)]"
| "split_quotes_scan d acc in_quotes escaped (b # bs) =
     (if escaped then split_quotes_scan d (b # acc) in_quotes False bs
      else if b = CHR 0x5C \<and> in_quotes then split_quotes_scan d (b # acc) in_quotes True bs
      else if b = CHR 0x22 then split_quotes_scan d (b # acc) (\<not> in_quotes) False bs
      else if b = d \<and> \<not> in_quotes then trim (rev acc) # split_quotes_scan d [] in_quotes False bs
      else split_quotes_scan d (b # acc) in_quotes False bs)"

definition split_respecting_quotes :: "bytes \<Rightarrow> char \<Rightarrow> bytes list" where
  "split_respecting_quotes input d = split_quotes_scan d [] False False input"

fun unescape :: "bool \<Rightarrow> bytes \<Rightarrow> bytes option" where
  "unescape escaped [] = (if escaped then None else Some [])"
| "unescape escaped (c # cs) =
     (if escaped then map_option ((#) c) (unescape False cs)
      else if c = CHR 0x5C then unescape True cs
      else map_option ((#) c) (unescape False cs))"

definition unquote_http_value :: "bytes \<Rightarrow> anyhow + bytes" where
  "unquote_http_value value =
     (let trimmed = trim value
      in if \<not> starts_with trimmed [CHR 0x22] then Inr trimmed
         else
           case (case strip_prefix [CHR 0x22] trimmed of None \<Rightarrow> None | Some s \<Rightarrow> strip_suffix [CHR 0x22] s) of
             None \<Rightarrow> Inl (Anyhow ''unterminated quoted-string'')
           | Some inner \<Rightarrow> ok_or (unescape False inner) (Anyhow ''unterminated escape sequence in quoted-string''))"

section \<open>Reading nodes\<close>

definition is_forwarded_obfuscated_id :: "bytes \<Rightarrow> bool" where
  "is_forwarded_obfuscated_id s =
     (case strip_prefix ''_'' s of
        None \<Rightarrow> False
      | Some rest \<Rightarrow> rest \<noteq> [] \<and> list_all (\<lambda>b. is_ascii_alphanumeric b \<or> b \<in> set ''._-'') rest)"

definition parse_forwarded_port :: "bytes \<Rightarrow> anyhow + forwarded_port" where
  "parse_forwarded_port port =
     (if starts_with port ''_'' then
        (if is_forwarded_obfuscated_id port then Inr (PortObfuscated port)
         else Inl (Anyhow ''invalid forwarded obfport''))
      else if port = [] \<or> 5 < length port \<or> \<not> list_all is_ascii_digit port then Inl (Anyhow ''invalid forwarded port'')
      else rbind (ok_or (parse_uint 65535 port) (Anyhow ''invalid forwarded port'')) (\<lambda>n. Inr (PortNumeric (of_nat n))))"

abbreviation ip_node :: "ip_addr \<Rightarrow> forwarded_port option \<Rightarrow> forwarded_node" where
  "ip_node ip port \<equiv> \<lparr>fn_ip = Some ip, fn_port = port, fn_raw = RawIp\<rparr>"

definition parse_ip :: "bytes \<Rightarrow> anyhow + ip_addr" where
  "parse_ip s = rbind (ok_or (ip_from_str s) (Anyhow ''invalid forwarded address'')) (\<lambda>ip. Inr (canonicalize_ip ip))"

definition unbracket :: "bytes \<Rightarrow> bytes option" where
  "unbracket s = (case strip_prefix ''['' s of None \<Rightarrow> None | Some t \<Rightarrow> strip_suffix '']'' t)"

text \<open>The part of \<open>parse_forwarded_node\<close> after its checks for a port.\<close>

definition parse_node_no_port :: "bytes \<Rightarrow> anyhow + forwarded_node" where
  "parse_node_no_port trimmed =
     (case unbracket trimmed of
        Some inner \<Rightarrow> rbind (parse_ip inner) (\<lambda>ip. Inr (ip_node ip None))
      | None \<Rightarrow>
          if is_forwarded_obfuscated_id trimmed
          then Inr \<lparr>fn_ip = None, fn_port = None, fn_raw = RawObfuscated trimmed\<rparr>
          else if starts_with trimmed ''_'' then Inl (Anyhow ''invalid forwarded obfnode'')
          else rbind (parse_ip trimmed) (\<lambda>ip. Inr (ip_node ip None)))"

definition parse_forwarded_node :: "bytes \<Rightarrow> anyhow + forwarded_node" where
  "parse_forwarded_node token =
     rbind (unquote_http_value token) (\<lambda>trimmed.
       if eq_ignore_ascii_case trimmed ''unknown'' then Inr \<lparr>fn_ip = None, fn_port = None, fn_raw = RawUnknown\<rparr>
       else
         case (if starts_with trimmed ''[''
               then (case rsplit_once (CHR '':'') trimmed of
                       None \<Rightarrow> None
                     | Some (node, port) \<Rightarrow> map_option (\<lambda>inner. (inner, port)) (unbracket node))
               else None) of
           Some (inner, port) \<Rightarrow>
             rbind (parse_ip inner) (\<lambda>ip.
             rbind (parse_forwarded_port port) (\<lambda>p. Inr (ip_node ip (Some p))))
         | None \<Rightarrow>
             if length (filter (\<lambda>c. c = CHR '':'') trimmed) = 1 then
               (case rsplit_once (CHR '':'') trimmed of
                  None \<Rightarrow> parse_node_no_port trimmed
                | Some (node, port) \<Rightarrow>
                    if eq_ignore_ascii_case node ''unknown'' then
                      rbind (parse_forwarded_port port) (\<lambda>p.
                        Inr \<lparr>fn_ip = None, fn_port = Some p, fn_raw = RawUnknown\<rparr>)
                    else if is_forwarded_obfuscated_id node then
                      rbind (parse_forwarded_port port) (\<lambda>p.
                        Inr \<lparr>fn_ip = None, fn_port = Some p, fn_raw = RawObfuscated node\<rparr>)
                    else if starts_with node ''_'' then Inl (Anyhow ''invalid forwarded obfnode'')
                    else
                      (case ip_from_str node of
                         Some ip \<Rightarrow>
                           rbind (parse_forwarded_port port) (\<lambda>p. Inr (ip_node (canonicalize_ip ip) (Some p)))
                       | None \<Rightarrow> parse_node_no_port trimmed))
             else parse_node_no_port trimmed)"

definition parse_forwarded_ip_token :: "bytes \<Rightarrow> anyhow + ip_addr" where
  "parse_forwarded_ip_token token =
     rbind (parse_forwarded_node token) (\<lambda>n. ok_or (fn_ip n) (Anyhow ''forwarded node is not an IP address''))"

section \<open>Reading headers\<close>

definition parse_x_forwarded_for_header :: "'h header_api \<Rightarrow> 'h \<Rightarrow> bytes option \<Rightarrow> anyhow + forwarded_entry list" where
  "parse_x_forwarded_for_header H headers authoritative_host =
     rbind (join_header_values H headers X_FORWARDED_FOR) (\<lambda>xff_opt.
     rbind (ok_or xff_opt (Anyhow ''x-forwarded-for header missing'')) (\<lambda>xff.
     rbind (first_header_value H headers X_FORWARDED_PROTO) (\<lambda>xfp_opt.
       let xf_proto = map_option trim xfp_opt;
           ips = filter (\<lambda>s. s \<noteq> []) (map trim (split_on (CHR '','') xff));
           last_idx = length ips - 1
       in try_map (\<lambda>(idx, ip).
            rbind (parse_forwarded_ip_token ip) (\<lambda>for_ip.
              Inr \<lparr>fe_for = ip_node for_ip None,
                   fe_proto = (if idx = last_idx then xf_proto else None),
                   fe_host = (if idx = last_idx then authoritative_host else None),
                   fe_by = None\<rparr>)) (enumerate 0 ips))))"

record forwarded_params =
  fp_for :: "forwarded_node option"
  fp_proto :: "bytes option"
  fp_host :: "bytes option"
  fp_by :: "bytes option"

definition parse_forwarded_param :: "forwarded_params \<Rightarrow> bytes \<Rightarrow> anyhow + forwarded_params" where
  "parse_forwarded_param ps param =
     (case split_once (CHR ''='') param of
        None \<Rightarrow> Inr ps
      | Some (key, value) \<Rightarrow>
          let key = to_ascii_lowercase (trim key); value = trim value
          in if key = ''for'' then
               (if fp_for ps \<noteq> None then Inl (Anyhow ''duplicate for'')
                else rbind (parse_forwarded_node value) (\<lambda>n. Inr (ps\<lparr>fp_for := Some n\<rparr>)))
             else if key = ''proto'' then
               (if fp_proto ps \<noteq> None then Inl (Anyhow ''duplicate proto'')
                else rbind (unquote_http_value value) (\<lambda>v. Inr (ps\<lparr>fp_proto := Some v\<rparr>)))
             else if key = ''host'' then
               (if fp_host ps \<noteq> None then Inl (Anyhow ''duplicate host'')
                else rbind (unquote_http_value value) (\<lambda>v. Inr (ps\<lparr>fp_host := Some v\<rparr>)))
             else if key = ''by'' then
               (if fp_by ps \<noteq> None then Inl (Anyhow ''duplicate by'')
                else rbind (unquote_http_value value) (\<lambda>v. Inr (ps\<lparr>fp_by := Some v\<rparr>)))
             else Inr ps)"

fun parse_forwarded_params :: "forwarded_params \<Rightarrow> bytes list \<Rightarrow> anyhow + forwarded_params" where
  "parse_forwarded_params ps [] = Inr ps"
| "parse_forwarded_params ps (p # rest) =
     rbind (parse_forwarded_param ps p) (\<lambda>ps. parse_forwarded_params ps rest)"

definition parse_forwarded_header_entry :: "bytes \<Rightarrow> anyhow + forwarded_entry" where
  "parse_forwarded_header_entry entry =
     rbind (parse_forwarded_params \<lparr>fp_for = None, fp_proto = None, fp_host = None, fp_by = None\<rparr>
              (filter (\<lambda>p. p \<noteq> []) (split_respecting_quotes entry (CHR '';'')))) (\<lambda>ps.
     rbind (ok_or (fp_for ps) (Anyhow ''forwarded header entry missing for= parameter'')) (\<lambda>n.
       Inr \<lparr>fe_for = n, fe_proto = fp_proto ps, fe_host = fp_host ps, fe_by = fp_by ps\<rparr>))"

definition parse_forwarded_header :: "'h header_api \<Rightarrow> 'h \<Rightarrow> anyhow + forwarded_entry list" where
  "parse_forwarded_header H headers =
     rbind (join_header_values H headers FORWARDED) (\<lambda>fwd_opt.
     rbind (ok_or fwd_opt (Anyhow ''forwarded header missing'')) (\<lambda>forwarded.
       try_map parse_forwarded_header_entry
         (filter (\<lambda>e. e \<noteq> []) (split_respecting_quotes forwarded (CHR '','')))))"

definition forwarded_is_consistent :: "forwarded_entry list \<Rightarrow> forwarded_entry list \<Rightarrow> bool" where
  "forwarded_is_consistent forwarded xff_chain =
     (if length forwarded \<noteq> length xff_chain then False
      else if map (\<lambda>e. fn_ip (fe_for e)) forwarded \<noteq> map (\<lambda>e. fn_ip (fe_for e)) xff_chain then False
      else
        case (if forwarded = [] then None else fe_proto (last forwarded),
              if xff_chain = [] then None else fe_proto (last xff_chain)) of
          (Some forwarded_proto, Some proto) \<Rightarrow> eq_ignore_ascii_case forwarded_proto (trim proto)
        | _ \<Rightarrow> True)"

definition extract_forwarding_chain_from_headers :: "'h header_api \<Rightarrow> 'h \<Rightarrow> bytes option \<Rightarrow>
    anyhow + forwarded_entry list option" where
  "extract_forwarding_chain_from_headers H headers authoritative_host =
     rbind (if hm_contains_key H headers X_FORWARDED_FOR
            then rbind (parse_x_forwarded_for_header H headers authoritative_host) (\<lambda>c. Inr (Some c))
            else Inr None) (\<lambda>xff_chain.
     rbind (if hm_contains_key H headers FORWARDED
            then (case parse_forwarded_header H headers of
                    Inr chain \<Rightarrow> Inr (Some chain)
                  | Inl e \<Rightarrow> if xff_chain \<noteq> None then Inr None else Inl e)
            else Inr None) (\<lambda>forwarded_chain.
       case (forwarded_chain, xff_chain) of
         (Some forwarded, Some xff) \<Rightarrow>
           if forwarded_is_consistent forwarded xff then Inr (Some forwarded) else Inr (Some xff)
       | (Some forwarded, None) \<Rightarrow> Inr (Some forwarded)
       | (None, Some xff) \<Rightarrow> Inr (Some xff)
       | (None, None) \<Rightarrow> Inr None))"

section \<open>Trust\<close>

definition is_trusted_proxy :: "'n net_api \<Rightarrow> 'n list \<Rightarrow> ip_addr \<Rightarrow> bool" where
  "is_trusted_proxy N trusted ip = list_ex (\<lambda>net. net_contains N net (canonicalize_ip ip)) trusted"

definition entry_is_trusted_proxy :: "'n net_api \<Rightarrow> 'n list \<Rightarrow> forwarded_entry \<Rightarrow> bool" where
  "entry_is_trusted_proxy N trusted entry =
     (case fn_ip (fe_for entry) of None \<Rightarrow> False | Some ip \<Rightarrow> is_trusted_proxy N trusted ip)"

fun trust_boundary :: "'n net_api \<Rightarrow> 'n list \<Rightarrow> forwarded_entry list \<Rightarrow> nat \<Rightarrow> nat" where
  "trust_boundary N trusted chain 0 = 0"
| "trust_boundary N trusted chain (Suc idx) =
     (if entry_is_trusted_proxy N trusted (chain ! idx) then trust_boundary N trusted chain idx else Suc idx)"

definition reduce_trusted_proxy_chain :: "'n net_api \<Rightarrow> 'n list \<Rightarrow> forwarded_entry list \<Rightarrow> forwarded_entry list" where
  "reduce_trusted_proxy_chain N trusted chain =
     (let idx = trust_boundary N trusted chain (length chain)
      in if idx = 0 then chain else drop (idx - 1) chain)"

definition build_peer_forwarded_entry :: "ip_addr \<Rightarrow> bool \<Rightarrow> bytes option \<Rightarrow> forwarded_entry" where
  "build_peer_forwarded_entry peer_ip tls authoritative_host =
     \<lparr>fe_for = ip_node peer_ip None,
      fe_proto = (if tls then Some ''https'' else Some ''http''),
      fe_host = authoritative_host,
      fe_by = None\<rparr>"

definition normalize_forwarding_chain :: "'h header_api \<Rightarrow> 'n net_api \<Rightarrow> 'h \<Rightarrow> ip_addr \<Rightarrow> bool \<Rightarrow> bytes option \<Rightarrow>
    'n list \<Rightarrow> forwarded_entry list" where
  "normalize_forwarding_chain H N headers peer_ip tls authoritative_host trusted =
     (let peer_entry = build_peer_forwarded_entry peer_ip tls authoritative_host
      in if \<not> is_trusted_proxy N trusted peer_ip then [peer_entry]
         else
           case extract_forwarding_chain_from_headers H headers None of
             Inr (Some chain) \<Rightarrow>
               if chain = [] then [peer_entry]
               else
                 let normalized_chain = reduce_trusted_proxy_chain N trusted (chain @ [peer_entry])
                 in if normalized_chain = [] then [build_peer_forwarded_entry peer_ip tls authoritative_host]
                    else normalized_chain
           | Inr None \<Rightarrow> [peer_entry]
           | Inl _ \<Rightarrow> [peer_entry])"

section \<open>Writing\<close>

fun push_ipv4 :: "'n net_api \<Rightarrow> ipv4 \<Rightarrow> bytes" where
  "push_ipv4 N (Ipv4Addr a b c d) =
     itoa_u8 N a @ ''.'' @ itoa_u8 N b @ ''.'' @ itoa_u8 N c @ ''.'' @ itoa_u8 N d"

fun push_ip_addr :: "'n net_api \<Rightarrow> ip_addr \<Rightarrow> bytes" where
  "push_ip_addr N (V4 v4) = push_ipv4 N v4"
| "push_ip_addr N (V6 v6) = display_ipv6 v6"

definition xff_csv_from_chain :: "'n net_api \<Rightarrow> forwarded_entry list \<Rightarrow> (bytes \<times> nat) option" where
  "xff_csv_from_chain N chain =
     (if chain = [] then None
      else if list_ex (\<lambda>e. fn_ip (fe_for e) = None) chain then None
      else
        let ips = map (\<lambda>e. push_ip_addr N (the (fn_ip (fe_for e)))) chain
        in Some (join '', '' ips, length (hd ips)))"

definition is_tchar :: "char \<Rightarrow> bool" where
  "is_tchar c \<longleftrightarrow> c \<in> set ''!#$%&*+-.^_`|~'' \<or> byte c = 39 \<or> is_ascii_alphanumeric c"

definition escape_quoted :: "bytes \<Rightarrow> bytes" where
  "escape_quoted v = concat (map (\<lambda>ch. if ch = CHR 0x5C \<or> ch = CHR 0x22 then [CHR 0x5C, ch] else [ch]) v)"

definition write_forwarded_param_value :: "bytes \<Rightarrow> bytes" where
  "write_forwarded_param_value value =
     (if value \<noteq> [] \<and> list_all is_tchar value then value
      else [CHR 0x22] @ escape_quoted value @ [CHR 0x22])"

fun push_forwarded_port :: "forwarded_port \<Rightarrow> bytes" where
  "push_forwarded_port (PortNumeric p) = show_nat (unat p)"
| "push_forwarded_port (PortObfuscated s) = s"

definition write_forwarded_node :: "'n net_api \<Rightarrow> forwarded_node \<Rightarrow> anyhow + bytes" where
  "write_forwarded_node N node =
     (case (fn_raw node, fn_ip node, fn_port node) of
        (RawIp, Some (V4 v4), None) \<Rightarrow> Inr (push_ipv4 N v4)
      | (RawIp, Some (V4 v4), Some p) \<Rightarrow>
          Inr ([CHR 0x22] @ push_ipv4 N v4 @ '':'' @ push_forwarded_port p @ [CHR 0x22])
      | (RawIp, Some (V6 v6), None) \<Rightarrow> Inr ([CHR 0x22] @ ''['' @ display_ipv6 v6 @ '']'' @ [CHR 0x22])
      | (RawIp, Some (V6 v6), Some p) \<Rightarrow>
          Inr ([CHR 0x22] @ ''['' @ display_ipv6 v6 @ '']:'' @ push_forwarded_port p @ [CHR 0x22])
      | (RawUnknown, None, None) \<Rightarrow> Inr ''unknown''
      | (RawUnknown, None, Some p) \<Rightarrow> Inr ([CHR 0x22] @ ''unknown:'' @ push_forwarded_port p @ [CHR 0x22])
      | (RawObfuscated n, None, None) \<Rightarrow> Inr n
      | (RawObfuscated n, None, Some p) \<Rightarrow> Inr ([CHR 0x22] @ n @ '':'' @ push_forwarded_port p @ [CHR 0x22])
      | _ \<Rightarrow> Inl (Anyhow ''invalid forwarded node state''))"

definition write_param :: "bytes \<Rightarrow> bytes option \<Rightarrow> bytes" where
  "write_param key v = (case v of None \<Rightarrow> [] | Some v \<Rightarrow> '';'' @ key @ ''='' @ write_forwarded_param_value v)"

definition write_forwarded_entry :: "'n net_api \<Rightarrow> forwarded_entry \<Rightarrow> anyhow + bytes" where
  "write_forwarded_entry N entry =
     rbind (write_forwarded_node N (fe_for entry)) (\<lambda>n.
       Inr (''for='' @ n @ write_param ''proto'' (fe_proto entry) @ write_param ''host'' (fe_host entry) @
            write_param ''by'' (fe_by entry)))"

definition generate_forwarded_header :: "'n net_api \<Rightarrow> forwarded_entry list \<Rightarrow> anyhow + bytes" where
  "generate_forwarded_header N chain =
     (if chain = [] then Inl (Anyhow ''No forwarding chain found for Forwarded generation'')
      else rbind (try_map (write_forwarded_entry N) chain) (\<lambda>es. Inr (join '', '' es)))"

section \<open>The outgoing headers\<close>

definition overwrite_x_forwarded_host_from_original :: "'h header_api \<Rightarrow> 'h \<Rightarrow> bytes option \<Rightarrow> anyhow + 'h" where
  "overwrite_x_forwarded_host_from_original H headers authoritative_host =
     (case authoritative_host of
        Some host \<Rightarrow>
          rbind (ok_or (hv_from_str H host) (Anyhow ''invalid header value'')) (\<lambda>v.
            Inr (hm_insert H headers X_FORWARDED_HOST v))
      | None \<Rightarrow> Inr (snd (hm_remove H headers X_FORWARDED_HOST)))"

definition add_forwarding_header :: "'h header_api \<Rightarrow> 'u uri_api \<Rightarrow> 'n net_api \<Rightarrow> 'h \<Rightarrow> socket_addr \<Rightarrow> socket_addr \<Rightarrow>
    bool \<Rightarrow> 'u \<Rightarrow> bytes option \<Rightarrow> 'n list \<Rightarrow> anyhow + 'h" where
  "add_forwarding_header H U N headers client_addr listen_addr tls original_uri authoritative_host trusted =
     (let peer_ip = canonicalize_ip (sa_ip (to_canonical client_addr));
          has_forwarded = hm_contains_key H headers FORWARDED;
          chain = normalize_forwarding_chain H N headers peer_ip tls authoritative_host trusted;
          (chain, xff_csv, xff_first_len) =
            (case xff_csv_from_chain N chain of
               Some (csv, first_len) \<Rightarrow> (chain, csv, first_len)
             | None \<Rightarrow>
                 ([build_peer_forwarded_entry peer_ip tls authoritative_host], push_ip_addr N peer_ip,
                  length (push_ip_addr N peer_ip)))
      in rbind (ok_or (hv_from_str H (take xff_first_len xff_csv)) (Anyhow ''invalid header value'')) (\<lambda>x_real_ip_value.
         rbind (ok_or (hv_from_str H xff_csv) (Anyhow ''invalid header value'')) (\<lambda>xff_value.
         let headers = hm_insert H headers X_FORWARDED_FOR xff_value
         in rbind (if has_forwarded
                   then (case generate_forwarded_header N chain of
                           Inr forwarded_value \<Rightarrow> add_header_entry_overwrite_if_exist H headers FORWARDED forwarded_value
                         | Inl _ \<Rightarrow> Inr headers)
                   else Inr (snd (hm_remove H headers FORWARDED))) (\<lambda>headers.
            rbind (make_cookie_single_line H headers) (\<lambda>headers.
            let headers = hm_insert H headers X_FORWARDED_PROTO (if tls then ''https'' else ''http'');
                headers = hm_insert H headers X_FORWARDED_PORT (show_nat (unat (sa_port listen_addr)));
                headers = hm_insert H headers X_REAL_IP x_real_ip_value;
                headers = hm_insert H headers X_FORWARDED_SSL (if tls then ''on'' else ''off'')
            in rbind (add_header_entry_overwrite_if_exist H headers X_ORIGINAL_URI (uri_display U original_uri)) (\<lambda>headers.
               rbind (overwrite_x_forwarded_host_from_original H headers authoritative_host) (\<lambda>headers.
               Inr (hm_insert H headers PROXY []))))))))"

section \<open>The client-visible scheme\<close>

definition xforwarded_proto_first :: "'h header_api \<Rightarrow> 'h \<Rightarrow> unit + bytes option" where
  "xforwarded_proto_first H headers =
     (case join_header_values H headers X_FORWARDED_PROTO of
        Inl _ \<Rightarrow> Inl ()
      | Inr None \<Rightarrow> Inr None
      | Inr (Some raw) \<Rightarrow>
          let first = trim (hd (split_on (CHR '','') raw))
          in Inr (if first = [] then None else Some first))"

fun first_proto_param :: "bytes list \<Rightarrow> unit + bytes option" where
  "first_proto_param [] = Inr None"
| "first_proto_param (param # ps) =
     (case split_once (CHR ''='') param of
        None \<Rightarrow> first_proto_param ps
      | Some (key, value) \<Rightarrow>
          if \<not> eq_ignore_ascii_case (trim key) ''proto'' then first_proto_param ps
          else
            (case unquote_http_value (trim value) of
               Inr v \<Rightarrow> Inr (if v \<noteq> [] then Some v else None)
             | Inl _ \<Rightarrow> Inl ()))"

definition forwarded_first_proto :: "'h header_api \<Rightarrow> 'h \<Rightarrow> unit + bytes option" where
  "forwarded_first_proto H headers =
     (case join_header_values H headers FORWARDED of
        Inl _ \<Rightarrow> Inl ()
      | Inr None \<Rightarrow> Inr None
      | Inr (Some raw) \<Rightarrow>
          (case filter (\<lambda>e. e \<noteq> []) (split_respecting_quotes raw (CHR '','')) of
             [] \<Rightarrow> Inr None
           | first_entry # _ \<Rightarrow>
               first_proto_param (filter (\<lambda>p. p \<noteq> []) (split_respecting_quotes first_entry (CHR '';'')))))"

definition client_visible_scheme :: "'h header_api \<Rightarrow> 'n net_api \<Rightarrow> bool \<Rightarrow> socket_addr \<Rightarrow> 'h \<Rightarrow> 'n list \<Rightarrow> bytes" where
  "client_visible_scheme H N tls_enabled client_addr headers trusted =
     (if tls_enabled then ''https''
      else
        let peer_ip = canonicalize_ip (sa_ip (to_canonical client_addr))
        in if \<not> is_trusted_proxy N trusted peer_ip then ''http''
           else
             case (case xforwarded_proto_first H headers of
                     Inl _ \<Rightarrow> Inl ()
                   | Inr (Some s) \<Rightarrow> Inr (Some s)
                   | Inr None \<Rightarrow> forwarded_first_proto H headers) of
               Inl _ \<Rightarrow> ''http''
             | Inr scheme \<Rightarrow>
                 (case scheme of
                    Some s \<Rightarrow> if eq_ignore_ascii_case s ''https'' then ''https'' else ''http''
                  | None \<Rightarrow> ''http''))"

definition client_visible_secure :: "'h header_api \<Rightarrow> 'n net_api \<Rightarrow> bool \<Rightarrow> socket_addr \<Rightarrow> 'h \<Rightarrow> 'n list \<Rightarrow> bool" where
  "client_visible_secure H N tls_enabled client_addr headers trusted \<longleftrightarrow>
     client_visible_scheme H N tls_enabled client_addr headers trusted = ''https''"

definition build_client_facing_effective_uri :: "'u uri_api \<Rightarrow> bytes \<Rightarrow> bytes option \<Rightarrow> 'u \<Rightarrow> 'u option" where
  "build_client_facing_effective_uri U scheme authority original_uri =
     (case authority of
        None \<Rightarrow> None
      | Some authority \<Rightarrow>
          let path_and_query = (case uri_path_and_query U original_uri of Some pq \<Rightarrow> pq | None \<Rightarrow> ''/'')
          in uri_build U scheme authority path_and_query)"

section \<open>Upstream header options\<close>

definition override_host_header :: "'h header_api \<Rightarrow> 'h \<Rightarrow> bytes option \<Rightarrow> anyhow + 'h" where
  "override_host_header H headers host_header =
     rbind (ok_or host_header (Anyhow ''No hostname is given'')) (\<lambda>v. Inr (hm_insert H headers HOST v))"

definition apply_default_app_host_rewrite :: "'h header_api \<Rightarrow> 'h \<Rightarrow> server_name \<Rightarrow> anyhow + 'h" where
  "apply_default_app_host_rewrite H headers authoritative_host =
     rbind (ok_or (hv_from_bytes H (sn_inner authoritative_host)) (Anyhow ''invalid header value'')) (\<lambda>v.
       Inr (hm_insert H headers HOST v))"

definition UPGRADE_INSECURE_REQUESTS :: bytes where
  "UPGRADE_INSECURE_REQUESTS = ''upgrade-insecure-requests''"

definition apply_upstream_options_to_header :: "'h header_api \<Rightarrow> 'n net_api \<Rightarrow> 'h \<Rightarrow> bytes option \<Rightarrow> 'u upstream \<Rightarrow>
    'u candidates \<Rightarrow> 'n list \<Rightarrow> anyhow + 'h" where
  "apply_upstream_options_to_header H N headers authoritative_host upstream_chosen upstream_candidates trusted =
     (let options = set (uc_options upstream_candidates)
      in rbind (if SetUpstreamHost \<in> options \<and> KeepOriginalHost \<notin> options
                then override_host_header H headers (up_host_header upstream_chosen)
                else Inr headers) (\<lambda>headers.
         let headers =
           (if UpgradeInsecureRequests \<in> options \<and> \<not> hm_contains_key H headers UPGRADE_INSECURE_REQUESTS
            then hm_insert H headers UPGRADE_INSECURE_REQUESTS ''1'' else headers)
         in if ForwardedHeader \<in> options \<and> \<not> hm_contains_key H headers FORWARDED then
              rbind (extract_forwarding_chain_from_headers H headers authoritative_host) (\<lambda>chain_opt.
                case chain_opt of
                  None \<Rightarrow> Inr headers
                | Some forwarding_chain \<Rightarrow>
                    (case generate_forwarded_header N (reduce_trusted_proxy_chain N trusted forwarding_chain) of
                       Inr forwarded_value \<Rightarrow> add_header_entry_overwrite_if_exist H headers FORWARDED forwarded_value
                     | Inl _ \<Rightarrow> Inr headers))
            else Inr headers))"

section \<open>The trust boundary\<close>

lemma trust_boundary_le: "trust_boundary N t chain n \<le> n"
  by (induction n) auto

lemma trust_boundary_suffix:
  "trust_boundary N t chain n \<le> i \<Longrightarrow> i < n \<Longrightarrow> entry_is_trusted_proxy N t (chain ! i)"
proof (induction n)
  case (Suc n)
  show ?case
  proof (cases "entry_is_trusted_proxy N t (chain ! n)")
    case True
    then show ?thesis using Suc by (cases "i = n") simp_all
  next
    case False
    then show ?thesis using Suc.prems by simp
  qed
qed simp

lemma trust_boundary_pos:
  "0 < trust_boundary N t chain n \<Longrightarrow> \<not> entry_is_trusted_proxy N t (chain ! (trust_boundary N t chain n - 1))"
  by (induction n) (auto split: if_splits)

text \<open>
  What the reduction keeps: the whole chain when every hop is trusted, otherwise the suffix that
  begins at the last hop that is not trusted.
\<close>

lemma reduce_all_trusted:
  "list_all (entry_is_trusted_proxy N t) chain \<Longrightarrow> reduce_trusted_proxy_chain N t chain = chain"
proof -
  assume "list_all (entry_is_trusted_proxy N t) chain"
  then have "n \<le> length chain \<Longrightarrow> trust_boundary N t chain n = 0" for n
    by (induction n) (auto simp: list_all_length)
  then show ?thesis by (simp add: reduce_trusted_proxy_chain_def)
qed

lemma reduce_boundary:
  "\<not> entry_is_trusted_proxy N t e \<Longrightarrow> list_all (entry_is_trusted_proxy N t) suf \<Longrightarrow>
   reduce_trusted_proxy_chain N t (pre @ e # suf) = e # suf"
proof -
  assume e: "\<not> entry_is_trusted_proxy N t e" and suf: "list_all (entry_is_trusted_proxy N t) suf"
  let ?c = "pre @ e # suf"
  have "k \<le> length suf \<Longrightarrow> trust_boundary N t ?c (Suc (length pre) + k) = Suc (length pre)" for k
    using suf by (induction k) (auto simp: e nth_append list_all_length)
  from this [of "length suf"] show ?thesis by (simp add: reduce_trusted_proxy_chain_def)
qed

lemma reduce_cases:
  obtains "list_all (entry_is_trusted_proxy N t) chain" "reduce_trusted_proxy_chain N t chain = chain"
  | pre e suf where "chain = pre @ e # suf" "\<not> entry_is_trusted_proxy N t e"
      "list_all (entry_is_trusted_proxy N t) suf" "reduce_trusted_proxy_chain N t chain = e # suf"
proof (cases "list_all (entry_is_trusted_proxy N t) chain")
  case True
  then show ?thesis using that(1) reduce_all_trusted by blast
next
  case False
  then obtain pre e suf where "chain = pre @ e # suf" "\<not> entry_is_trusted_proxy N t e"
      "\<forall>y \<in> set suf. \<not> \<not> entry_is_trusted_proxy N t y"
    using split_list_last_prop [of chain "\<lambda>x. \<not> entry_is_trusted_proxy N t x"] by (auto simp: list_all_iff)
  then show ?thesis using that(2) [of pre e suf] reduce_boundary [of N t e suf pre] by (simp add: list_all_iff)
qed

definition itoa_law :: "'n net_api \<Rightarrow> bool" where
  "itoa_law N \<longleftrightarrow> (\<forall>b. itoa_u8 N b = show_nat (unat b))"

lemma push_ip_addr_display: "itoa_law N \<Longrightarrow> push_ip_addr N ip = display_ip ip"
proof (cases ip)
  case (V4 a)
  assume "itoa_law N"
  with V4 show ?thesis by (cases a) (simp add: itoa_law_def)
qed simp

lemma trusted_canonical: "is_trusted_proxy N t (canonicalize_ip ip) = is_trusted_proxy N t ip"
  by (simp add: is_trusted_proxy_def)

text \<open>The shape of every normalised chain: the peer last, and nothing but trusted hops after the first.\<close>

lemma normalize_shape:
  fixes H :: "'h header_api" and N :: "'n net_api"
  defines "chain \<equiv> \<lambda>h peer tls host t. normalize_forwarding_chain H N h peer tls host t"
  shows "chain h peer tls host t \<noteq> []"
    and "last (chain h peer tls host t) = build_peer_forwarded_entry peer tls host"
    and "list_all (entry_is_trusted_proxy N t) (tl (chain h peer tls host t))"
    and "\<not> is_trusted_proxy N t peer \<Longrightarrow> chain h peer tls host t = [build_peer_forwarded_entry peer tls host]"
proof -
  let ?p = "build_peer_forwarded_entry peer tls host"
  show "\<not> is_trusted_proxy N t peer \<Longrightarrow> chain h peer tls host t = [?p]"
    by (simp add: chain_def normalize_forwarding_chain_def)
  have red: "reduce_trusted_proxy_chain N t (c @ [?p]) \<noteq> []" "last (reduce_trusted_proxy_chain N t (c @ [?p])) = ?p"
    "list_all (entry_is_trusted_proxy N t) (tl (reduce_trusted_proxy_chain N t (c @ [?p])))" for c
  proof -
    have "reduce_trusted_proxy_chain N t (c @ [?p]) \<noteq> [] \<and> last (reduce_trusted_proxy_chain N t (c @ [?p])) = ?p \<and>
      list_all (entry_is_trusted_proxy N t) (tl (reduce_trusted_proxy_chain N t (c @ [?p])))"
    proof (rule reduce_cases [of N t "c @ [?p]"])
      assume "list_all (entry_is_trusted_proxy N t) (c @ [?p])" "reduce_trusted_proxy_chain N t (c @ [?p]) = c @ [?p]"
      then show ?thesis by (cases c) simp_all
    next
      fix pre e suf
      assume a: "c @ [?p] = pre @ e # suf" "list_all (entry_is_trusted_proxy N t) suf"
        "reduce_trusted_proxy_chain N t (c @ [?p]) = e # suf"
      have "last (e # suf) = ?p" using arg_cong [OF a(1), of last] by simp
      with a show ?thesis by simp
    qed
    then show "reduce_trusted_proxy_chain N t (c @ [?p]) \<noteq> []" "last (reduce_trusted_proxy_chain N t (c @ [?p])) = ?p"
      "list_all (entry_is_trusted_proxy N t) (tl (reduce_trusted_proxy_chain N t (c @ [?p])))" by simp_all
  qed
  show "chain h peer tls host t \<noteq> []" "last (chain h peer tls host t) = ?p"
    "list_all (entry_is_trusted_proxy N t) (tl (chain h peer tls host t))"
    using red by (simp_all add: chain_def normalize_forwarding_chain_def Let_def split: sum.splits option.splits)
qed

text \<open>The chain written to the headers: the normalised one, or the peer alone when a hop is no address.\<close>

definition outgoing_chain :: "'h header_api \<Rightarrow> 'n net_api \<Rightarrow> 'h \<Rightarrow> ip_addr \<Rightarrow> bool \<Rightarrow> bytes option \<Rightarrow> 'n list \<Rightarrow>
    forwarded_entry list" where
  "outgoing_chain H N h peer tls host t =
     (let chain = normalize_forwarding_chain H N h peer tls host t
      in if list_ex (\<lambda>e. fn_ip (fe_for e) = None) chain then [build_peer_forwarded_entry peer tls host] else chain)"

definition outgoing_ips :: "'h header_api \<Rightarrow> 'n net_api \<Rightarrow> 'h \<Rightarrow> ip_addr \<Rightarrow> bool \<Rightarrow> bytes option \<Rightarrow> 'n list \<Rightarrow> ip_addr list" where
  "outgoing_ips H N h peer tls host t = map (\<lambda>e. the (fn_ip (fe_for e))) (outgoing_chain H N h peer tls host t)"

lemma peer_entry_ip [simp]: "fn_ip (fe_for (build_peer_forwarded_entry peer tls host)) = Some peer"
  by (simp add: build_peer_forwarded_entry_def)

lemma outgoing_chain_shape:
  "outgoing_chain H N h peer tls host t \<noteq> []"
  "last (outgoing_chain H N h peer tls host t) = build_peer_forwarded_entry peer tls host"
  "list_all (entry_is_trusted_proxy N t) (tl (outgoing_chain H N h peer tls host t))"
  "\<forall>e \<in> set (outgoing_chain H N h peer tls host t). fn_ip (fe_for e) \<noteq> None"
  "\<not> is_trusted_proxy N t peer \<Longrightarrow> outgoing_chain H N h peer tls host t = [build_peer_forwarded_entry peer tls host]"
  using normalize_shape [where H = H and N = N and h = h and peer = peer and tls = tls and host = host and t = t]
  by (auto simp: outgoing_chain_def Let_def list_ex_iff)

lemma outgoing_ips_shape:
  "outgoing_ips H N h peer tls host t \<noteq> []"
  "last (outgoing_ips H N h peer tls host t) = peer"
  "list_all (is_trusted_proxy N t) (tl (outgoing_ips H N h peer tls host t))"
  "\<not> is_trusted_proxy N t peer \<Longrightarrow> outgoing_ips H N h peer tls host t = [peer]"
proof -
  note sh = outgoing_chain_shape [where H = H and N = N and h = h and peer = peer and tls = tls and host = host and t = t]
  show "outgoing_ips H N h peer tls host t \<noteq> []" using sh(1) by (simp add: outgoing_ips_def)
  show "last (outgoing_ips H N h peer tls host t) = peer"
    using sh(1,2) by (simp add: outgoing_ips_def last_map)
  have tr: "entry_is_trusted_proxy N t e \<Longrightarrow> is_trusted_proxy N t (the (fn_ip (fe_for e)))" for e
    by (simp add: entry_is_trusted_proxy_def split: option.splits)
  show "list_all (is_trusted_proxy N t) (tl (outgoing_ips H N h peer tls host t))"
    using sh(3) tr by (auto simp: outgoing_ips_def map_tl [symmetric] list_all_iff)
  show "\<not> is_trusted_proxy N t peer \<Longrightarrow> outgoing_ips H N h peer tls host t = [peer]"
    using sh(5) by (simp add: outgoing_ips_def)
qed

lemma xff_csv_outgoing:
  assumes "itoa_law N"
  shows "(case xff_csv_from_chain N (normalize_forwarding_chain H N h peer tls host t) of
            Some (csv, first_len) \<Rightarrow> (normalize_forwarding_chain H N h peer tls host t, csv, first_len)
          | None \<Rightarrow> ([build_peer_forwarded_entry peer tls host], push_ip_addr N peer, length (push_ip_addr N peer))) =
         (outgoing_chain H N h peer tls host t, join '', '' (map display_ip (outgoing_ips H N h peer tls host t)),
          length (display_ip (hd (outgoing_ips H N h peer tls host t))))"
  using assms normalize_shape(1) [where H = H and N = N and h = h and peer = peer and tls = tls and host = host and t = t]
  by (simp add: xff_csv_from_chain_def outgoing_chain_def outgoing_ips_def Let_def push_ip_addr_display o_def hd_map)

section \<open>The outgoing headers\<close>

definition ip_char :: "char \<Rightarrow> bool" where
  "ip_char c \<longleftrightarrow> (48 \<le> byte c \<and> byte c \<le> 58) \<or> (97 \<le> byte c \<and> byte c \<le> 102) \<or> byte c = 46"

lemma ip_char_lits: "ip_char (CHR ''.'')" "ip_char (CHR '':'')" "ip_char (CHR ''f'')"
  by (simp_all add: ip_char_def byte_def)

lemma show_radix_ip_char: "2 \<le> r \<Longrightarrow> r \<le> 16 \<Longrightarrow> c \<in> set (show_radix r n) \<Longrightarrow> ip_char c"
proof -
  assume r: "2 \<le> r" "r \<le> 16" and "c \<in> set (show_radix r n)"
  then obtain d where "d < r" "c = digit_char d" using show_radix_chars [OF r(1)] by blast
  then show ?thesis using r byte_digit_char [of d] by (auto simp: ip_char_def)
qed

lemma show_nat_ip_char: "c \<in> set (show_nat n) \<Longrightarrow> ip_char c"
  using show_radix_ip_char [of 10 c n] by (simp add: show_nat_def)

lemma show_hex_ip_char: "c \<in> set (show_hex n) \<Longrightarrow> ip_char c"
  using show_radix_ip_char [of 16 c n] by (simp add: show_hex_def)

lemma fmt_subslice_ip_char: "c \<in> set (fmt_subslice ss) \<Longrightarrow> ip_char c"
proof -
  assume "c \<in> set (fmt_subslice ss)"
  moreover have "set (fmt_subslice ss) \<subseteq> set '':'' \<union> \<Union> (set ` set (map (\<lambda>s. show_hex (unat s)) ss))"
    unfolding fmt_subslice_def by (rule set_join)
  ultimately show ?thesis using show_hex_ip_char ip_char_lits by auto
qed

lemma display_ipv4_ip_char: "c \<in> set (display_ipv4 a) \<Longrightarrow> ip_char c"
  by (cases a) (auto dest: show_nat_ip_char intro: ip_char_lits)

lemma display_ip_ip_char: "c \<in> set (display_ip ip) \<Longrightarrow> ip_char c"
  by (cases ip)
    (auto simp: display_ipv6_def Let_def dest: display_ipv4_ip_char fmt_subslice_ip_char intro: ip_char_lits
      split: option.splits prod.splits if_splits)

lemma ip_char_visible: "ip_char c \<Longrightarrow> visible_ascii c"
  by (auto simp: ip_char_def visible_ascii_def)

lemma display_ip_visible: "list_all visible_ascii (display_ip ip)"
  using display_ip_ip_char ip_char_visible by (auto simp: list_all_iff)

lemma take_join_first: "xs \<noteq> [] \<Longrightarrow> take (length (hd xs)) (join sep xs) = hd xs"
  by (induction sep xs rule: join.induct) auto

text \<open>Everything a successful call leaves in the headers.\<close>

context header_laws
begin

lemma add_forwarding_header_Inr:
  fixes client_addr :: socket_addr
  assumes itoa: "itoa_law N"
    and ok: "add_forwarding_header H U N h client_addr listen_addr tls uri host t = Inr h'"
  defines "peer \<equiv> canonicalize_ip (sa_ip client_addr)"
  defines "ips \<equiv> outgoing_ips H N h peer tls host t"
  defines "h1 \<equiv> hm_insert H h X_FORWARDED_FOR (join '', '' (map display_ip ips))"
  obtains h2 h3 h4 where
    "(if hm_contains_key H h FORWARDED
      then (case generate_forwarded_header N (outgoing_chain H N h peer tls host t) of
              Inr v \<Rightarrow> add_header_entry_overwrite_if_exist H h1 FORWARDED v | Inl _ \<Rightarrow> Inr h1)
      else Inr (snd (hm_remove H h1 FORWARDED))) = Inr h2"
    and "make_cookie_single_line H h2 = Inr h3"
    and "add_header_entry_overwrite_if_exist H
        (hm_insert H (hm_insert H (hm_insert H (hm_insert H h3 X_FORWARDED_PROTO (if tls then ''https'' else ''http''))
          X_FORWARDED_PORT (show_nat (unat (sa_port listen_addr)))) X_REAL_IP (display_ip (hd ips)))
          X_FORWARDED_SSL (if tls then ''on'' else ''off'')) X_ORIGINAL_URI (uri_display U uri) = Inr h4"
    and "rbind (overwrite_x_forwarded_host_from_original H h4 host) (\<lambda>h. Inr (hm_insert H h PROXY [])) = Inr h'"
proof -
  let ?csv = "join '', '' (map display_ip ips)"
  have peer: "canonicalize_ip (sa_ip (to_canonical client_addr)) = peer"
    by (simp add: peer_def sa_ip_to_canonical)
  have ne: "ips \<noteq> []" unfolding ips_def by (rule outgoing_ips_shape)
  have vis: "list_all visible_ascii ?csv"
    using display_ip_visible by (intro list_all_join) (auto simp: list_all_iff visible_ascii_def byte_def)
  have tk: "take (length (display_ip (hd ips))) ?csv = display_ip (hd ips)"
    using take_join_first [of "map display_ip ips"] ne by (simp add: hd_map)
  have fs: "hv_from_str H (display_ip (hd ips)) = Some (display_ip (hd ips))" "hv_from_str H ?csv = Some ?csv"
    using vis display_ip_visible by (simp_all add: from_str_law)
  show thesis
    using ok that unfolding add_forwarding_header_def peer Let_def xff_csv_outgoing [OF itoa] prod.case
      ips_def [symmetric] tk fs h1_def
    by (fastforce simp: rbind_eq_Inr)
qed

lemma add_forwarding_header_values:
  fixes client_addr :: socket_addr
  assumes itoa: "itoa_law N"
    and ok: "add_forwarding_header H U N h client_addr listen_addr tls uri host t = Inr h'"
  defines "peer \<equiv> canonicalize_ip (sa_ip client_addr)"
  shows "hm_get_all H h' X_FORWARDED_FOR = [join '', '' (map display_ip (outgoing_ips H N h peer tls host t))]"
    and "hm_get_all H h' X_REAL_IP = [display_ip (hd (outgoing_ips H N h peer tls host t))]"
    and "hm_get_all H h' X_FORWARDED_PROTO = [if tls then ''https'' else ''http'']"
    and "hm_get_all H h' X_FORWARDED_PORT = [show_nat (unat (sa_port listen_addr))]"
    and "hm_get_all H h' X_FORWARDED_SSL = [if tls then ''on'' else ''off'']"
    and "hm_get_all H h' X_ORIGINAL_URI = [uri_display U uri]"
    and "hm_get_all H h' X_FORWARDED_HOST = (case host of None \<Rightarrow> [] | Some v \<Rightarrow> [v])"
    and "hm_get_all H h' PROXY = [[]]"
    and "hm_get_all H h' FORWARDED =
           (if hm_get_all H h FORWARDED = [] then []
            else case generate_forwarded_header N (outgoing_chain H N h peer tls host t) of
                   Inr v \<Rightarrow> [v] | Inl _ \<Rightarrow> hm_get_all H h FORWARDED)"
    and "cookie_tokens H h' = cookie_tokens H h"
    and "k \<notin> {X_FORWARDED_FOR, X_REAL_IP, X_FORWARDED_PROTO, X_FORWARDED_PORT, X_FORWARDED_SSL, X_ORIGINAL_URI,
           X_FORWARDED_HOST, PROXY, FORWARDED, COOKIE} \<Longrightarrow> hm_get_all H h' k = hm_get_all H h k"
proof -
  let ?ips = "outgoing_ips H N h peer tls host t"
  let ?csv = "join '', '' (map display_ip ?ips)"
  let ?h1 = "hm_insert H h X_FORWARDED_FOR ?csv"
  obtain h2 h3 h4 where
    h2: "(if hm_contains_key H h FORWARDED
          then (case generate_forwarded_header N (outgoing_chain H N h peer tls host t) of
                  Inr v \<Rightarrow> add_header_entry_overwrite_if_exist H ?h1 FORWARDED v | Inl _ \<Rightarrow> Inr ?h1)
          else Inr (snd (hm_remove H ?h1 FORWARDED))) = Inr h2"
    and h3: "make_cookie_single_line H h2 = Inr h3"
    and h4: "add_header_entry_overwrite_if_exist H
        (hm_insert H (hm_insert H (hm_insert H (hm_insert H h3 X_FORWARDED_PROTO (if tls then ''https'' else ''http''))
          X_FORWARDED_PORT (show_nat (unat (sa_port listen_addr)))) X_REAL_IP (display_ip (hd ?ips)))
          X_FORWARDED_SSL (if tls then ''on'' else ''off'')) X_ORIGINAL_URI (uri_display U uri) = Inr h4"
    and h5: "rbind (overwrite_x_forwarded_host_from_original H h4 host) (\<lambda>h. Inr (hm_insert H h PROXY [])) = Inr h'"
    unfolding peer_def by (rule add_forwarding_header_Inr [OF itoa ok])
  have g2: "hm_get_all H h2 k =
      (if k = X_FORWARDED_FOR then [?csv]
       else if k = FORWARDED then
         (if hm_get_all H h FORWARDED = [] then []
          else case generate_forwarded_header N (outgoing_chain H N h peer tls host t) of
                 Inr v \<Rightarrow> [v] | Inl _ \<Rightarrow> hm_get_all H h FORWARDED)
       else hm_get_all H h k)" for k
    using h2 overwrite_get_all
    by (auto simp: contains_law insert_law remove_snd_law FORWARDED_def X_FORWARDED_FOR_def split: if_splits sum.splits)
  have g3: "cookie_tokens H h3 = cookie_tokens H h2" "\<And>k. k \<noteq> COOKIE \<Longrightarrow> hm_get_all H h3 k = hm_get_all H h2 k"
    by (rule make_cookie_single_line_ok [of h2], use h3 in auto)+
  have g5: "hm_get_all H h' k =
      (if k = PROXY then [[]]
       else if k = X_FORWARDED_HOST then (case host of None \<Rightarrow> [] | Some v \<Rightarrow> [v])
       else hm_get_all H h4 k)" for k
    using h5 from_str_id
    by (auto simp: overwrite_x_forwarded_host_from_original_def insert_law remove_snd_law header_name_defs
        split: option.splits)
  have all: "hm_get_all H h' k =
      (if k = PROXY then [[]]
       else if k = X_FORWARDED_HOST then (case host of None \<Rightarrow> [] | Some v \<Rightarrow> [v])
       else if k = X_ORIGINAL_URI then [uri_display U uri]
       else if k = X_FORWARDED_SSL then [if tls then ''on'' else ''off'']
       else if k = X_REAL_IP then [display_ip (hd ?ips)]
       else if k = X_FORWARDED_PORT then [show_nat (unat (sa_port listen_addr))]
       else if k = X_FORWARDED_PROTO then [if tls then ''https'' else ''http'']
       else hm_get_all H h3 k)" for k
    unfolding g5 overwrite_get_all [OF h4] by (simp add: insert_law)
  note r = all g3(2) g2 header_name_defs
  show "hm_get_all H h' X_FORWARDED_FOR = [?csv]" "hm_get_all H h' X_REAL_IP = [display_ip (hd ?ips)]"
    "hm_get_all H h' X_FORWARDED_PROTO = [if tls then ''https'' else ''http'']"
    "hm_get_all H h' X_FORWARDED_PORT = [show_nat (unat (sa_port listen_addr))]"
    "hm_get_all H h' X_FORWARDED_SSL = [if tls then ''on'' else ''off'']"
    "hm_get_all H h' X_ORIGINAL_URI = [uri_display U uri]"
    "hm_get_all H h' X_FORWARDED_HOST = (case host of None \<Rightarrow> [] | Some v \<Rightarrow> [v])"
    "hm_get_all H h' PROXY = [[]]"
    by (simp_all add: r)
  show "hm_get_all H h' FORWARDED =
           (if hm_get_all H h FORWARDED = [] then []
            else case generate_forwarded_header N (outgoing_chain H N h peer tls host t) of
                   Inr v \<Rightarrow> [v] | Inl _ \<Rightarrow> hm_get_all H h FORWARDED)"
    by (simp add: r)
  have "hm_get_all H h' COOKIE = hm_get_all H h3 COOKIE" "hm_get_all H h2 COOKIE = hm_get_all H h COOKIE"
    by (simp_all add: all g2 header_name_defs)
  then show "cookie_tokens H h' = cookie_tokens H h" using g3(1) by (simp add: cookie_tokens_def)
  show "k \<notin> {X_FORWARDED_FOR, X_REAL_IP, X_FORWARDED_PROTO, X_FORWARDED_PORT, X_FORWARDED_SSL, X_ORIGINAL_URI,
           X_FORWARDED_HOST, PROXY, FORWARDED, COOKIE} \<Longrightarrow> hm_get_all H h' k = hm_get_all H h k"
    by (simp add: all g3(2) g2)
qed

end

lemma reduce_suffix: "suffix (reduce_trusted_proxy_chain N t chain) chain"
  by (auto simp: reduce_trusted_proxy_chain_def Let_def suffix_drop)

lemma outgoing_ips_source:
  "outgoing_ips H N h peer tls host t = [peer] \<or>
   (\<exists>chain. extract_forwarding_chain_from_headers H h None = Inr (Some chain) \<and> is_trusted_proxy N t peer \<and>
      suffix (map Some (outgoing_ips H N h peer tls host t)) (map (\<lambda>e. fn_ip (fe_for e)) chain @ [Some peer]))"
proof (cases "outgoing_chain H N h peer tls host t = [build_peer_forwarded_entry peer tls host]")
  case True
  then show ?thesis by (simp add: outgoing_ips_def)
next
  case False
  let ?p = "build_peer_forwarded_entry peer tls host"
  have oc: "outgoing_chain H N h peer tls host t = normalize_forwarding_chain H N h peer tls host t"
    using False by (auto simp: outgoing_chain_def Let_def split: if_splits)
  then obtain chain where tr: "is_trusted_proxy N t peer"
    and ex: "extract_forwarding_chain_from_headers H h None = Inr (Some chain)"
    and eq: "outgoing_chain H N h peer tls host t = reduce_trusted_proxy_chain N t (chain @ [?p])"
    using False unfolding normalize_forwarding_chain_def
    by (auto simp: Let_def split: if_splits sum.splits option.splits)
  have "map Some (outgoing_ips H N h peer tls host t) = map (\<lambda>e. fn_ip (fe_for e)) (outgoing_chain H N h peer tls host t)"
    using outgoing_chain_shape(4) [of H N h peer tls host t] by (simp add: outgoing_ips_def)
  then have "suffix (map Some (outgoing_ips H N h peer tls host t)) (map (\<lambda>e. fn_ip (fe_for e)) (chain @ [?p]))"
    unfolding eq by (simp only: map_mono_suffix reduce_suffix)
  with tr ex show ?thesis by auto
qed

text \<open>
  C2: The trust boundary of the forwarding headers.  Every request that is forwarded carries one
  \<open>X-Forwarded-For\<close> value, the addresses of a chain that ends in the real peer, whose hops after the
  first are all trusted proxies; it is the peer alone unless the peer is trusted, and otherwise a
  suffix of the chain the peer presented followed by the peer.  \<open>X-Real-IP\<close> is the first address of
  that chain.  So a client can never put an address of its choice behind an untrusted hop.
\<close>

theorem forwarded_for_trust_boundary:
  assumes "header_laws H" and "itoa_law N"
    and "add_forwarding_header H U N h client_addr listen_addr tls uri host t = Inr h'"
  defines "peer \<equiv> canonicalize_ip (sa_ip client_addr)"
  shows "\<exists>ips. hm_get_all H h' X_FORWARDED_FOR = [join '', '' (map display_ip ips)] \<and>
           hm_get_all H h' X_REAL_IP = [display_ip (hd ips)] \<and>
           ips \<noteq> [] \<and> last ips = peer \<and> list_all (is_trusted_proxy N t) (tl ips) \<and>
           (ips = [peer] \<or>
            (\<exists>chain. extract_forwarding_chain_from_headers H h None = Inr (Some chain) \<and> is_trusted_proxy N t peer \<and>
               suffix (map Some ips) (map (\<lambda>e. fn_ip (fe_for e)) chain @ [Some peer])))"
  unfolding peer_def
  by (intro exI [of _ "outgoing_ips H N h (canonicalize_ip (sa_ip client_addr)) tls host t"] conjI
      header_laws.add_forwarding_header_values(1,2) [OF assms(1-3)] outgoing_ips_shape(1-3) outgoing_ips_source)

definition sample_net_api :: "ip_addr net_api" where
  "sample_net_api =
     \<lparr>net_contains = (\<lambda>n ip. n = ip), net_from_str = ip_from_str, itoa_u8 = (\<lambda>b. show_nat (unat b))\<rparr>"

lemma sample_itoa: "itoa_law sample_net_api"
  by (simp add: itoa_law_def sample_net_api_def)

abbreviation sample_peer :: ip_addr where
  "sample_peer \<equiv> V4 (Ipv4Addr 10 0 0 9)"

definition sample_forwarding :: "anyhow + header_lines" where
  "sample_forwarding =
     add_forwarding_header lines_api sample_uri_api sample_net_api [(X_FORWARDED_FOR, ''1.1.1.1'')]
        (SocketAddr sample_peer 5) (SocketAddr (V4 (Ipv4Addr 10 0 0 1)) 443) True ''/x'' None
        [V4 (Ipv4Addr 10 0 0 2)]"

lemma sample_peer_canonical: "canonicalize_ip sample_peer = sample_peer"
  by (simp add: canonicalize_ip_def)

lemma sample_peer_untrusted: "\<not> is_trusted_proxy sample_net_api [V4 (Ipv4Addr 10 0 0 2)] sample_peer"
  by (simp add: is_trusted_proxy_def sample_peer_canonical sample_net_api_def)

lemma sample_forwarding_ok: "\<exists>h'. sample_forwarding = Inr h'"
proof -
  have vis: "hv_from_str lines_api (display_ip sample_peer) = Some (display_ip sample_peer)"
    by (rule header_lines.from_str_law [OF display_ip_visible])
  have oi: "outgoing_ips H sample_net_api h sample_peer b x [V4 (Ipv4Addr 10 0 0 2)] = [sample_peer]"
    for H :: "header_lines header_api" and h b x
    by (rule outgoing_ips_shape(4) [OF sample_peer_untrusted])
  show ?thesis
    unfolding sample_forwarding_def add_forwarding_header_def Let_def xff_csv_outgoing [OF sample_itoa] prod.case
      to_canonical.simps socket_addr.sel sample_peer_canonical oi
    using display_ip_visible [of sample_peer]
    by (simp add: vis lines_api_def lines_get_all_def lines_drop_def make_cookie_single_line_def header_name_defs
        add_header_entry_overwrite_if_exist_def sample_uri_api_def overwrite_x_forwarded_host_from_original_def
        visible_ascii_def legal_value_byte_def byte_def)
qed

theorem forwarded_for_trust_boundary_witness:
  "\<exists>h'. sample_forwarding = Inr h' \<and> lines_get_all h' X_REAL_IP = [display_ip sample_peer]"
proof -
  obtain h' where h': "sample_forwarding = Inr h'" using sample_forwarding_ok by blast
  from forwarded_for_trust_boundary [OF header_lines.header_laws_axioms sample_itoa h' [unfolded sample_forwarding_def]]
  have "lines_get_all h' X_REAL_IP = [display_ip sample_peer]"
    using sample_peer_untrusted by (auto simp: sample_peer_canonical lines_api_def)
  with h' show ?thesis by blast
qed

section \<open>The client-visible scheme\<close>

lemma try_map_Inl: "x \<in> set xs \<Longrightarrow> f x = Inl e \<Longrightarrow> \<exists>e'. try_map f xs = Inl e'"
proof (induction xs)
  case (Cons y ys)
  then show ?case by (cases "f y"; cases "try_map f ys") auto
qed simp

text \<open>
  C37: The \<open>Secure\<close> decision fails closed.  Without TLS on the listener a request counts as https only
  if its peer is a trusted proxy and every \<open>X-Forwarded-Proto\<close> line it sent is readable; one
  unreadable line is never skipped in favour of the lower-priority \<open>Forwarded\<close> header.
\<close>

theorem client_scheme_fails_closed:
  assumes "header_laws H" and "client_visible_secure H N tls client_addr h t"
  shows "tls \<or> (is_trusted_proxy N t (sa_ip client_addr) \<and>
           (\<forall>v \<in> set (hm_get_all H h X_FORWARDED_PROTO). list_all visible_ascii v))"
proof (rule ccontr)
  assume "\<not> ?thesis"
  then have tls: "\<not> tls"
    and un: "is_trusted_proxy N t (sa_ip client_addr) \<Longrightarrow>
        \<exists>v \<in> set (hm_get_all H h X_FORWARDED_PROTO). \<not> list_all visible_ascii v"
    by auto
  have peer: "is_trusted_proxy N t (canonicalize_ip (sa_ip (to_canonical client_addr))) = is_trusted_proxy N t (sa_ip client_addr)"
    by (simp add: sa_ip_to_canonical trusted_canonical)
  have tr: "is_trusted_proxy N t (sa_ip client_addr)"
    using assms(2) tls peer by (auto simp: client_visible_secure_def client_visible_scheme_def)
  then obtain v where v: "v \<in> set (hm_get_all H h X_FORWARDED_PROTO)" "\<not> list_all visible_ascii v" using un by blast
  then have "\<exists>e. try_map (\<lambda>v. ok_or (hv_to_str H v) (Anyhow ''invalid header value'')) (hm_get_all H h X_FORWARDED_PROTO) = Inl e"
    by (intro try_map_Inl [of v]) (simp_all add: header_laws.to_str_law [OF assms(1)])
  then have "\<exists>e. join_header_values H h X_FORWARDED_PROTO = Inl e"
    using v(1) by (auto simp: join_header_values_def split: list.splits)
  then show False
    using assms(2) tls by (auto simp: client_visible_secure_def client_visible_scheme_def xforwarded_proto_first_def Let_def split: if_splits)
qed

theorem client_scheme_fails_closed_witness:
  "client_visible_secure lines_api sample_net_api False (SocketAddr sample_peer 5) [(X_FORWARDED_PROTO, ''https'')] [sample_peer] \<and>
   is_trusted_proxy sample_net_api [sample_peer] sample_peer"
proof -
  have "client_visible_secure lines_api sample_net_api False (SocketAddr sample_peer 5) [(X_FORWARDED_PROTO, ''https'')] [sample_peer]"
    by (simp add: client_visible_secure_def client_visible_scheme_def sample_peer_canonical is_trusted_proxy_def
        sample_net_api_def xforwarded_proto_first_def join_header_values_def lines_api_def lines_get_all_def
        split_on_def trim_def rust_simps visible_ascii_def)
  with client_scheme_fails_closed [OF header_lines.header_laws_axioms this] show ?thesis by simp
qed

text \<open>
  The scheme of the client connection survives a hop: the next proxy, if it trusts this one and
  is reached without TLS, takes the request for https exactly if this proxy's listener had TLS, no
  matter what the client wrote into \<open>X-Forwarded-Proto\<close> or \<open>Forwarded\<close>.
\<close>

theorem client_scheme_survives_hop:
  assumes laws: "header_laws H" and N: "itoa_law N"
    and ok: "add_forwarding_header H U N h client_addr listen_addr tls uri host t = Inr h'"
    and "is_trusted_proxy N t' (sa_ip proxy_addr)"
  shows "client_visible_secure H N False proxy_addr h' t' \<longleftrightarrow> tls"
proof -
  let ?p = "if tls then ''https'' else ''http''"
  have v: "list_all visible_ascii ?p" by (simp add: visible_ascii_def rust_simps)
  have "join_header_values H h' X_FORWARDED_PROTO = Inr (Some ?p)"
    using v by (simp add: join_header_values_def header_laws.add_forwarding_header_values(3) [OF laws N ok]
        header_laws.to_str_law [OF laws])
  moreover have "trim (hd (split_on (CHR '','') ?p)) = ?p"
    by (simp add: split_on_def trim_def rust_simps)
  ultimately have x: "xforwarded_proto_first H h' = Inr (Some ?p)"
    by (simp add: xforwarded_proto_first_def Let_def)
  show ?thesis
    using assms(4) by (simp add: client_visible_secure_def client_visible_scheme_def sa_ip_to_canonical trusted_canonical x
        eq_ignore_ascii_case_def to_ascii_lowercase_def lower_char_def rust_simps)
qed

theorem client_scheme_survives_hop_witness:
  "\<exists>h'. sample_forwarding = Inr h' \<and>
     client_visible_secure lines_api sample_net_api False (SocketAddr sample_peer 9) h' [sample_peer]"
proof -
  obtain h' where h': "sample_forwarding = Inr h'" using sample_forwarding_ok by blast
  have "is_trusted_proxy sample_net_api [sample_peer] (sa_ip (SocketAddr sample_peer 9))"
    by (simp add: is_trusted_proxy_def sample_peer_canonical sample_net_api_def)
  from client_scheme_survives_hop [OF header_lines.header_laws_axioms sample_itoa h' [unfolded sample_forwarding_def] this]
  show ?thesis using h' by blast
qed

end
