(* ===== verification/Globals.thy ===== *)
theory Globals
  imports Forwarding
begin

text \<open>
  The configuration parameters of \<open>globals.rs\<close> and the constants of \<open>constants.rs\<close> that the
  transports, the message handler and the configuration loader share.  A \<open>Duration\<close> is its number
  of milliseconds.
\<close>

definition RESPONSE_HEADER_SERVER :: bytes where "RESPONSE_HEADER_SERVER = ''rpxy''"
definition TCP_LISTEN_BACKLOG :: u32 where "TCP_LISTEN_BACKLOG = 1024"
definition PROXY_IDLE_TIMEOUT_SEC :: nat where "PROXY_IDLE_TIMEOUT_SEC = 20"
definition UPSTREAM_IDLE_TIMEOUT_SEC :: nat where "UPSTREAM_IDLE_TIMEOUT_SEC = 20"
definition MAX_CLIENTS :: usize where "MAX_CLIENTS = 512"
definition MAX_CLIENTS_PER_IP :: usize where "MAX_CLIENTS_PER_IP = 0"
definition MAX_CONCURRENT_STREAMS :: u32 where "MAX_CONCURRENT_STREAMS = 64"
definition REQUEST_MAX_BODY_SIZE :: usize where "REQUEST_MAX_BODY_SIZE = 268435456"
definition ALT_SVC_MAX_AGE :: u32 where "ALT_SVC_MAX_AGE = 3600"
definition MAX_CONCURRENT_CONNECTIONS :: u32 where "MAX_CONCURRENT_CONNECTIONS = 4096"
definition MAX_CONCURRENT_BIDISTREAM :: u32 where "MAX_CONCURRENT_BIDISTREAM = 64"
definition MAX_CONCURRENT_UNISTREAM :: u32 where "MAX_CONCURRENT_UNISTREAM = 64"
definition MAX_IDLE_TIMEOUT :: nat where "MAX_IDLE_TIMEOUT = 10"
definition MAX_CACHE_ENTRY :: usize where "MAX_CACHE_ENTRY = 1000"
definition MAX_CACHE_EACH_SIZE :: usize where "MAX_CACHE_EACH_SIZE = 65535"
definition MAX_CACHE_EACH_SIZE_ON_MEMORY :: usize where "MAX_CACHE_EACH_SIZE_ON_MEMORY = 65535"

definition from_secs :: "nat \<Rightarrow> nat" where
  "from_secs s = s * 1000"

record 'n tcp_recv_proxy_protocol_config =
  pp_trusted_proxies :: "'n list"
  pp_timeout :: nat

record 'n proxy_config =
  listen_sockets :: "socket_addr list"
  http_port :: "u16 option"
  https_port :: "u16 option"
  public_https_port :: "u16 option"
  tcp_listen_backlog :: u32
  proxy_idle_timeout :: nat
  upstream_idle_timeout :: nat
  max_clients :: usize
  max_clients_per_ip :: usize
  max_concurrent_streams :: u32
  keepalive :: bool
  redact_query_in_access_log :: bool
  sni_consistency :: bool
  trusted_forwarded_proxies :: "'n list"
  tcp_recv_proxy_protocol :: "'n tcp_recv_proxy_protocol_config option"
  connection_handling_timeout :: "nat option"
  request_max_body_size :: "usize option"
  cache_enabled :: bool
  cache_dir :: "bytes option"
  cache_max_entry :: usize
  cache_max_each_size :: usize
  cache_max_each_size_on_memory :: usize
  http3 :: bool
  h3_alt_svc_max_age :: u32
  h3_request_max_body_size :: "usize option"
  h3_max_concurrent_bidistream :: u32
  h3_max_concurrent_unistream :: u32
  h3_max_concurrent_connections :: u32
  h3_max_idle_timeout :: "nat option"

definition proxy_config_default :: "'n proxy_config" where
  "proxy_config_default =
     \<lparr>listen_sockets = [], http_port = None, https_port = None, public_https_port = None,
      tcp_listen_backlog = TCP_LISTEN_BACKLOG,
      proxy_idle_timeout = from_secs PROXY_IDLE_TIMEOUT_SEC, upstream_idle_timeout = from_secs UPSTREAM_IDLE_TIMEOUT_SEC,
      max_clients = MAX_CLIENTS, max_clients_per_ip = MAX_CLIENTS_PER_IP,
      max_concurrent_streams = MAX_CONCURRENT_STREAMS, keepalive = True,
      redact_query_in_access_log = False, sni_consistency = True, trusted_forwarded_proxies = [],
      tcp_recv_proxy_protocol = None, connection_handling_timeout = None,
      request_max_body_size = Some REQUEST_MAX_BODY_SIZE,
      cache_enabled = False, cache_dir = None, cache_max_entry = MAX_CACHE_ENTRY,
      cache_max_each_size = MAX_CACHE_EACH_SIZE, cache_max_each_size_on_memory = MAX_CACHE_EACH_SIZE_ON_MEMORY,
      http3 = False, h3_alt_svc_max_age = ALT_SVC_MAX_AGE, h3_request_max_body_size = None,
      h3_max_concurrent_bidistream = MAX_CONCURRENT_BIDISTREAM,
      h3_max_concurrent_unistream = MAX_CONCURRENT_UNISTREAM,
      h3_max_concurrent_connections = MAX_CONCURRENT_CONNECTIONS,
      h3_max_idle_timeout = Some (from_secs MAX_IDLE_TIMEOUT)\<rparr>"

end
