(* ===== verification/Request_Ops.thy ===== *)
theory Request_Ops
  imports Globals
begin

text \<open>
  Requests and responses, and the operations of \<open>message_handler\<close> on them that do not depend on the
  handler's state: \<open>request_ops.rs\<close> (the host of a request, the request line), \<open>http_result.rs\<close>
  (errors and their status codes), \<open>synthetic_response.rs\<close>, and the free functions of
  \<open>handler_main.rs\<close> and \<open>handler_manipulate_messages.rs\<close>.
\<close>

section \<open>Messages\<close>

datatype version = HTTP_09 | HTTP_10 | HTTP_11 | HTTP_2 | HTTP_3

text \<open>
  A request with its body and the extension \<open>ClientFacingEffectiveUri\<close>; a response with its body.
  The bodies are passed through as they are.
\<close>

record ('h, 'u, 'b) request =
  rq_method :: bytes
  rq_uri :: 'u
  rq_version :: version
  rq_headers :: 'h
  rq_effective_uri :: "'u option"
  rq_body :: 'b

record ('h, 'b) response =
  rs_status :: nat
  rs_headers :: 'h
  rs_body :: "'b option"

definition SERVER :: bytes where "SERVER = ''server''"
definition ALT_SVC :: bytes where "ALT_SVC = ''alt-svc''"
definition CONTENT_TYPE :: bytes where "CONTENT_TYPE = ''content-type''"
definition CONTENT_LENGTH :: bytes where "CONTENT_LENGTH = ''content-length''"
definition LOCATION :: bytes where "LOCATION = ''location''"

lemmas message_name_defs = SERVER_def ALT_SVC_def CONTENT_TYPE_def CONTENT_LENGTH_def LOCATION_def

section \<open>Errors\<close>

datatype http_error =
    InvalidHostInRequestHeader
  | SniHostInconsistency
  | NoMatchingBackendApp
  | FailedToRedirect
  | NoUpstreamCandidates
  | FailedToGenerateUpstreamRequest anyhow
  | FailedToGetResponseFromBackend rpxy_error
  | FailedToAddSetCookeInResponse anyhow
  | FailedToGenerateDownstreamResponse anyhow
  | FailedToUpgrade
  | PayloadTooLarge
  | OtherHttpError anyhow

fun http_status :: "http_error \<Rightarrow> nat" where
  "http_status InvalidHostInRequestHeader = 400"
| "http_status SniHostInconsistency = 421"
| "http_status NoMatchingBackendApp = 503"
| "http_status FailedToRedirect = 500"
| "http_status NoUpstreamCandidates = 404"
| "http_status (FailedToGenerateUpstreamRequest _) = 500"
| "http_status (FailedToAddSetCookeInResponse _) = 500"
| "http_status (FailedToGenerateDownstreamResponse _) = 500"
| "http_status FailedToUpgrade = 500"
| "http_status (FailedToGetResponseFromBackend _) = 502"
| "http_status PayloadTooLarge = 413"
| "http_status (OtherHttpError _) = 500"

section \<open>The host of a request\<close>

definition drop_port :: "bytes \<Rightarrow> bytes" where
  "drop_port v =
     (case strip_prefix ''['' v of
        Some rest \<Rightarrow> takeWhile (\<lambda>b. b \<noteq> CHR '']'') rest
      | None \<Rightarrow>
          if length (take 2 (filter (\<lambda>b. b = CHR '':'') v)) = 2 then v
          else to_ascii_lowercase (takeWhile (\<lambda>b. b \<noteq> CHR '':'') v))"

definition inspect_parse_host :: "'h header_api \<Rightarrow> 'u uri_api \<Rightarrow> ('h, 'u, 'b) request \<Rightarrow> anyhow + bytes" where
  "inspect_parse_host H U req =
     (let headers_host = map_option drop_port (hm_get H (rq_headers req) HOST);
          uri_host = map_option drop_port (uri_host U (rq_uri req))
      in case (headers_host, uri_host) of
           (Some hh, Some hu) \<Rightarrow>
             if hh = hu then Inr hh else Inl (Anyhow ''Host header and uri host mismatch'')
         | (Some hh, None) \<Rightarrow> Inr hh
         | (None, Some hu) \<Rightarrow> Inr hu
         | (None, None) \<Rightarrow> Inl (Anyhow ''Neither Host header nor uri host is valid''))"

section \<open>The request line\<close>

definition apply_version_option :: "version \<Rightarrow> upstream_option \<Rightarrow> version" where
  "apply_version_option v opt =
     (case opt of ForceHttp11Upstream \<Rightarrow> HTTP_11 | ForceHttp2Upstream \<Rightarrow> HTTP_2 | _ \<Rightarrow> v)"

definition update_request_line :: "'h header_api \<Rightarrow> 'u uri_api \<Rightarrow> ('h, 'u, 'b) request \<Rightarrow> 'u upstream \<Rightarrow>
    'u candidates \<Rightarrow> ('h, 'u, 'b) request" where
  "update_request_line H U req upstream_chosen upstream_candidates =
     (if (case hm_get H (rq_headers req) CONTENT_TYPE of None \<Rightarrow> False | Some v \<Rightarrow> starts_with v ''application/grpc'')
      then req\<lparr>rq_version := HTTP_2\<rparr>
      else
        let v = (if uri_scheme U (up_uri upstream_chosen) = Some ''http'' then HTTP_11
                 else if rq_version req = HTTP_3 then HTTP_2 else rq_version req)
        in req\<lparr>rq_version := foldl apply_version_option v (uc_options upstream_candidates)\<rparr>)"

definition te_contains_trailers :: "bytes \<Rightarrow> bool" where
  "te_contains_trailers te =
     list_ex (\<lambda>x. eq_ignore_ascii_case x ''trailers'')
       (split_by (\<lambda>v. v = CHR '','' \<or> v = CHR '' '' \<or> v = CHR 0x09) te)"

definition h3_alt_svc_port :: "'n proxy_config \<Rightarrow> bool option \<Rightarrow> bool \<Rightarrow> u16 option" where
  "h3_alt_svc_port cfg backend_mutual_tls is_secure_transport =
     (if http3 cfg \<and> is_secure_transport \<and> backend_mutual_tls = Some False then public_https_port cfg else None)"

definition rebuild_path_and_query :: "'u uri_api \<Rightarrow> 'u \<Rightarrow> path_name option \<Rightarrow> path_name \<Rightarrow> anyhow + bytes" where
  "rebuild_path_and_query U req_uri replace_path matched_path =
     (case replace_path of
        None \<Rightarrow> Inr (case uri_path_and_query U req_uri of Some pq \<Rightarrow> pq | None \<Rightarrow> ''/'')
      | Some new_path \<Rightarrow>
          let org_pq = (case uri_path_and_query U req_uri of Some pq \<Rightarrow> pq | None \<Rightarrow> ''/'');
              matched = pn_inner matched_path
          in if \<not> (matched \<noteq> [] \<and> length matched \<le> length org_pq)
             then Inl (Anyhow ''Upstream uri path and query is broken'')
             else ok_or (pq_try_from U (pn_inner new_path @ drop (length matched) org_pq)) (Anyhow ''invalid uri''))"

definition insert_client_facing_effective_uri :: "'u uri_api \<Rightarrow> ('h, 'u, 'b) request \<Rightarrow> bytes \<Rightarrow> bytes option \<Rightarrow> 'u \<Rightarrow>
    ('h, 'u, 'b) request" where
  "insert_client_facing_effective_uri U req scheme authority original_uri =
     (case build_client_facing_effective_uri U scheme authority original_uri of
        Some effective_uri \<Rightarrow> req\<lparr>rq_effective_uri := Some effective_uri\<rparr>
      | None \<Rightarrow> req)"

text \<open>\<open>s.parse::<u64>()\<close> accepts at most \<open>u64::MAX\<close>; the limit is widened to \<open>u64\<close>.\<close>

definition check_content_length_limit :: "'h header_api \<Rightarrow> ('h, 'u, 'b) request \<Rightarrow> usize option \<Rightarrow> http_error + unit" where
  "check_content_length_limit H req limit =
     (case limit of
        None \<Rightarrow> Inr ()
      | Some limit \<Rightarrow>
          (case hm_get H (rq_headers req) CONTENT_LENGTH of
             None \<Rightarrow> Inr ()
           | Some v \<Rightarrow>
               (case hv_to_str H v of
                  None \<Rightarrow> Inr ()
                | Some s \<Rightarrow>
                    (case parse_uint (2 ^ 64 - 1) s of
                       None \<Rightarrow> Inr ()
                     | Some n \<Rightarrow> if unat limit < n then Inl PayloadTooLarge else Inr ()))))"

section \<open>Synthetic responses\<close>

definition synthetic_error_response :: "'h header_api \<Rightarrow> nat \<Rightarrow> ('h, 'b) response" where
  "synthetic_error_response H status_code = \<lparr>rs_status = status_code, rs_headers = hm_empty H, rs_body = None\<rparr>"

definition synthetic_error_response_with_close :: "'h header_api \<Rightarrow> nat \<Rightarrow> version \<Rightarrow> ('h, 'b) response" where
  "synthetic_error_response_with_close H status_code request_version =
     \<lparr>rs_status = status_code,
      rs_headers = (if request_version = HTTP_10 \<or> request_version = HTTP_11
                    then hm_append H (hm_empty H) CONNECTION ''close'' else hm_empty H),
      rs_body = None\<rparr>"

text \<open>
  \<open>secure_redirection_response\<close>: the header values of the builder are those \<open>HeaderValue\<close> accepts,
  and \<open>ServerName::to_string\<close> is the lower-case name.
\<close>

definition secure_redirection_response :: "'h header_api \<Rightarrow> 'u uri_api \<Rightarrow> server_name \<Rightarrow> u16 option \<Rightarrow>
    ('h, 'u, 'b) request \<Rightarrow> http_error + ('h, 'c) response" where
  "secure_redirection_response H U server_name tls_port req =
     (let name = sn_inner server_name;
          pq = (case uri_path_and_query U (rq_uri req) of Some x \<Rightarrow> x | None \<Rightarrow> []);
          authority = (case tls_port of None \<Rightarrow> name
                       | Some p \<Rightarrow> if p = 443 then name else name @ '':'' @ show_nat (unat p))
      in rbind (ok_or (uri_build U ''https'' authority pq) FailedToRedirect) (\<lambda>dest_uri.
         rbind (ok_or (hv_from_bytes H (uri_display U dest_uri)) FailedToRedirect) (\<lambda>v.
           Inr \<lparr>rs_status = 301, rs_headers = hm_append H (hm_empty H) LOCATION v, rs_body = None\<rparr>)))"

end
