(* ===== verification/Handler.thy ===== *)
theory Handler
  imports Request_Ops
begin

text \<open>
  The message handler of \<open>handler_main.rs\<close> and \<open>handler_manipulate_messages.rs\<close>: a request is matched
  to an application and a path group, rewritten for the chosen upstream, sent through the forwarder,
  and its response is rewritten for the client.  The state is the application manager, whose load
  balancers advance; a panic of the code is the outcome \<open>None\<close>.
\<close>

section \<open>Context\<close>

text \<open>What a request reads from outside: the load balancer's environment, clock readings, a nonce.\<close>

record handler_env =
  he_open_now :: i64
  he_lb :: lb_env
  he_set_now :: i64
  he_nonce :: bytes

record ('k, 'n) handler_globals =
  hg_proxy_config :: "'n proxy_config"
  hg_sticky_cookie_cipher :: "'k option"

record handler_context =
  hx_context_lb :: "lb_context option"
  hx_sticky_cookie_secure :: bool
  hx_sticky_cookie_config :: "sticky_config option"

section \<open>The request to the upstream\<close>

text \<open>The headers up to the choice of an upstream, with the client-visible scheme.\<close>

definition prepare_headers :: "'h header_api \<Rightarrow> 'u uri_api \<Rightarrow> 'n net_api \<Rightarrow> 'n proxy_config \<Rightarrow> socket_addr \<Rightarrow>
    socket_addr \<Rightarrow> bool \<Rightarrow> ('h, 'u, 'b) request \<Rightarrow> bytes option \<Rightarrow> anyhow + 'h \<times> bytes \<times> bool" where
  "prepare_headers H U N cfg client_addr listen_addr tls_enabled req authoritative_host =
     (let contains_te_trailers = (case hm_get H (rq_headers req) TE of None \<Rightarrow> False | Some te \<Rightarrow> te_contains_trailers te);
          original_uri = rq_uri req;
          original_host_header = hm_get H (rq_headers req) HOST;
          trusted = trusted_forwarded_proxies cfg;
          headers = remove_connection_header H (rq_headers req);
          headers = remove_hop_header H headers;
          client_scheme = client_visible_scheme H N tls_enabled client_addr headers trusted;
          sticky_cookie_secure = client_visible_secure H N tls_enabled client_addr headers trusted
      in rbind (add_forwarding_header H U N headers client_addr listen_addr tls_enabled original_uri authoritative_host trusted)
           (\<lambda>headers.
         let headers = (if contains_te_trailers then hm_insert H headers TE ''trailers'' else headers)
         in rbind (if original_host_header = None
                   then rbind (ok_or (uri_host U original_uri) (Anyhow ''Invalid request'')) (\<lambda>org_host.
                        rbind (ok_or (hv_from_str H org_host) (Anyhow ''invalid header value'')) (\<lambda>v.
                          Inr (hm_insert H headers HOST v)))
                   else Inr headers) (\<lambda>headers.
            Inr (headers, client_scheme, sticky_cookie_secure))))"

text \<open>The context for the load balancer, taken out of the sticky cookie.\<close>

definition context_to_lb :: "'h header_api \<Rightarrow> 'k cookie_crypto \<Rightarrow> i64 \<Rightarrow> 'k option \<Rightarrow> 'u candidates \<Rightarrow> 'h \<Rightarrow>
    anyhow + 'h \<times> lb_context option \<times> sticky_config option" where
  "context_to_lb H K now cipher_opt uc headers =
     (case uc_load_balance uc of
        StickyRoundRobin lb \<Rightarrow>
          rbind (ok_or cipher_opt (Anyhow ''sticky-cookie cipher is not configured'')) (\<lambda>cipher.
            let (headers, r) = takeout_sticky_cookie_lb_context H K now headers (st_config lb) cipher
            in rbind r (\<lambda>ctx. Inr (headers, ctx, Some (st_config lb))))
      | _ \<Rightarrow> Inr (headers, None, None))"

text \<open>The rest of \<open>generate_request_forwarded\<close>, once the upstream is chosen.\<close>

definition finish_request :: "'h header_api \<Rightarrow> 'u uri_api \<Rightarrow> 'n net_api \<Rightarrow> 'n proxy_config \<Rightarrow> ('h, 'u, 'b) request \<Rightarrow>
    bytes option \<Rightarrow> 'u candidates \<Rightarrow> server_name option \<Rightarrow> bytes option \<Rightarrow> 'h \<Rightarrow> bytes \<Rightarrow> 'u upstream option \<Rightarrow>
    anyhow + ('h, 'u, 'b) request" where
  "finish_request H U N cfg req upgrade uc fallback_host authoritative_host headers client_scheme upstream_chosen_opt =
     rbind (ok_or upstream_chosen_opt (Anyhow ''Failed to get upstream'')) (\<lambda>upstream_chosen.
     rbind (apply_upstream_options_to_header H N headers authoritative_host upstream_chosen uc (trusted_forwarded_proxies cfg))
       (\<lambda>headers.
     rbind (case fallback_host of
              Some default_app_host \<Rightarrow> apply_default_app_host_rewrite H headers default_app_host
            | None \<Rightarrow> Inr headers) (\<lambda>headers.
     case (uri_authority U (up_uri upstream_chosen), uri_scheme U (up_uri upstream_chosen)) of
       (Some authority, Some scheme) \<Rightarrow>
         rbind (rebuild_path_and_query U (rq_uri req) (uc_replace_path uc) (uc_path uc)) (\<lambda>new_pq.
         rbind (ok_or (uri_build U scheme authority new_pq) (Anyhow ''invalid uri'')) (\<lambda>new_uri.
         rbind (case upgrade of
                  Some v \<Rightarrow>
                    rbind (ok_or (hv_from_str H v) (Anyhow ''invalid header value'')) (\<lambda>v.
                      Inr (req\<lparr>rq_uri := new_uri,
                               rq_headers := hm_insert H (hm_insert H headers UPGRADE v) CONNECTION ''upgrade''\<rparr>))
                | None \<Rightarrow>
                    Inr (update_request_line H U (req\<lparr>rq_uri := new_uri, rq_headers := headers\<rparr>) upstream_chosen uc))
           (\<lambda>req'.
           Inr (insert_client_facing_effective_uri U req' client_scheme authoritative_host (rq_uri req)))))
     | _ \<Rightarrow> Inl (Anyhow ''Upstream uri scheme and authority is broken''))))"

text \<open>
  \<open>generate_request_forwarded\<close>: the request and the context, and the path group with its advanced
  load balancer; \<open>None\<close> is the panic of a sticky balancer without upstreams.
\<close>

definition generate_request_forwarded :: "'h header_api \<Rightarrow> 'u uri_api \<Rightarrow> 'k cookie_crypto \<Rightarrow> 'n net_api \<Rightarrow>
    ('k, 'n) handler_globals \<Rightarrow> handler_env \<Rightarrow> socket_addr \<Rightarrow> socket_addr \<Rightarrow> ('h, 'u, 'b) request \<Rightarrow> bytes option \<Rightarrow>
    'u candidates \<Rightarrow> bool \<Rightarrow> server_name option \<Rightarrow>
    ((anyhow + ('h, 'u, 'b) request \<times> handler_context) \<times> 'u candidates) option" where
  "generate_request_forwarded H U K N G E client_addr listen_addr req upgrade uc tls_enabled fallback_host =
     (let cfg = hg_proxy_config G;
          authoritative_host = res_ok (host_from_uri_or_host_header H U (rq_uri req) (hm_get H (rq_headers req) HOST))
      in case rbind (prepare_headers H U N cfg client_addr listen_addr tls_enabled req authoritative_host)
                (\<lambda>(headers, client_scheme, secure).
                  rbind (context_to_lb H K (he_open_now E) (hg_sticky_cookie_cipher G) uc headers)
                    (\<lambda>(headers, ctx, sticky_config). Inr (headers, client_scheme, secure, ctx, sticky_config))) of
           Inl e \<Rightarrow> Some (Inl e, uc)
         | Inr (headers, client_scheme, secure, ctx, sticky_config) \<Rightarrow>
             (case candidates_get (he_lb E) ctx uc of
                (None, _) \<Rightarrow> None
              | (Some (upstream_chosen_opt, context_from_lb), uc') \<Rightarrow>
                  Some
                    (rbind (finish_request H U N cfg req upgrade uc fallback_host authoritative_host headers client_scheme
                              upstream_chosen_opt) (\<lambda>req'.
                       Inr (req', \<lparr>hx_context_lb = context_from_lb, hx_sticky_cookie_secure = secure,
                                   hx_sticky_cookie_config = sticky_config\<rparr>)),
                     uc')))"

section \<open>The response to the client\<close>

definition generate_response_forwarded :: "'h header_api \<Rightarrow> 'n proxy_config \<Rightarrow> ('h, 'c) response \<Rightarrow> 'u backend_app \<Rightarrow>
    bool \<Rightarrow> anyhow + ('h, 'c) response" where
  "generate_response_forwarded H cfg res app is_secure_transport =
     (let headers = remove_connection_header H (rs_headers res);
          headers = remove_hop_header H headers
      in rbind (add_header_entry_overwrite_if_exist H headers SERVER RESPONSE_HEADER_SERVER) (\<lambda>headers.
         rbind (case h3_alt_svc_port cfg (ba_mutual_tls app) is_secure_transport of
                  Some port \<Rightarrow>
                    add_header_entry_overwrite_if_exist H headers ALT_SVC
                      (''h3='' @ [CHR 0x22] @ '':'' @ show_nat (unat port) @ [CHR 0x22] @ ''; ma='' @
                       show_nat (unat (h3_alt_svc_max_age cfg)))
                | None \<Rightarrow> Inr (snd (hm_remove H headers ALT_SVC))) (\<lambda>headers.
         Inr (res\<lparr>rs_headers := headers\<rparr>))))"

section \<open>Handling a request\<close>

text \<open>The manager with a path group replaced: its load balancer has advanced.\<close>

definition store_group :: "'u app_manager \<Rightarrow> server_name \<Rightarrow> 'u backend_app \<Rightarrow> 'u candidates \<Rightarrow> 'u app_manager" where
  "store_group am name app uc =
     am\<lparr>am_apps := AList.update name (app\<lparr>ba_path_manager := AList.update (uc_path uc) uc (ba_path_manager app)\<rparr>) (am_apps am)\<rparr>"

text \<open>
  The application that serves a host, under the name it is registered with, and whether it is the
  default application.  The inner \<open>None\<close> of the result is the panic of \<open>unwrap\<close>.
\<close>

definition find_backend_app :: "'u app_manager \<Rightarrow> server_name \<Rightarrow> bool \<Rightarrow>
    http_error + (server_name \<times> 'u backend_app \<times> bool) option" where
  "find_backend_app am server_name tls_enabled =
     (case map_of (am_apps am) server_name of
        Some backend_app \<Rightarrow> Inr (Some (server_name, backend_app, False))
      | None \<Rightarrow>
          if \<not> tls_enabled then
            (case am_default_server_name am of
               None \<Rightarrow> Inl NoMatchingBackendApp
             | Some default_server_name \<Rightarrow>
                 Inr (map_option (\<lambda>app. (default_server_name, app, True)) (map_of (am_apps am) default_server_name)))
          else Inl NoMatchingBackendApp)"

text \<open>
  The checks before an upstream is contacted: host, SNI consistency, announced length, application,
  redirection, path, and upgrade; a redirection is a response of its own.
\<close>

datatype ('h, 'u, 'c) routed =
    Redirected "('h, 'c) response"
  | Routed server_name "'u backend_app" bool "'u candidates" "bytes option"

definition route_request :: "'h header_api \<Rightarrow> 'u uri_api \<Rightarrow> 'n proxy_config \<Rightarrow> 'u app_manager \<Rightarrow> ('h, 'u, 'b) request \<Rightarrow>
    bool \<Rightarrow> server_name option \<Rightarrow> http_error + ('h, 'u, 'c) routed option" where
  "route_request H U cfg am req tls_enabled tls_server_name =
     rbind (map_err (\<lambda>_. InvalidHostInRequestHeader) (inspect_parse_host H U req)) (\<lambda>host.
     let server_name = to_server_name host
     in if tls_enabled \<and> sni_consistency cfg \<and>
           server_name \<noteq> (case tls_server_name of Some n \<Rightarrow> n | None \<Rightarrow> ServerName [])
        then Inl SniHostInconsistency
        else
          rbind (check_content_length_limit H req (request_max_body_size cfg)) (\<lambda>_.
          rbind (find_backend_app am server_name tls_enabled) (\<lambda>found.
          case found of
            None \<Rightarrow> Inr None
          | Some (name, backend_app, fallback_to_default_app) \<Rightarrow>
              if \<not> tls_enabled \<and> ba_https_redirection backend_app = Some True
              then rbind (secure_redirection_response H U (ba_server_name backend_app) (public_https_port cfg) req)
                     (\<lambda>res. Inr (Some (Redirected res)))
              else
                rbind (ok_or (path_manager_get (ba_path_manager backend_app) (uri_path U (rq_uri req))) NoUpstreamCandidates)
                  (\<lambda>upstream_candidates.
                let upgrade_in_request = extract_upgrade H (rq_headers req)
                in if upgrade_in_request \<noteq> None \<and> rq_version req \<noteq> HTTP_11 then Inl FailedToUpgrade
                   else Inr (Some (Routed name backend_app fallback_to_default_app upstream_candidates upgrade_in_request))))))"

text \<open>What follows the response of the upstream; the flag says that a tunnel task was spawned.\<close>

definition finish_response :: "'h header_api \<Rightarrow> 'k cookie_crypto \<Rightarrow> ('k, 'n) handler_globals \<Rightarrow> handler_env \<Rightarrow>
    'u backend_app \<Rightarrow> bool \<Rightarrow> bytes option \<Rightarrow> handler_context \<Rightarrow> ('h, 'c) response \<Rightarrow> http_error + ('h, 'c) response \<times> bool" where
  "finish_response H K G E backend_app tls_enabled upgrade_in_request context res_backend =
     rbind (case hx_context_lb context of
              None \<Rightarrow> Inr res_backend
            | Some context_from_lb \<Rightarrow>
                rbind (ok_or (hx_sticky_cookie_config context)
                         (FailedToAddSetCookeInResponse (Anyhow ''missing sticky-cookie config''))) (\<lambda>sticky_config.
                rbind (ok_or (hg_sticky_cookie_cipher G)
                         (FailedToAddSetCookeInResponse (Anyhow ''missing sticky-cookie cipher''))) (\<lambda>cipher.
                rbind (map_err FailedToAddSetCookeInResponse
                         (set_sticky_cookie_lb_context H K (he_set_now E) (he_nonce E) (rs_headers res_backend)
                            context_from_lb sticky_config (hx_sticky_cookie_secure context) cipher)) (\<lambda>headers.
                  Inr (res_backend\<lparr>rs_headers := headers\<rparr>))))) (\<lambda>res_backend.
     if rs_status res_backend \<noteq> 101
     then rbind (map_err FailedToGenerateDownstreamResponse
                   (generate_response_forwarded H (hg_proxy_config G) res_backend backend_app tls_enabled)) (\<lambda>res.
            Inr (res, False))
     else
       let should_upgrade =
         (case (upgrade_in_request, extract_upgrade H (rs_headers res_backend)) of
            (Some u_req, Some u_res) \<Rightarrow> eq_ignore_ascii_case u_req u_res
          | _ \<Rightarrow> False)
       in if \<not> should_upgrade then Inl FailedToUpgrade else Inr (res_backend, True))"

definition handle_request_inner :: "'h header_api \<Rightarrow> 'u uri_api \<Rightarrow> 'k cookie_crypto \<Rightarrow> 'n net_api \<Rightarrow>
    ('k, 'n) handler_globals \<Rightarrow> handler_env \<Rightarrow> (('h, 'u, 'b) request \<Rightarrow> rpxy_error + ('h, 'c) response) \<Rightarrow>
    'u app_manager \<Rightarrow> ('h, 'u, 'b) request \<Rightarrow> socket_addr \<Rightarrow> socket_addr \<Rightarrow> bool \<Rightarrow> server_name option \<Rightarrow>
    ((http_error + ('h, 'c) response \<times> bool) \<times> 'u app_manager) option" where
  "handle_request_inner H U K N G E forwarder am req client_addr listen_addr tls_enabled tls_server_name =
     (case route_request H U (hg_proxy_config G) am req tls_enabled tls_server_name of
        Inl e \<Rightarrow> Some (Inl e, am)
      | Inr None \<Rightarrow> None
      | Inr (Some (Redirected res)) \<Rightarrow> Some (Inr (res, False), am)
      | Inr (Some (Routed name backend_app fallback uc upgrade)) \<Rightarrow>
          (case generate_request_forwarded H U K N G E client_addr listen_addr req upgrade uc tls_enabled
                  (if fallback then Some (ba_server_name backend_app) else None) of
             None \<Rightarrow> None
           | Some (r, uc') \<Rightarrow>
               Some
                 (rbind (map_err FailedToGenerateUpstreamRequest r) (\<lambda>(req', context).
                  rbind (map_err FailedToGetResponseFromBackend (forwarder req')) (\<lambda>res_backend.
                    finish_response H K G E backend_app tls_enabled upgrade context res_backend)),
                  store_group am name backend_app uc')))"

text \<open>\<open>handle_request\<close>: an error becomes a synthetic response.\<close>

definition handle_request :: "'h header_api \<Rightarrow> 'u uri_api \<Rightarrow> 'k cookie_crypto \<Rightarrow> 'n net_api \<Rightarrow>
    ('k, 'n) handler_globals \<Rightarrow> handler_env \<Rightarrow> (('h, 'u, 'b) request \<Rightarrow> rpxy_error + ('h, 'c) response) \<Rightarrow>
    'u app_manager \<Rightarrow> ('h, 'u, 'b) request \<Rightarrow> socket_addr \<Rightarrow> socket_addr \<Rightarrow> bool \<Rightarrow> server_name option \<Rightarrow>
    (('h, 'c) response \<times> bool \<times> 'u app_manager) option" where
  "handle_request H U K N G E forwarder am req client_addr listen_addr tls_enabled tls_server_name =
     map_option (\<lambda>(r, am').
       case r of
         Inr (v, tunnel) \<Rightarrow> (v, tunnel, am')
       | Inl e \<Rightarrow>
           (if e = PayloadTooLarge then synthetic_error_response_with_close H (http_status e) (rq_version req)
            else synthetic_error_response H (http_status e), False, am'))
       (handle_request_inner H U K N G E forwarder am req client_addr listen_addr tls_enabled tls_server_name)"

section \<open>A built manager serves every sequence of requests\<close>

text \<open>
  The invariant of the manager: every group has upstreams and a well-formed load balancer, and a
  default application is a registered one.
\<close>

definition serving_group :: "'u candidates \<Rightarrow> bool" where
  "serving_group uc \<longleftrightarrow> uc_inner uc \<noteq> [] \<and> lb_wf (uc_inner uc) (uc_load_balance uc)"

definition serving_app :: "'u backend_app \<Rightarrow> bool" where
  "serving_app a \<longleftrightarrow> (\<forall>(r, uc) \<in> set (ba_path_manager a). serving_group uc)"

definition serving_manager :: "'u app_manager \<Rightarrow> bool" where
  "serving_manager am \<longleftrightarrow>
     (\<forall>(k, a) \<in> set (am_apps am). serving_app a) \<and>
     (case am_default_server_name am of None \<Rightarrow> True | Some d \<Rightarrow> map_of (am_apps am) d \<noteq> None)"

lemma set_update_subset: "set (AList.update k v al) \<subseteq> insert (k, v) (set al)"
  by (induction al) auto

lemma store_group_serving:
  assumes "serving_manager am" and "serving_app app" and "serving_group uc"
  shows "serving_manager (store_group am name app uc)"
proof -
  have "serving_app (app\<lparr>ba_path_manager := AList.update (uc_path uc) uc (ba_path_manager app)\<rparr>)"
    using assms(2,3) set_update_subset [of "uc_path uc" uc "ba_path_manager app"] by (auto simp: serving_app_def)
  then show ?thesis
    using assms(1) set_update_subset [of name _ "am_apps am"]
    by (fastforce simp: serving_manager_def store_group_def update_conv' split: option.splits)
qed

lemma candidates_get_serving:
  assumes "serving_group uc" and "env_ok E"
  obtains u ctx uc' where "candidates_get E c uc = (Some (Some u, ctx), uc')" and "u \<in> set (uc_inner uc)"
    and "serving_group uc'" and "uc_path uc' = uc_path uc"
proof -
  have wf: "uc_inner uc \<noteq> []" "lb_wf (uc_inner uc) (uc_load_balance uc)" using assms(1) by (simp_all add: serving_group_def)
  obtain p lb where g: "get_context E c (uc_inner uc) (uc_load_balance uc) = (Some p, lb)" "pt_ptr p < length (uc_inner uc)"
    using lb_any.get_ptr_in_range [OF wf(2,1) assms(2), of c] by (metis prod.collapse)
  have "lb_wf (uc_inner uc) lb" using get_context_wf [OF wf(2,1) assms(2), of c] g(1) by simp
  then show thesis
    using that [of "uc_inner uc ! pt_ptr p" "pt_context p" "uc\<lparr>uc_load_balance := lb\<rparr>"] g wf(1)
    by (simp add: candidates_get_def serving_group_def)
qed

lemma generate_request_serving:
  assumes "serving_group uc" and "env_ok (he_lb E)"
  shows "\<exists>r uc'. generate_request_forwarded H U K N G E ca la req up uc tls fb = Some (r, uc') \<and> serving_group uc'"
proof -
  have "\<exists>u ctx uc'. candidates_get (he_lb E) c uc = (Some (Some u, ctx), uc') \<and> serving_group uc'" for c
    by (rule candidates_get_serving [OF assms, of c]) blast
  then obtain u ctx uc' where get: "\<And>c. candidates_get (he_lb E) c uc = (Some (Some (u c), ctx c), uc' c)"
      "\<And>c. serving_group (uc' c)"
    by metis
  show ?thesis
    unfolding generate_request_forwarded_def Let_def by (auto simp: get assms(1) split: sum.splits)
qed

lemma route_request_Inr:
  assumes "route_request H U cfg am req tls sni = Inr routed"
  obtains host found where "inspect_parse_host H U req = Inr host"
    and "tls \<Longrightarrow> sni_consistency cfg \<Longrightarrow> to_server_name host = (case sni of Some n \<Rightarrow> n | None \<Rightarrow> ServerName [])"
    and "check_content_length_limit H req (request_max_body_size cfg) = Inr ()"
    and "find_backend_app am (to_server_name host) tls = Inr found"
    and "found = None \<Longrightarrow> routed = None"
    and "\<And>name app fb. found = Some (name, app, fb) \<Longrightarrow>
           (\<exists>res. routed = Some (Redirected res) \<and> \<not> tls \<and> ba_https_redirection app = Some True) \<or>
           (\<exists>uc. path_manager_get (ba_path_manager app) (uri_path U (rq_uri req)) = Some uc \<and>
              (tls \<or> ba_https_redirection app \<noteq> Some True) \<and>
              routed = Some (Routed name app fb uc (extract_upgrade H (rq_headers req))))"
proof -
  obtain host where h: "inspect_parse_host H U req = Inr host"
    using assms unfolding route_request_def by auto
  then have sni: "\<not> (tls \<and> sni_consistency cfg \<and> to_server_name host \<noteq> (case sni of Some n \<Rightarrow> n | None \<Rightarrow> ServerName []))"
    using assms unfolding route_request_def by (auto simp: Let_def split: if_splits)
  obtain found where c: "check_content_length_limit H req (request_max_body_size cfg) = Inr ()"
    and f: "find_backend_app am (to_server_name host) tls = Inr found"
    using assms h sni unfolding route_request_def Let_def by (auto split: if_splits)
  have r: "(case found of
            None \<Rightarrow> Inr None
          | Some (name, backend_app, fallback_to_default_app) \<Rightarrow>
              if \<not> tls \<and> ba_https_redirection backend_app = Some True
              then rbind (secure_redirection_response H U (ba_server_name backend_app) (public_https_port cfg) req)
                     (\<lambda>res. Inr (Some (Redirected res)))
              else
                rbind (ok_or (path_manager_get (ba_path_manager backend_app) (uri_path U (rq_uri req))) NoUpstreamCandidates)
                  (\<lambda>upstream_candidates.
                let upgrade_in_request = extract_upgrade H (rq_headers req)
                in if upgrade_in_request \<noteq> None \<and> rq_version req \<noteq> HTTP_11 then Inl FailedToUpgrade
                   else Inr (Some (Routed name backend_app fallback_to_default_app upstream_candidates upgrade_in_request)))) =
        Inr routed"
    using assms unfolding route_request_def Let_def h c map_err_simps rbind_simps if_not_P [OF sni] f .
  show thesis
  proof (rule that [OF h _ c f])
    show "tls \<Longrightarrow> sni_consistency cfg \<Longrightarrow> to_server_name host = (case sni of Some n \<Rightarrow> n | None \<Rightarrow> ServerName [])"
      using sni by blast
    show "found = None \<Longrightarrow> routed = None" using r by simp
  next
    fix name app fb
    assume "found = Some (name, app, fb)"
    then show "(\<exists>res. routed = Some (Redirected res) \<and> \<not> tls \<and> ba_https_redirection app = Some True) \<or>
           (\<exists>uc. path_manager_get (ba_path_manager app) (uri_path U (rq_uri req)) = Some uc \<and>
              (tls \<or> ba_https_redirection app \<noteq> Some True) \<and>
              routed = Some (Routed name app fb uc (extract_upgrade H (rq_headers req))))"
      using r by (auto simp: Let_def split: if_splits)
  qed
qed

lemma find_backend_app_serving:
  assumes "serving_manager am" and "find_backend_app am sn tls = Inr found"
  obtains name app fb where "found = Some (name, app, fb)" and "serving_app app"
proof -
  have s: "serving_app a" if "map_of (am_apps am) k = Some a" for k a
    using assms(1) map_of_SomeD [OF that] by (auto simp: serving_manager_def)
  show thesis
  proof (cases "map_of (am_apps am) sn")
    case None
    then obtain d where d: "am_default_server_name am = Some d" and
        fd: "found = map_option (\<lambda>app. (d, app, True)) (map_of (am_apps am) d)"
      using assms(2) by (auto simp: find_backend_app_def split: if_splits option.splits)
    moreover obtain a where "map_of (am_apps am) d = Some a" using assms(1) d by (auto simp: serving_manager_def)
    ultimately show thesis using that s by simp
  next
    case (Some a)
    then have "found = Some (sn, a, False)" using assms(2) by (auto simp: find_backend_app_def)
    then show thesis using that s [OF Some] by blast
  qed
qed

lemma route_request_serving:
  assumes "serving_manager am" and "route_request H U cfg am req tls sni = Inr routed"
  shows "routed \<noteq> None"
    and "routed = Some (Routed name app fb uc up) \<Longrightarrow> serving_app app \<and> serving_group uc"
proof -
  obtain host found where f: "find_backend_app am (to_server_name host) tls = Inr found"
    and c: "\<And>name app fb. found = Some (name, app, fb) \<Longrightarrow>
           (\<exists>res. routed = Some (Redirected res) \<and> \<not> tls \<and> ba_https_redirection app = Some True) \<or>
           (\<exists>uc. path_manager_get (ba_path_manager app) (uri_path U (rq_uri req)) = Some uc \<and>
              (tls \<or> ba_https_redirection app \<noteq> Some True) \<and>
              routed = Some (Routed name app fb uc (extract_upgrade H (rq_headers req))))"
    by (rule route_request_Inr [OF assms(2)]) blast
  obtain n a b where "found = Some (n, a, b)" and "serving_app a"
    by (rule find_backend_app_serving [OF assms(1) f]) blast
  moreover from c [OF this(1)] have r: "(\<exists>res. routed = Some (Redirected res)) \<or>
      (\<exists>uc. path_manager_get (ba_path_manager a) (uri_path U (rq_uri req)) = Some uc \<and>
            routed = Some (Routed n a b uc (extract_upgrade H (rq_headers req))))"
    by blast
  moreover have "serving_group uc" if "serving_app a" "path_manager_get (ba_path_manager a) p = Some uc" for p uc
    by (rule path_manager_get_Some [OF that(2)]) (use that(1) in \<open>auto simp: serving_app_def\<close>)
  ultimately show "routed \<noteq> None" "routed = Some (Routed name app fb uc up) \<Longrightarrow> serving_app app \<and> serving_group uc"
    by auto
qed

lemma handle_inner_serving:
  fixes H :: "'h header_api" and U :: "'u uri_api" and fwd :: "('h, 'u, 'b) request \<Rightarrow> rpxy_error + ('h, 'c) response"
  assumes "serving_manager am" and "env_ok (he_lb E)"
  shows "\<exists>r am'. handle_request_inner H U K N G E fwd am req ca la tls sni = Some (r, am') \<and> serving_manager am'"
proof (cases "route_request H U (hg_proxy_config G) am req tls sni :: http_error + ('h, 'u, 'c) routed option")
  case (Inl e)
  then show ?thesis using assms(1) by (simp add: handle_request_inner_def)
next
  case (Inr routed)
  then obtain x where x: "routed = Some x" using route_request_serving(1) [OF assms(1)] by blast
  show ?thesis
  proof (cases x)
    case (Redirected res)
    then show ?thesis using Inr x assms(1) by (simp add: handle_request_inner_def)
  next
    case (Routed name app fb uc up)
    then have s: "serving_app app" "serving_group uc" using route_request_serving(2) [OF assms(1) Inr] x by blast+
    obtain r uc' where g: "generate_request_forwarded H U K N G E ca la req up uc tls
        (if fb then Some (ba_server_name app) else None) = Some (r, uc')" "serving_group uc'"
      using generate_request_serving [OF s(2) assms(2)] by blast
    then show ?thesis
      using Inr x Routed store_group_serving [OF assms(1) s(1) g(2)] by (simp add: handle_request_inner_def)
  qed
qed

text \<open>Serving a sequence of requests, each with its environment and what the forwarder answers.\<close>

record ('h, 'u, 'b, 'c) arrival =
  ar_env :: handler_env
  ar_forwarder :: "('h, 'u, 'b) request \<Rightarrow> rpxy_error + ('h, 'c) response"
  ar_request :: "('h, 'u, 'b) request"
  ar_client :: socket_addr
  ar_listen :: socket_addr
  ar_tls :: bool
  ar_sni :: "server_name option"

fun serve_requests :: "'h header_api \<Rightarrow> 'u uri_api \<Rightarrow> 'k cookie_crypto \<Rightarrow> 'n net_api \<Rightarrow> ('k, 'n) handler_globals \<Rightarrow>
    'u app_manager \<Rightarrow> ('h, 'u, 'b, 'c) arrival list \<Rightarrow> ('h, 'c) response list option" where
  "serve_requests H U K N G am [] = Some []"
| "serve_requests H U K N G am (a # as) =
     (case handle_request H U K N G (ar_env a) (ar_forwarder a) am (ar_request a) (ar_client a) (ar_listen a) (ar_tls a) (ar_sni a) of
        None \<Rightarrow> None
      | Some (res, _, am') \<Rightarrow> map_option ((#) res) (serve_requests H U K N G am' as))"

lemma serve_requests_serving:
  assumes "serving_manager am" and "\<forall>a \<in> set as. env_ok (he_lb (ar_env a))"
  shows "\<exists>rs. serve_requests H U K N G am as = Some rs \<and> length rs = length as"
  using assms
proof (induction as arbitrary: am)
  case (Cons a as)
  obtain r am' where h: "handle_request_inner H U K N G (ar_env a) (ar_forwarder a) am (ar_request a) (ar_client a)
      (ar_listen a) (ar_tls a) (ar_sni a) = Some (r, am')" and s: "serving_manager am'"
    using handle_inner_serving [OF Cons.prems(1)] Cons.prems(2) by (metis list.set_intros(1))
  obtain rs where "serve_requests H U K N G am' as = Some rs" "length rs = length as"
    using Cons.IH [OF s] Cons.prems(2) by auto
  then show ?case using h by (auto simp: handle_request_def split: sum.splits)
qed simp

text \<open>The configuration loader rejects a path without upstreams.\<close>

definition has_upstreams :: "'u app_config_list \<Rightarrow> bool" where
  "has_upstreams acl \<longleftrightarrow> list_all (\<lambda>ac. list_all (\<lambda>rpc. rp_upstream rpc \<noteq> []) (ac_reverse_proxy ac)) (acl_inner acl)"

lemma build_candidates_serving:
  assumes "build_candidates H U K sn n rpc = Inr (uc, n')" and "rp_upstream rpc \<noteq> []"
  shows "serving_group uc"
proof -
  obtain ups m where b: "build_upstreams H U n rpc = (ups, m)" by (cases "build_upstreams H U n rpc")
  have "ups \<noteq> []"
    using b assms(2) by (auto simp: build_upstreams_def enumerate_eq_zip split: option.splits)
  then show ?thesis
    using assms(1) b by (auto simp: build_candidates_def serving_group_def dest: build_load_balance_wf)
qed

lemma build_paths_serving:
  assumes "build_paths H U K sn n rpcs inner = Inr (pm, n')" and "\<forall>rpc \<in> set rpcs. rp_upstream rpc \<noteq> []"
    and "\<forall>(r, uc) \<in> set inner. serving_group uc"
  shows "\<forall>(r, uc) \<in> set pm. serving_group uc"
  using assms
proof (induction rpcs arbitrary: n inner)
  case (Cons rpc rpcs)
  then obtain uc m where uc: "build_candidates H U K sn n rpc = Inr (uc, m)"
    and rest: "build_paths H U K sn m rpcs (AList.update (uc_path uc) uc inner) = Inr (pm, n')"
    by auto
  have "serving_group uc" using uc Cons.prems(2) by (auto intro: build_candidates_serving)
  then have "\<forall>(r, u) \<in> set (AList.update (uc_path uc) uc inner). serving_group u"
    using Cons.prems(3) set_update_subset [of "uc_path uc" uc inner] by blast
  then show ?case using Cons.IH [OF rest] Cons.prems(2) by simp
qed simp

lemma build_apps_serving:
  assumes "build_apps H U K n acs apps = Inr (apps', n')"
    and "\<forall>ac \<in> set acs. \<forall>rpc \<in> set (ac_reverse_proxy ac). rp_upstream rpc \<noteq> []"
    and "\<forall>(k, a) \<in> set apps. serving_app a"
  shows "\<forall>(k, a) \<in> set apps'. serving_app a"
  using assms
proof (induction acs arbitrary: n apps)
  case (Cons ac acs)
  then obtain b m where b: "backend_app_try_from H U K n ac = Inr (b, m)"
    and rest: "build_apps H U K m acs (AList.update (to_server_name (ac_server_name ac)) b apps) = Inr (apps', n')"
    by auto
  obtain pm where "build_paths H U K (ac_server_name ac) n (ac_reverse_proxy ac) [] = Inr (pm, m)" "ba_path_manager b = pm"
    using b by (auto simp: backend_app_try_from_def path_manager_try_from_def split: if_splits)
  then have "serving_app b"
    using build_paths_serving [of H U K _ n "ac_reverse_proxy ac" "[]" pm m] Cons.prems(2) by (auto simp: serving_app_def)
  then have "\<forall>(k, a) \<in> set (AList.update (to_server_name (ac_server_name ac)) b apps). serving_app a"
    using Cons.prems(3) set_update_subset [of "to_server_name (ac_server_name ac)" b apps] by blast
  then show ?case using Cons.IH [OF rest] Cons.prems(2) by simp
qed simp

lemma first_value_SomeD: "first_value xs = Some x \<Longrightarrow> x \<in> set xs"
  by (cases xs) auto

lemma built_serving:
  assumes "app_manager_try_from H U K n acl = Inr (am, n')" and "has_upstreams acl"
  shows "serving_manager am"
proof -
  obtain apps where apps: "build_apps H U K n (acl_inner acl) [] = Inr (apps, n')" "am_apps am = apps"
    and d0: "am_default_server_name am = None \<or> (\<exists>name. am_default_server_name am =
      first_value (map (\<lambda>(_, v). ba_server_name v) (filter (\<lambda>(_, v). ba_app_name v = name) apps)))"
    using assms(1) by (auto simp: app_manager_try_from_def split: option.splits) blast
  have d: "\<exists>k v. (k, v) \<in> set apps \<and> ba_server_name v = d" if "am_default_server_name am = Some d" for d
    using d0 that by (auto dest!: sym [of "Some d"] first_value_SomeD) blast
  have "apps_ok n n []" by (simp add: apps_ok_def)
  from build_apps_ok [OF apps(1) this] have ok: "\<forall>(k, a) \<in> set apps. ba_server_name a = k" by (auto simp: apps_ok_def)
  have "map_of apps d \<noteq> None" if "am_default_server_name am = Some d" for d
  proof -
    note d' = d [OF that]
    obtain k v where kv: "(k, v) \<in> set apps" "ba_server_name v = d" using d' by blast
    then have "(d, v) \<in> set apps" using ok by auto
    then show ?thesis by (simp add: map_of_eq_None_iff image_iff) force
  qed
  moreover have "\<forall>(k, a) \<in> set apps. serving_app a"
    using build_apps_serving [OF apps(1)] assms(2) by (simp add: has_upstreams_def list_all_iff)
  ultimately show ?thesis using apps(2) by (auto simp: serving_manager_def split: option.splits)
qed

text \<open>
  The server never panics.  A manager built from a configuration whose paths all have upstreams
  answers every sequence of requests, whatever hosts, headers and paths they carry, whatever the
  upstreams answer, and however the health flags change meanwhile: each request gets a response.
\<close>

theorem built_manager_serves_all:
  assumes "app_manager_try_from H U K n acl = Inr (am, n')" and "has_upstreams acl"
    and "\<forall>a \<in> set arrivals. env_ok (he_lb (ar_env a))"
  shows "\<exists>responses. serve_requests H U K N G am arrivals = Some responses \<and> length responses = length arrivals"
  using serve_requests_serving [OF built_serving [OF assms(1,2)] assms(3)] .

definition sample_arrival :: "(header_lines, bytes, unit, unit) arrival" where
  "sample_arrival =
     \<lparr>ar_env = \<lparr>he_open_now = 0, he_lb = \<lparr>env_view = (\<lambda>_ _. True), env_random = (\<lambda>n. 0), env_now = 0\<rparr>,
                he_set_now = 0, he_nonce = []\<rparr>,
      ar_forwarder = (\<lambda>_. Inr \<lparr>rs_status = 200, rs_headers = [], rs_body = None\<rparr>),
      ar_request = \<lparr>rq_method = ''GET'', rq_uri = ''example.com'', rq_version = HTTP_11, rq_headers = [],
                    rq_effective_uri = None, rq_body = ()\<rparr>,
      ar_client = SocketAddr sample_peer 5, ar_listen = SocketAddr sample_peer 80, ar_tls = False, ar_sni = None\<rparr>"

theorem built_manager_serves_all_witness:
  "\<exists>am n' responses. app_manager_try_from lines_api sample_uri_api sample_crypto 0 sample_config = Inr (am, n') \<and>
     serve_requests lines_api sample_uri_api sample_crypto sample_net_api
       \<lparr>hg_proxy_config = proxy_config_default, hg_sticky_cookie_cipher = None\<rparr> am [sample_arrival, sample_arrival] =
       Some responses \<and> length responses = 2"
proof -
  obtain am n' where am: "app_manager_try_from lines_api sample_uri_api sample_crypto 0 sample_config = Inr (am, n')"
    by (simp add: app_manager_try_from_def sample_config_def backend_app_try_from_def path_manager_try_from_def
        build_candidates_def build_upstreams_def build_load_balance_def build_options_def)
  have "has_upstreams sample_config" by (simp add: has_upstreams_def sample_config_def)
  moreover have "\<forall>a \<in> set [sample_arrival, sample_arrival]. env_ok (he_lb (ar_env a))"
    by (simp add: sample_arrival_def env_ok_def)
  ultimately show ?thesis
    using built_manager_serves_all [OF am, of "[sample_arrival, sample_arrival]"] am by fastforce
qed

text \<open>
  C8: Who may be served.  A request is routed to an application only if its host is well formed and
  its announced length within the limit; with TLS and the consistency check the host is the SNI
  name; the application is the one registered for the host, or the default application, and that
  one only without TLS; and an application that redirects to https serves nothing in plaintext.
\<close>

theorem routed_requests_authorised:
  assumes "route_request H U cfg am req tls sni = Inr (Some (Routed name app fallback uc up))"
  shows "\<exists>host. inspect_parse_host H U req = Inr host \<and>
           check_content_length_limit H req (request_max_body_size cfg) = Inr () \<and>
           (tls \<and> sni_consistency cfg \<longrightarrow> to_server_name host = (case sni of Some n \<Rightarrow> n | None \<Rightarrow> ServerName [])) \<and>
           map_of (am_apps am) name = Some app \<and>
           (if fallback then \<not> tls \<and> map_of (am_apps am) (to_server_name host) = None \<and> am_default_server_name am = Some name
            else name = to_server_name host) \<and>
           (\<not> tls \<longrightarrow> ba_https_redirection app \<noteq> Some True) \<and>
           path_manager_get (ba_path_manager app) (uri_path U (rq_uri req)) = Some uc"
proof (rule route_request_Inr [OF assms])
  fix host found
  assume h: "inspect_parse_host H U req = Inr host"
    and sni: "tls \<Longrightarrow> sni_consistency cfg \<Longrightarrow> to_server_name host = (case sni of Some n \<Rightarrow> n | None \<Rightarrow> ServerName [])"
    and c: "check_content_length_limit H req (request_max_body_size cfg) = Inr ()"
    and f: "find_backend_app am (to_server_name host) tls = Inr found"
    and n: "found = None \<Longrightarrow> Some (Routed name app fallback uc up) = None"
    and r: "\<And>name' app' fb'. found = Some (name', app', fb') \<Longrightarrow>
           (\<exists>res. Some (Routed name app fallback uc up) = Some (Redirected res) \<and> \<not> tls \<and> ba_https_redirection app' = Some True) \<or>
           (\<exists>uc'. path_manager_get (ba_path_manager app') (uri_path U (rq_uri req)) = Some uc' \<and>
              (tls \<or> ba_https_redirection app' \<noteq> Some True) \<and>
              Some (Routed name app fallback uc up) = Some (Routed name' app' fb' uc' (extract_upgrade H (rq_headers req))))"
  obtain n' a' b' where found: "found = Some (n', a', b')" using n by (cases found) auto
  from r [OF found] have eq: "n' = name" "a' = app" "b' = fallback"
    and p: "path_manager_get (ba_path_manager app) (uri_path U (rq_uri req)) = Some uc" "tls \<or> ba_https_redirection app \<noteq> Some True"
    by auto
  have "map_of (am_apps am) name = Some app \<and>
     (if fallback then \<not> tls \<and> map_of (am_apps am) (to_server_name host) = None \<and> am_default_server_name am = Some name
      else name = to_server_name host)"
    using f unfolding found eq by (auto simp: find_backend_app_def split: option.splits if_splits)
  with h sni c p show ?thesis by blast
qed

definition sample_app :: "bytes backend_app" where
  "sample_app =
     \<lparr>ba_app_name = ''app'', ba_server_name = ServerName ''a.b'',
      ba_path_manager = [(PathName ''/'', sample_group ''/'')], ba_https_redirection = None, ba_mutual_tls = None\<rparr>"

definition sample_manager :: "bytes app_manager" where
  "sample_manager = \<lparr>am_apps = [(ServerName ''a.b'', sample_app)], am_default_server_name = None\<rparr>"

definition sample_request :: "(header_lines, bytes, unit) request" where
  "sample_request =
     \<lparr>rq_method = ''GET'', rq_uri = ''a.b'', rq_version = HTTP_11, rq_headers = [], rq_effective_uri = None, rq_body = ()\<rparr>"

lemma sample_host: "to_server_name ''a.b'' = ServerName ''a.b''"
  by (simp add: to_server_name_def to_ascii_lowercase_def lower_char_def rust_simps)

lemma sample_routed:
  "route_request lines_api sample_uri_api proxy_config_default sample_manager sample_request True (Some (ServerName ''a.b'')) =
     Inr (Some (Routed (ServerName ''a.b'') sample_app False (sample_group ''/'') None))"
  by (simp add: route_request_def inspect_parse_host_def sample_request_def lines_api_def lines_get_all_def
      sample_uri_api_def drop_port_def strip_prefix_def to_ascii_lowercase_def lower_char_def rust_simps
      proxy_config_default_def check_content_length_limit_def find_backend_app_def sample_manager_def
      sample_app_def path_manager_get_def route_matches_def extract_upgrade_def to_server_name_def)

theorem routed_requests_authorised_witness:
  "\<exists>host. inspect_parse_host lines_api sample_uri_api sample_request = Inr host \<and> to_server_name host = ServerName ''a.b''"
  using routed_requests_authorised [OF sample_routed] by (auto simp: proxy_config_default_def)

end
