(* ===== verification/Conn_Count.thy ===== *)
theory Conn_Count
  imports Rpxy_Prelude
begin

text \<open>
  The connection counters of \<open>rpxy-lib/src/count.rs\<close>: the global \<open>RequestCount\<close>, an atomic
  counter shared by all connection tasks, and the mutex-protected \<open>PerIpConnectionCount\<close>.
  The first is modelled at the granularity of single atomic operations, as a step relation over
  the program counters of all connections, in the way \<open>Proxy::serve_connection\<close> uses it; the
  second as one operation per critical section.
\<close>

section \<open>The global request counter\<close>

text \<open>\<open>RequestCount::increment\<close> is \<open>fetch_add\<close>: the previous value and the new counter.\<close>

definition rc_increment :: "usize \<Rightarrow> usize \<times> usize" where
  "rc_increment c = (c, c + 1)"

text \<open>\<open>compare_exchange\<close> of the loop in \<open>RequestCount::decrement\<close>: whether it succeeded, and the counter.\<close>

definition rc_compare_exchange :: "usize \<Rightarrow> usize \<Rightarrow> usize \<Rightarrow> bool \<times> usize" where
  "rc_compare_exchange c old new = (if c = old then (True, new) else (False, c))"

text \<open>
  The program counter of one connection task in \<open>serve_connection\<close>: not yet arrived, being
  served, at the load of \<open>decrement\<close>, at its \<open>compare_exchange\<close> with the value it has loaded,
  and finished.  A refused connection goes to the load at once.
\<close>

datatype conn_pc = NotArrived | Serving | DecLoad | DecCas usize | Finished

record rc_state =
  rc_cnt :: usize
  rc_pcs :: "conn_pc list"

definition rc_init :: "nat \<Rightarrow> rc_state" where
  "rc_init n = \<lparr>rc_cnt = 0, rc_pcs = replicate n NotArrived\<rparr>"

definition rc_arrive :: "usize \<Rightarrow> rc_state \<Rightarrow> nat \<Rightarrow> rc_state" where
  "rc_arrive max_clients s i =
     (let (prev, c) = rc_increment (rc_cnt s)
      in s\<lparr>rc_cnt := c,
           rc_pcs := (rc_pcs s)[i := if max_clients \<le> prev then DecLoad else Serving]\<rparr>)"

definition rc_finish :: "rc_state \<Rightarrow> nat \<Rightarrow> rc_state" where
  "rc_finish s i = s\<lparr>rc_pcs := (rc_pcs s)[i := DecLoad]\<rparr>"

definition rc_dec_load :: "rc_state \<Rightarrow> nat \<Rightarrow> rc_state" where
  "rc_dec_load s i =
     s\<lparr>rc_pcs := (rc_pcs s)[i := if rc_cnt s > 0 then DecCas (rc_cnt s) else Finished]\<rparr>"

definition rc_dec_cas :: "rc_state \<Rightarrow> nat \<Rightarrow> usize \<Rightarrow> rc_state" where
  "rc_dec_cas s i loaded =
     (let (ok, c) = rc_compare_exchange (rc_cnt s) loaded (loaded - 1)
      in s\<lparr>rc_cnt := c, rc_pcs := (rc_pcs s)[i := if ok then Finished else DecLoad]\<rparr>)"

inductive rc_step :: "usize \<Rightarrow> rc_state \<Rightarrow> rc_state \<Rightarrow> bool" for m :: usize where
  arrive: "i < length (rc_pcs s) \<Longrightarrow> rc_pcs s ! i = NotArrived \<Longrightarrow> rc_step m s (rc_arrive m s i)"
| finish: "i < length (rc_pcs s) \<Longrightarrow> rc_pcs s ! i = Serving \<Longrightarrow> rc_step m s (rc_finish s i)"
| load: "i < length (rc_pcs s) \<Longrightarrow> rc_pcs s ! i = DecLoad \<Longrightarrow> rc_step m s (rc_dec_load s i)"
| cas: "i < length (rc_pcs s) \<Longrightarrow> rc_pcs s ! i = DecCas c \<Longrightarrow> rc_step m s (rc_dec_cas s i c)"

inductive rc_reachable :: "usize \<Rightarrow> nat \<Rightarrow> rc_state \<Rightarrow> bool" for m :: usize and n :: nat where
  init: "rc_reachable m n (rc_init n)"
| step: "rc_reachable m n s \<Longrightarrow> rc_step m s t \<Longrightarrow> rc_reachable m n t"

text \<open>A task holds a slot from its increment to its successful \<open>compare_exchange\<close>.\<close>

fun holds_slot :: "conn_pc \<Rightarrow> bool" where
  "holds_slot Serving = True"
| "holds_slot DecLoad = True"
| "holds_slot (DecCas c) = True"
| "holds_slot _ = False"

definition slots :: "(conn_pc \<Rightarrow> bool) \<Rightarrow> rc_state \<Rightarrow> nat" where
  "slots p s = length (filter p (rc_pcs s))"

definition cas_positive :: "conn_pc \<Rightarrow> bool" where
  "cas_positive pc \<longleftrightarrow> (case pc of DecCas c \<Rightarrow> c > 0 | _ \<Rightarrow> True)"

definition rc_inv :: "usize \<Rightarrow> nat \<Rightarrow> rc_state \<Rightarrow> bool" where
  "rc_inv m n s \<longleftrightarrow>
     length (rc_pcs s) = n \<and> unat (rc_cnt s) = slots holds_slot s \<and>
     slots (\<lambda>pc. pc = Serving) s \<le> unat m \<and> list_all cas_positive (rc_pcs s)"

lemma length_filter_update:
  assumes "i < length xs"
  shows "length (filter p (xs[i := x])) + (if p (xs ! i) then 1 else 0) =
         length (filter p xs) + (if p x then 1 else 0)"
  using assms
proof (induction xs arbitrary: i)
  case Nil
  then show ?case by simp
next
  case (Cons y ys)
  then show ?case by (cases i) auto
qed

lemma length_filter_mono: "(\<And>x. p x \<Longrightarrow> q x) \<Longrightarrow> length (filter p xs) \<le> length (filter q xs)"
  by (induction xs) auto

lemma slots_update:
  assumes "i < length (rc_pcs s)"
  shows "slots p (s\<lparr>rc_cnt := c, rc_pcs := (rc_pcs s)[i := pc]\<rparr>) + (if p (rc_pcs s ! i) then 1 else 0) =
         slots p s + (if p pc then 1 else 0)"
  using length_filter_update [OF assms] by (simp add: slots_def)

lemma slots_le_length: "slots p s \<le> length (rc_pcs s)"
  by (simp add: slots_def)

lemma slots_less_length:
  "i < length (rc_pcs s) \<Longrightarrow> \<not> p (rc_pcs s ! i) \<Longrightarrow> slots p s < length (rc_pcs s)"
  unfolding slots_def by (metis length_filter_less nth_mem)

lemma slots_pos: "i < length (rc_pcs s) \<Longrightarrow> p (rc_pcs s ! i) \<Longrightarrow> 0 < slots p s"
  unfolding slots_def by (metis filter_empty_conv length_greater_0_conv nth_mem)

lemma unat_Suc_usize: "unat (c :: usize) < 2 ^ 64 - 1 \<Longrightarrow> unat (c + 1) = Suc (unat c)"
  by (simp add: unat_word_ariths)

lemma unat_pred_usize: "0 < c \<Longrightarrow> unat (c - 1 :: usize) = unat c - 1"
  by (metis gr_implies_not0 unat_minus_one word_gt_0)

lemma usize_pos: "0 < unat c \<Longrightarrow> 0 < (c :: usize)"
  by (simp add: unat_gt_0 word_gt_0)

lemma rc_inv_init: "rc_inv m n (rc_init n)"
  by (simp add: rc_inv_def rc_init_def slots_def cas_positive_def list_all_iff)

lemma rc_inv_arrive:
  assumes "rc_inv m n s" and n: "n < 2 ^ 64" and i: "i < length (rc_pcs s)" "rc_pcs s ! i = NotArrived"
  shows "rc_inv m n (rc_arrive m s i)"
proof -
  from assms have inv: "length (rc_pcs s) = n" "unat (rc_cnt s) = slots holds_slot s"
      "slots (\<lambda>pc. pc = Serving) s \<le> unat m" "list_all cas_positive (rc_pcs s)"
    by (simp_all add: rc_inv_def)
  have "slots holds_slot s < n"
    using slots_less_length [OF i(1), of holds_slot] i(2) inv(1) by simp
  with inv(2) n have inc: "unat (rc_cnt s + 1) = Suc (unat (rc_cnt s))"
    by (intro unat_Suc_usize) simp
  have serving_le: "slots (\<lambda>pc. pc = Serving) s \<le> slots holds_slot s"
    unfolding slots_def by (rule length_filter_mono) auto
  let ?pc = "if m \<le> rc_cnt s then DecLoad else Serving"
  have upd: "rc_arrive m s i = s\<lparr>rc_cnt := rc_cnt s + 1, rc_pcs := (rc_pcs s)[i := ?pc]\<rparr>"
    by (simp add: rc_arrive_def rc_increment_def)
  have hold: "slots holds_slot (rc_arrive m s i) = Suc (slots holds_slot s)"
    using slots_update [OF i(1), where p = holds_slot and c = "rc_cnt s + 1" and pc = ?pc] i(2)
    by (simp add: upd split: if_splits)
  have "slots (\<lambda>pc. pc = Serving) (rc_arrive m s i) \<le> unat m"
    using slots_update [OF i(1), where p = "\<lambda>pc. pc = Serving" and c = "rc_cnt s + 1" and pc = ?pc] i(2) inv serving_le
    by (auto simp: upd word_le_nat_alt not_le split: if_splits)
  moreover have "list_all cas_positive (rc_pcs (rc_arrive m s i))"
    using inv(4) by (auto simp: upd list_all_iff cas_positive_def dest!: set_update_subset_insert [THEN subsetD])
  ultimately show ?thesis
    using inv hold inc by (simp add: rc_inv_def upd)
qed

text \<open>Steps that leave the counter alone and do not start serving.\<close>

lemma rc_inv_move:
  assumes "rc_inv m n s" and i: "i < length (rc_pcs s)"
    and "holds_slot (rc_pcs s ! i)" and "holds_slot pc" and "pc \<noteq> Serving" and "cas_positive pc"
  shows "rc_inv m n (s\<lparr>rc_pcs := (rc_pcs s)[i := pc]\<rparr>)"
proof -
  have eq: "s\<lparr>rc_pcs := (rc_pcs s)[i := pc]\<rparr> = s\<lparr>rc_cnt := rc_cnt s, rc_pcs := (rc_pcs s)[i := pc]\<rparr>"
    by simp
  have "slots holds_slot (s\<lparr>rc_pcs := (rc_pcs s)[i := pc]\<rparr>) = slots holds_slot s"
    using slots_update [OF i, where p = holds_slot and c = "rc_cnt s" and pc = pc] assms by (simp flip: eq)
  moreover have "slots (\<lambda>pc. pc = Serving) (s\<lparr>rc_pcs := (rc_pcs s)[i := pc]\<rparr>) \<le> slots (\<lambda>pc. pc = Serving) s"
    using slots_update [OF i, where p = "\<lambda>pc. pc = Serving" and c = "rc_cnt s" and pc = pc] assms by (simp flip: eq)
  ultimately show ?thesis
    using assms by (auto simp: rc_inv_def list_all_iff dest!: set_update_subset_insert [THEN subsetD])
qed

lemma rc_inv_cas_ok:
  assumes "rc_inv m n s" and i: "i < length (rc_pcs s)" "rc_pcs s ! i = DecCas (rc_cnt s)"
  shows "rc_inv m n (s\<lparr>rc_cnt := rc_cnt s - 1, rc_pcs := (rc_pcs s)[i := Finished]\<rparr>)"
proof -
  let ?t = "s\<lparr>rc_cnt := rc_cnt s - 1, rc_pcs := (rc_pcs s)[i := Finished]\<rparr>"
  have "cas_positive (DecCas (rc_cnt s))"
    using assms by (metis list_all_length rc_inv_def)
  then have "unat (rc_cnt s - 1) = unat (rc_cnt s) - 1"
    by (simp add: cas_positive_def unat_pred_usize)
  moreover have "Suc (slots holds_slot ?t) = slots holds_slot s"
    using slots_update [OF i(1), where p = holds_slot and c = "rc_cnt s - 1" and pc = Finished] i(2) by simp
  moreover have "slots (\<lambda>pc. pc = Serving) ?t = slots (\<lambda>pc. pc = Serving) s"
    using slots_update [OF i(1), where p = "\<lambda>pc. pc = Serving" and c = "rc_cnt s - 1" and pc = Finished] i(2) by simp
  ultimately show ?thesis
    using assms(1)
    by (auto simp: rc_inv_def list_all_iff cas_positive_def dest!: set_update_subset_insert [THEN subsetD])
qed

lemma rc_inv_step:
  assumes "rc_step m s t" and inv: "rc_inv m n s" and n: "n < 2 ^ 64"
  shows "rc_inv m n t"
  using assms(1)
proof cases
  case (arrive i)
  with inv n show ?thesis by (simp add: rc_inv_arrive)
next
  case (finish i)
  with inv show ?thesis by (simp add: rc_finish_def rc_inv_move cas_positive_def)
next
  case (load i)
  have "0 < slots holds_slot s" using slots_pos [of i s holds_slot] load by simp
  with inv have "0 < rc_cnt s" by (simp add: rc_inv_def usize_pos)
  with inv load show ?thesis by (simp add: rc_dec_load_def rc_inv_move cas_positive_def)
next
  case (cas i c)
  show ?thesis
  proof (cases "rc_cnt s = c")
    case True
    with cas inv show ?thesis
      using rc_inv_cas_ok [of m n s i] by (simp add: rc_dec_cas_def rc_compare_exchange_def)
  next
    case False
    with cas inv show ?thesis
      using rc_inv_move [of m n s i DecLoad]
      by (simp add: rc_dec_cas_def rc_compare_exchange_def cas_positive_def)
  qed
qed

lemma rc_reachable_inv: "rc_reachable m n s \<Longrightarrow> n < 2 ^ 64 \<Longrightarrow> rc_inv m n s"
  by (induction rule: rc_reachable.induct) (auto intro: rc_inv_init rc_inv_step)


text \<open>
  A task that runs alone leaves the loop of \<open>decrement\<close> after at most three atomic operations and
  gives back exactly one slot.
\<close>

lemma rc_solo_cas:
  assumes i: "i < length (rc_pcs s)" and "rc_pcs s ! i = DecCas (rc_cnt s)" and "0 < rc_cnt s"
  shows "\<exists>t. rc_step m s t \<and> rc_pcs t ! i = Finished \<and> Suc (unat (rc_cnt t)) = unat (rc_cnt s)"
proof (intro exI conjI)
  show "rc_step m s (rc_dec_cas s i (rc_cnt s))" using assms by (intro rc_step.cas)
  show "rc_pcs (rc_dec_cas s i (rc_cnt s)) ! i = Finished"
    using i by (simp add: rc_dec_cas_def rc_compare_exchange_def)
  have "0 < unat (rc_cnt s)" using assms(3) by (simp add: unat_gt_0)
  then show "Suc (unat (rc_cnt (rc_dec_cas s i (rc_cnt s)))) = unat (rc_cnt s)"
    using assms(3) by (simp add: rc_dec_cas_def rc_compare_exchange_def unat_pred_usize)
qed

lemma rc_solo_load:
  assumes i: "i < length (rc_pcs s)" and "rc_pcs s ! i = DecLoad" and pos: "0 < rc_cnt s"
  shows "\<exists>t. (rc_step m)\<^sup>*\<^sup>* s t \<and> rc_pcs t ! i = Finished \<and> Suc (unat (rc_cnt t)) = unat (rc_cnt s)"
proof -
  let ?u = "rc_dec_load s i"
  have u: "i < length (rc_pcs ?u)" "rc_pcs ?u ! i = DecCas (rc_cnt ?u)" "rc_cnt ?u = rc_cnt s"
    using i pos by (simp_all add: rc_dec_load_def)
  obtain t where "rc_step m ?u t" "rc_pcs t ! i = Finished" "Suc (unat (rc_cnt t)) = unat (rc_cnt s)"
    using rc_solo_cas [OF u(1,2)] u(3) pos by auto
  moreover have "rc_step m s ?u" using assms by (intro rc_step.load)
  ultimately show ?thesis by (meson converse_rtranclp_into_rtranclp r_into_rtranclp)
qed

section \<open>The per-IP connection counter\<close>

text \<open>
  \<open>PerIpConnectionCount\<close>; every operation holds the mutex throughout, so it is one step.  The
  guard's \<open>Arc\<close> to the map is the single map of the model; the rest of its state is the address.
\<close>

record 'ip per_ip =
  pi_inner :: "'ip \<rightharpoonup> usize"
  pi_max :: usize

datatype 'ip per_ip_guard = PerIpConnectionGuard "'ip option"

definition per_ip_new :: "usize \<Rightarrow> 'ip per_ip" where
  "per_ip_new max_per_ip = \<lparr>pi_inner = Map.empty, pi_max = max_per_ip\<rparr>"

definition try_acquire :: "'ip per_ip \<Rightarrow> 'ip \<Rightarrow> 'ip per_ip_guard option \<times> 'ip per_ip" where
  "try_acquire s ip =
     (if pi_max s = 0 then (Some (PerIpConnectionGuard None), s)
      else
        let c = (case pi_inner s ip of Some n \<Rightarrow> n | None \<Rightarrow> 0);
            s' = s\<lparr>pi_inner := (pi_inner s)(ip \<mapsto> c)\<rparr>
        in if pi_max s \<le> c then (None, s')
           else (Some (PerIpConnectionGuard (Some ip)), s'\<lparr>pi_inner := (pi_inner s')(ip \<mapsto> c + 1)\<rparr>))"

definition guard_drop :: "'ip per_ip \<Rightarrow> 'ip per_ip_guard \<Rightarrow> 'ip per_ip" where
  "guard_drop s g =
     (case g of
        PerIpConnectionGuard None \<Rightarrow> s
      | PerIpConnectionGuard (Some ip) \<Rightarrow>
          (case pi_inner s ip of
             None \<Rightarrow> s
           | Some c \<Rightarrow>
               let c' = (if c = 0 then 0 else c - 1)
               in if c' = 0 then s\<lparr>pi_inner := (pi_inner s)(ip := None)\<rparr>
                  else s\<lparr>pi_inner := (pi_inner s)(ip \<mapsto> c')\<rparr>))"

subsection \<open>The contract of a slot limiter\<close>

text \<open>
  What the listeners rely on: a slot is granted exactly while fewer than \<open>cap\<close> are held for the
  key, a grant takes one slot, dropping its guard gives it back.
\<close>

datatype 'k slot_event = Acquire 'k | Release 'k

text \<open>A run of the limiter with the guards its clients hold; an event that no client can cause is skipped.\<close>

fun limiter_run :: "('s \<Rightarrow> 'k \<Rightarrow> 's option) \<Rightarrow> ('s \<Rightarrow> 'k \<Rightarrow> 's) \<Rightarrow> 's \<times> 'k multiset \<Rightarrow>
    'k slot_event list \<Rightarrow> 's \<times> 'k multiset" where
  "limiter_run acq rel st [] = st"
| "limiter_run acq rel (s, gs) (Acquire k # es) =
     (case acq s k of
        None \<Rightarrow> limiter_run acq rel (s, gs) es
      | Some s' \<Rightarrow> limiter_run acq rel (s', add_mset k gs) es)"
| "limiter_run acq rel (s, gs) (Release k # es) =
     (if k \<in># gs then limiter_run acq rel (rel s k, gs - {#k#}) es
      else limiter_run acq rel (s, gs) es)"

locale slot_limiter =
  fixes acquire :: "'s \<Rightarrow> 'k \<Rightarrow> 's option"
    and release :: "'s \<Rightarrow> 'k \<Rightarrow> 's"
    and held :: "'s \<Rightarrow> 'k \<Rightarrow> nat"
    and cap :: nat
    and invar :: "'s \<Rightarrow> bool"
  assumes acquire_granted:
      "invar s \<Longrightarrow> acquire s k = Some s' \<Longrightarrow> invar s' \<and> held s' = (held s)(k := Suc (held s k))"
    and acquire_refused: "invar s \<Longrightarrow> acquire s k = None \<longleftrightarrow> cap \<le> held s k"
    and release_held:
      "invar s \<Longrightarrow> 0 < held s k \<Longrightarrow> invar (release s k) \<and> held (release s k) = (held s)(k := held s k - 1)"
begin

lemma run_agrees:
  assumes "invar s" and "\<And>k. held s k = count gs k" and "\<And>k. count gs k \<le> cap"
  shows "let (t, hs) = limiter_run acquire release (s, gs) es
         in invar t \<and> (\<forall>k. held t k = count hs k) \<and> (\<forall>k. count hs k \<le> cap)"
  using assms
proof (induction es arbitrary: s gs)
  case Nil
  then show ?case by simp
next
  case (Cons e es)
  show ?case
  proof (cases e)
    case (Acquire k)
    show ?thesis
    proof (cases "acquire s k")
      case None
      with Cons Acquire show ?thesis by simp
    next
      case (Some s')
      have "invar s'" and "held s' = (held s)(k := Suc (held s k))" and "held s k < cap"
        using acquire_granted [OF Cons.prems(1) Some] acquire_refused [OF Cons.prems(1), of k] Some
        by auto
      then have "let (t, hs) = limiter_run acquire release (s', add_mset k gs) es
         in invar t \<and> (\<forall>k. held t k = count hs k) \<and> (\<forall>k. count hs k \<le> cap)"
        using Cons.prems by (intro Cons.IH) (auto simp: Suc_le_eq)
      with Acquire Some show ?thesis by simp
    qed
  next
    case (Release k)
    show ?thesis
    proof (cases "k \<in># gs")
      case True
      then have "0 < held s k" using Cons.prems(2) [of k] by simp
      then have rel: "invar (release s k)" "held (release s k) = (held s)(k := held s k - 1)"
        using release_held [OF Cons.prems(1)] by simp_all
      have "count (gs - {#k#}) j \<le> cap" for j
        using Cons.prems(3) [of j] by (auto intro: le_trans)
      moreover have "held (release s k) j = count (gs - {#k#}) j" for j
        using Cons.prems(2) [of j] rel(2) by auto
      ultimately have "let (t, hs) = limiter_run acquire release (release s k, gs - {#k#}) es
         in invar t \<and> (\<forall>k. held t k = count hs k) \<and> (\<forall>k. count hs k \<le> cap)"
        using rel(1) by (intro Cons.IH)
      with Release True show ?thesis by simp
    next
      case False
      with Cons Release show ?thesis by simp
    qed
  qed
qed

end

subsection \<open>The per-IP counter is a slot limiter\<close>

definition pi_held :: "'ip per_ip \<Rightarrow> 'ip \<Rightarrow> nat" where
  "pi_held s ip = (case pi_inner s ip of None \<Rightarrow> 0 | Some n \<Rightarrow> unat n)"

text \<open>Every entry is between one and the limit: the map has no stale zero entry.\<close>

definition per_ip_inv :: "usize \<Rightarrow> 'ip per_ip \<Rightarrow> bool" where
  "per_ip_inv m s \<longleftrightarrow> pi_max s = m \<and> m \<noteq> 0 \<and> (\<forall>ip n. pi_inner s ip = Some n \<longrightarrow> 0 < n \<and> n \<le> m)"

text \<open>The state after a granted \<open>try_acquire\<close>, and after the drop of the guard it returned.\<close>

definition acquire_slot :: "'ip per_ip \<Rightarrow> 'ip \<Rightarrow> 'ip per_ip option" where
  "acquire_slot s ip = (case try_acquire s ip of (None, _) \<Rightarrow> None | (Some g, s') \<Rightarrow> Some s')"

definition release_slot :: "'ip per_ip \<Rightarrow> 'ip \<Rightarrow> 'ip per_ip" where
  "release_slot s ip = guard_drop s (PerIpConnectionGuard (Some ip))"

lemma unat_usize_bound: "unat (c :: usize) < 2 ^ 64"
  by (rule order_less_le_trans [OF unsigned_less]) simp

lemma unat_inc_below:
  assumes "(c :: usize) < m"
  shows "unat (c + 1) = Suc (unat c)"
proof (rule unat_Suc_usize)
  have "unat c < unat m" using assms by (simp add: word_less_nat_alt)
  then show "unat c < 2 ^ 64 - 1" using unat_usize_bound [of m] by simp
qed

lemma try_acquire_granted_inv:
  assumes "per_ip_inv m s" and "try_acquire s ip = (Some g, s')"
  shows "g = PerIpConnectionGuard (Some ip)" and "per_ip_inv m s'"
    and "pi_held s' = (pi_held s)(ip := Suc (pi_held s ip))"
proof -
  let ?c = "case pi_inner s ip of Some n \<Rightarrow> n | None \<Rightarrow> 0"
  from assms have g: "g = PerIpConnectionGuard (Some ip)" and c: "?c < m"
      and s': "s' = s\<lparr>pi_inner := (pi_inner s)(ip \<mapsto> ?c + 1)\<rparr>"
    by (auto simp: try_acquire_def per_ip_inv_def Let_def not_le split: if_splits)
  show "g = PerIpConnectionGuard (Some ip)" by (rule g)
  from c have "0 < ?c + 1" and "?c + 1 \<le> m"
    using unat_inc_below [OF c] by (simp_all add: word_gt_0 inc_le unat_eq_zero [symmetric] del: unat_eq_zero)
  with assms(1) show "per_ip_inv m s'" by (auto simp: per_ip_inv_def s')
  show "pi_held s' = (pi_held s)(ip := Suc (pi_held s ip))"
    using unat_inc_below [OF c] by (auto simp: pi_held_def s' fun_eq_iff split: option.splits)
qed

lemma try_acquire_refused_iff:
  assumes "per_ip_inv m s"
  shows "fst (try_acquire s ip) = None \<longleftrightarrow> unat m \<le> pi_held s ip"
proof (cases "pi_inner s ip")
  case None
  have "0 < unat m" using assms by (simp add: per_ip_inv_def unat_gt_0)
  with None assms show ?thesis
    by (simp add: try_acquire_def per_ip_inv_def pi_held_def)
next
  case (Some c)
  with assms show ?thesis
    by (simp add: try_acquire_def per_ip_inv_def pi_held_def word_le_nat_alt Let_def)
qed

lemma guard_drop_inv:
  assumes inv: "per_ip_inv m s" and held: "0 < pi_held s ip"
  shows "per_ip_inv m (release_slot s ip)"
    and "pi_held (release_slot s ip) = (pi_held s)(ip := pi_held s ip - 1)"
proof -
  from held obtain c where c: "pi_inner s ip = Some c"
    by (auto simp: pi_held_def split: option.splits)
  with inv have pos: "0 < c" and "c \<le> m" by (auto simp: per_ip_inv_def)
  have "c - 1 \<le> m"
    using \<open>c \<le> m\<close> pos by (simp add: word_le_nat_alt unat_pred_usize)
  have rel: "release_slot s ip =
      (if c - 1 = 0 then s\<lparr>pi_inner := (pi_inner s)(ip := None)\<rparr>
       else s\<lparr>pi_inner := (pi_inner s)(ip \<mapsto> c - 1)\<rparr>)"
    using pos c by (simp add: release_slot_def guard_drop_def Let_def)
  show "per_ip_inv m (release_slot s ip)"
  proof (cases "c - 1 = 0")
    case True
    with inv show ?thesis by (simp add: rel per_ip_inv_def)
  next
    case False
    then have "0 < c - 1" by (simp only: word_gt_0 simp_thms)
    with False inv \<open>c - 1 \<le> m\<close> show ?thesis by (simp add: rel per_ip_inv_def)
  qed
  show "pi_held (release_slot s ip) = (pi_held s)(ip := pi_held s ip - 1)"
  proof (cases "c - 1 = 0")
    case True
    then have "unat c - 1 = 0" using unat_pred_usize [OF pos] by simp
    with True c show ?thesis by (simp add: rel pi_held_def fun_eq_iff)
  next
    case False
    with c unat_pred_usize [OF pos] show ?thesis by (simp add: rel pi_held_def fun_eq_iff)
  qed
qed

interpretation per_ip: slot_limiter acquire_slot release_slot pi_held "unat m" "per_ip_inv m" for m
proof unfold_locales
  fix s :: "'a per_ip" and k s'
  assume inv: "per_ip_inv m s" and "acquire_slot s k = Some s'"
  then obtain g where "try_acquire s k = (Some g, s')"
    by (auto simp: acquire_slot_def split: prod.splits option.splits)
  from try_acquire_granted_inv(2,3) [OF inv this]
  show "per_ip_inv m s' \<and> pi_held s' = (pi_held s)(k := Suc (pi_held s k))" by (rule conjI)
next
  fix s :: "'a per_ip" and k
  assume "per_ip_inv m s"
  then show "(acquire_slot s k = None) = (unat m \<le> pi_held s k)"
    using try_acquire_refused_iff [of m s k]
    by (auto simp: acquire_slot_def split: prod.splits option.splits)
next
  fix s :: "'a per_ip" and k
  assume "per_ip_inv m s" and "0 < pi_held s k"
  then show "per_ip_inv m (release_slot s k) \<and> pi_held (release_slot s k) = (pi_held s)(k := pi_held s k - 1)"
    by (intro conjI guard_drop_inv)
qed

section \<open>Properties\<close>

text \<open>
  C16: Whatever the interleaving of the connection tasks, at most \<open>max_clients\<close> connections are
  served at a time, and the shared counter is exactly the number of tasks that have incremented
  it and not yet given their slot back (for any number of connections below \<open>2 ^ 64\<close>).
\<close>

theorem rc_serving_bounded:
  assumes "rc_reachable m n s" and "n < 2 ^ 64"
  shows "slots (\<lambda>pc. pc = Serving) s \<le> unat m \<and> unat (rc_cnt s) = slots holds_slot s"
  using rc_reachable_inv [OF assms] by (simp add: rc_inv_def)

theorem rc_serving_bounded_witness:
  "rc_reachable 1 2 (rc_arrive 1 (rc_init 2) 0) \<and>
   slots (\<lambda>pc. pc = Serving) (rc_arrive 1 (rc_init 2) 0) = 1 \<and>
   slots (\<lambda>pc. pc = Serving) (rc_arrive 1 (rc_init 2) 0) \<le> unat (1 :: usize)"
proof -
  have r: "rc_reachable 1 2 (rc_arrive 1 (rc_init 2) 0)"
    by (rule rc_reachable.step [OF rc_reachable.init], rule rc_step.arrive) (simp_all add: rc_init_def)
  moreover have "slots (\<lambda>pc. pc = Serving) (rc_arrive 1 (rc_init 2) 0) = 1"
    by (simp add: rc_arrive_def rc_init_def rc_increment_def slots_def numeral_2_eq_2)
  ultimately show ?thesis using rc_serving_bounded [OF r] by simp
qed

text \<open>
  From every reachable state a connection that has entered \<open>RequestCount::decrement\<close> can
  leave its compare-exchange loop, and doing so gives back exactly one slot: the early exit of
  the loop at a zero counter is never taken while a slot is held.
\<close>

theorem rc_decrement_finishes:
  assumes "rc_reachable m n s" and "n < 2 ^ 64"
    and "i < length (rc_pcs s)" and "rc_pcs s ! i = DecLoad \<or> rc_pcs s ! i = DecCas c"
  shows "\<exists>t. (rc_step m)\<^sup>*\<^sup>* s t \<and> rc_pcs t ! i = Finished \<and> Suc (unat (rc_cnt t)) = unat (rc_cnt s)"
proof -
  have inv: "rc_inv m n s" using assms(1,2) by (rule rc_reachable_inv)
  have "0 < slots holds_slot s" using assms(3,4) by (intro slots_pos) auto
  then have pos: "0 < rc_cnt s" using inv by (simp add: rc_inv_def usize_pos)
  show ?thesis
  proof (cases "rc_pcs s ! i = DecLoad")
    case True
    with assms(3) pos show ?thesis by (intro rc_solo_load)
  next
    case False
    with assms(4) have c: "rc_pcs s ! i = DecCas c" by simp
    show ?thesis
    proof (cases "c = rc_cnt s")
      case True
      with c rc_solo_cas [OF assms(3), of m] pos show ?thesis by (auto intro: r_into_rtranclp)
    next
      case False
      let ?u = "rc_dec_cas s i c"
      have u: "i < length (rc_pcs ?u)" "rc_pcs ?u ! i = DecLoad" "rc_cnt ?u = rc_cnt s"
        using assms(3) False by (simp_all add: rc_dec_cas_def rc_compare_exchange_def)
      have "rc_step m s ?u" using assms(3) c by (rule rc_step.cas)
      with rc_solo_load [OF u(1,2), of m] u(3) pos show ?thesis
        by (metis converse_rtranclp_into_rtranclp)
    qed
  qed
qed

theorem rc_decrement_finishes_witness:
  "\<exists>t. (rc_step 0)\<^sup>*\<^sup>* (rc_arrive 0 (rc_init 1) 0) t \<and> rc_pcs t ! 0 = Finished \<and>
       Suc (unat (rc_cnt t)) = unat (rc_cnt (rc_arrive 0 (rc_init 1) 0))"
proof (rule rc_decrement_finishes [where n = 1])
  show "rc_reachable 0 1 (rc_arrive 0 (rc_init 1) 0)"
    by (rule rc_reachable.step [OF rc_reachable.init], rule rc_step.arrive) (simp_all add: rc_init_def)
qed (simp_all add: rc_arrive_def rc_init_def rc_increment_def)

text \<open>
  Over any sequence of \<open>try_acquire\<close> calls and guard drops, starting from an empty counter
  with a non-zero limit, no IP address ever holds more than \<open>max_per_ip\<close> live guards, and the map
  has an entry for an address exactly when it holds a guard, with the number of its guards.
\<close>

theorem per_ip_run_bounded:
  assumes "m \<noteq> 0" and "limiter_run acquire_slot release_slot (per_ip_new m, {#}) es = (s, gs)"
  shows "count gs ip \<le> unat m \<and>
         pi_inner s ip = (if count gs ip = 0 then None else Some (of_nat (count gs ip)))"
proof -
  have "let (t, hs) = limiter_run acquire_slot release_slot (per_ip_new m, {#}) es
        in per_ip_inv m t \<and> (\<forall>k. pi_held t k = count hs k) \<and> (\<forall>k. count hs k \<le> unat m)"
    using assms(1)
    by (intro per_ip.run_agrees) (simp_all add: per_ip_new_def per_ip_inv_def pi_held_def)
  then have "per_ip_inv m s" and held: "pi_held s ip = count gs ip" and "count gs ip \<le> unat m"
    using assms(2) by simp_all
  moreover from held \<open>per_ip_inv m s\<close>
  have "pi_inner s ip = (if count gs ip = 0 then None else Some (of_nat (count gs ip)))"
    by (auto simp: pi_held_def per_ip_inv_def unat_eq_zero simp flip: held split: option.splits)
  ultimately show ?thesis by simp
qed

theorem per_ip_run_bounded_witness:
  "let (s, gs) = limiter_run acquire_slot release_slot (per_ip_new 1, {#})
                   [Acquire ''a'', Acquire ''a'', Acquire ''b'']
   in count gs ''a'' = 1 \<and> pi_inner s ''a'' = Some 1"
proof -
  have run: "limiter_run acquire_slot release_slot (per_ip_new 1, {#})
               [Acquire ''a'', Acquire ''a'', Acquire ''b''] =
             (\<lparr>pi_inner = [''a'' \<mapsto> 1, ''b'' \<mapsto> 1], pi_max = 1\<rparr>, {#''b'', ''a''#})"
    by (simp add: acquire_slot_def try_acquire_def per_ip_new_def fun_eq_iff)
  show ?thesis
    unfolding run using per_ip_run_bounded [OF _ run, of "''a''"] by simp
qed

end
