(* ===== verification/Proxy_Protocol.thy ===== *)
theory Proxy_Protocol
  imports Globals
begin

text \<open>
  The inbound PROXY protocol (\<open>proxy/proxy_protocol.rs\<close>, and its caller in \<open>proxy/proxy_main.rs\<close>).  A TCP
  stream is what the peer will ever send and whether it then closes; waiting for bytes that never
  come is the result \<open>None\<close>, which the caller's deadline turns into an error.  The header parsers of
  the \<open>ppp\<close> crate are arguments.
\<close>

section \<open>Constants and errors\<close>

definition V2_SIGNATURE :: bytes where
  "V2_SIGNATURE = [CHR 0x0D, CHR 0x0A, CHR 0x0D, CHR 0x0A, CHR 0x00, CHR 0x0D, CHR 0x0A] @ ''QUIT'' @ [CHR 0x0A]"

definition V2_HEADER_FIXED_SIZE :: nat where "V2_HEADER_FIXED_SIZE = 16"
definition V1_PREFIX :: bytes where "V1_PREFIX = ''PROXY ''"
definition V1_MAX_LENGTH :: nat where "V1_MAX_LENGTH = 107"
definition V2_MAX_ADDR_LEN :: nat where "V2_MAX_ADDR_LEN = 2048"
definition PROXY_PROTOCOL_FALLBACK_TIMEOUT :: nat where "PROXY_PROTOCOL_FALLBACK_TIMEOUT = from_secs 5"

lemmas pp_consts = V2_SIGNATURE_def V2_HEADER_FIXED_SIZE_def V1_PREFIX_def V1_MAX_LENGTH_def V2_MAX_ADDR_LEN_def

section \<open>The stream and the header parsers\<close>

record tcp_stream =
  ts_data :: bytes
  ts_closed :: bool

text \<open>\<open>read_exact\<close>: the bytes read and the rest of the stream.\<close>

definition read_exact :: "nat \<Rightarrow> tcp_stream \<Rightarrow> (io_error_kind + bytes \<times> tcp_stream) option" where
  "read_exact n s =
     (if n \<le> length (ts_data s) then Some (Inr (take n (ts_data s), s\<lparr>ts_data := drop n (ts_data s)\<rparr>))
      else if ts_closed s then Some (Inl UnexpectedEof) else None)"

datatype v2_command = LocalCommand | ProxyCommand

datatype v2_addresses = V2IPv4 ipv4 u16 | V2IPv6 ipv6 u16 | V2Unix | V2Unspecified

datatype v1_addresses = V1Tcp4 ipv4 u16 | V1Tcp6 ipv6 u16 | V1Unknown

record ppp_api =
  ppp_v2 :: "bytes \<Rightarrow> (v2_command \<times> v2_addresses) option"
  ppp_v1 :: "bytes \<Rightarrow> v1_addresses option"

section \<open>Parsing\<close>

fun normalize_mapped_ipv4 :: "ip_addr \<Rightarrow> ip_addr" where
  "normalize_mapped_ipv4 (V6 v6) = (case to_ipv4_mapped v6 of Some v4 \<Rightarrow> V4 v4 | None \<Rightarrow> V6 v6)"
| "normalize_mapped_ipv4 (V4 v4) = V4 v4"

definition be_u16 :: "char \<Rightarrow> char \<Rightarrow> nat" where
  "be_u16 a b = 256 * byte a + byte b"

definition parse_v2_inbound :: "ppp_api \<Rightarrow> bytes \<Rightarrow> tcp_stream \<Rightarrow> (io_error_kind + socket_addr option \<times> tcp_stream) option" where
  "parse_v2_inbound P peek_buf s =
     (let addr_len = be_u16 (peek_buf ! 14) (peek_buf ! 15)
      in if V2_MAX_ADDR_LEN < addr_len then Some (Inl InvalidData)
         else case read_exact (V2_HEADER_FIXED_SIZE + addr_len) s of
           None \<Rightarrow> None
         | Some (Inl e) \<Rightarrow> Some (Inl e)
         | Some (Inr (header_buf, s)) \<Rightarrow>
             Some (case ppp_v2 P header_buf of
                     None \<Rightarrow> Inl InvalidData
                   | Some (command, addresses) \<Rightarrow>
                       if command = LocalCommand then Inr (None, s)
                       else case addresses of
                         V2IPv4 ip port \<Rightarrow> Inr (Some (SocketAddr (V4 ip) port), s)
                       | V2IPv6 ip port \<Rightarrow> Inr (Some (SocketAddr (V6 ip) port), s)
                       | V2Unix \<Rightarrow> Inl Unsupported
                       | V2Unspecified \<Rightarrow> Inr (None, s)))"

text \<open>The byte-wise loop: the header read so far, whether its last byte was \<open>\r\<close>, and the bytes to come.\<close>

fun v1_read_loop :: "bool \<Rightarrow> bytes \<Rightarrow> bool \<Rightarrow> bytes \<Rightarrow> (io_error_kind + bytes \<times> bytes) option" where
  "v1_read_loop closed header_bytes found_cr [] = (if closed then Some (Inl UnexpectedEof) else None)"
| "v1_read_loop closed header_bytes found_cr (b # data) =
     (let header_bytes = header_bytes @ [b]
      in if found_cr \<and> b = CHR 0x0A then Some (Inr (header_bytes, data))
         else if V1_MAX_LENGTH \<le> length header_bytes then Some (Inl InvalidData)
         else v1_read_loop closed header_bytes (b = CHR 0x0D) data)"

definition parse_v1_inbound :: "ppp_api \<Rightarrow> tcp_stream \<Rightarrow> (io_error_kind + socket_addr option \<times> tcp_stream) option" where
  "parse_v1_inbound P s =
     (case v1_read_loop (ts_closed s) [] False (ts_data s) of
        None \<Rightarrow> None
      | Some (Inl e) \<Rightarrow> Some (Inl e)
      | Some (Inr (header_bytes, data)) \<Rightarrow>
          (let s = s\<lparr>ts_data := data\<rparr>
           in Some (case ppp_v1 P header_bytes of
                      None \<Rightarrow> Inl InvalidData
                    | Some (V1Tcp4 ip port) \<Rightarrow> Inr (Some (SocketAddr (V4 ip) port), s)
                    | Some (V1Tcp6 ip port) \<Rightarrow> Inr (Some (SocketAddr (V6 ip) port), s)
                    | Some V1Unknown \<Rightarrow> Inr (None, s))))"

text \<open>
  Peeking: it waits for the first byte, or for the end of the stream, and then shows what has arrived,
  here \<open>n\<close> bytes beyond the first.  \<open>peeks\<close> lists these numbers for the successive turns of the loop, as
  many as the deadline leaves time for; when they run out the loop is still waiting.
\<close>

definition peek :: "nat \<Rightarrow> tcp_stream \<Rightarrow> bytes option" where
  "peek n s = (if ts_data s = [] \<and> \<not> ts_closed s then None else Some (take (min (Suc n) V2_HEADER_FIXED_SIZE) (ts_data s)))"

fun peek_loop :: "nat list \<Rightarrow> tcp_stream \<Rightarrow> (io_error_kind + bytes) option" where
  "peek_loop [] s = None"
| "peek_loop (n # peeks) s =
     (case peek n s of
        None \<Rightarrow> None
      | Some peek_buf \<Rightarrow>
          if peek_buf = [] then Some (Inl UnexpectedEof)
          else if V2_HEADER_FIXED_SIZE \<le> length peek_buf then Some (Inr peek_buf)
          else if 6 \<le> length peek_buf \<and> take 6 peek_buf = V1_PREFIX then Some (Inr peek_buf)
          else peek_loop peeks s)"

definition parse_inbound_proxy_header :: "'n net_api \<Rightarrow> ppp_api \<Rightarrow> nat list \<Rightarrow> tcp_stream \<Rightarrow> socket_addr \<Rightarrow>
    'n tcp_recv_proxy_protocol_config \<Rightarrow> (io_error_kind + socket_addr option \<times> tcp_stream) option" where
  "parse_inbound_proxy_header N P peeks s peer_addr config =
     (if \<not> list_ex (\<lambda>net. net_contains N net (normalize_mapped_ipv4 (sa_ip peer_addr))) (pp_trusted_proxies config)
      then Some (Inl PermissionDenied)
      else case peek_loop peeks s of
        None \<Rightarrow> None
      | Some (Inl e) \<Rightarrow> Some (Inl e)
      | Some (Inr peek_buf) \<Rightarrow>
          if 12 \<le> length peek_buf \<and> take 12 peek_buf = V2_SIGNATURE then parse_v2_inbound P peek_buf s
          else if take 6 peek_buf = V1_PREFIX then parse_v1_inbound P s
          else Some (Inl InvalidData))"

text \<open>The caller: a deadline over the whole parse, and the peer address where the header has none.\<close>

definition effective_timeout :: "'n tcp_recv_proxy_protocol_config \<Rightarrow> nat" where
  "effective_timeout config = (if pp_timeout config = 0 then PROXY_PROTOCOL_FALLBACK_TIMEOUT else pp_timeout config)"

definition extract_parse_result_from_proxy_protocol_header :: "'n net_api \<Rightarrow> ppp_api \<Rightarrow> nat list \<Rightarrow> tcp_stream \<Rightarrow> socket_addr \<Rightarrow>
    'n tcp_recv_proxy_protocol_config \<Rightarrow> io_error_kind + socket_addr \<times> tcp_stream" where
  "extract_parse_result_from_proxy_protocol_header N P peeks s peer_addr config =
     (case parse_inbound_proxy_header N P peeks s peer_addr config of
        None \<Rightarrow> Inl TimedOut
      | Some (Inl e) \<Rightarrow> Inl e
      | Some (Inr (addr, s)) \<Rightarrow> Inr (case addr of Some a \<Rightarrow> a | None \<Rightarrow> peer_addr, s))"

section \<open>The version 1 reader\<close>

text \<open>Where a header ends: after the first \<open>\r\n\<close>.\<close>

abbreviation crlf :: bytes where "crlf \<equiv> [CHR 0x0D, CHR 0x0A]"

fun no_crlf :: "bool \<Rightarrow> bytes \<Rightarrow> bool" where
  "no_crlf cr [] = True"
| "no_crlf cr (b # bs) = (\<not> (cr \<and> b = CHR 0x0A) \<and> no_crlf (b = CHR 0x0D) bs)"

lemma v1_read_loop_reads:
  assumes "no_crlf cr line" "length header + length line + 2 \<le> V1_MAX_LENGTH"
  shows "v1_read_loop closed header cr (line @ crlf @ data) = Some (Inr (header @ line @ crlf, data))"
  using assms
proof (induction line arbitrary: header cr)
  case Nil
  then show ?case by (simp add: V1_MAX_LENGTH_def)
next
  case (Cons b line)
  have len: "\<not> V1_MAX_LENGTH \<le> length (header @ [b])" using Cons.prems(2) by (simp add: V1_MAX_LENGTH_def)
  have "v1_read_loop closed (header @ [b]) (b = CHR 0x0D) (line @ crlf @ data) = Some (Inr ((header @ [b]) @ line @ crlf, data))"
    using Cons.IH [of "b = CHR 0x0D" "header @ [b]"] Cons.prems by simp
  then show ?case using Cons.prems(1) len by (simp add: Let_def)
qed

lemma v1_read_loop_exact:
  assumes "v1_read_loop closed header cr data = Some (Inr (h, rest))"
  shows "\<exists>line. data = line @ [CHR 0x0A] @ rest \<and> h = header @ line @ [CHR 0x0A] \<and> no_crlf cr line \<and>
           length h \<le> max V1_MAX_LENGTH (length header + 1) \<and> (if line = [] then cr else last line = CHR 0x0D)"
  using assms
proof (induction data arbitrary: header cr)
  case (Cons b data)
  show ?case
  proof (cases "cr \<and> b = CHR 0x0A")
    case True
    then show ?thesis using Cons.prems by (intro exI [of _ "[]"]) auto
  next
    case False
    then have n: "\<not> V1_MAX_LENGTH \<le> length (header @ [b])"
      and r: "v1_read_loop closed (header @ [b]) (b = CHR 0x0D) data = Some (Inr (h, rest))"
      using Cons.prems by (auto simp: Let_def split: if_splits)
    obtain line where l: "data = line @ [CHR 0x0A] @ rest" "h = (header @ [b]) @ line @ [CHR 0x0A]"
        "no_crlf (b = CHR 0x0D) line" "length h \<le> max V1_MAX_LENGTH (length (header @ [b]) + 1)"
        "if line = [] then b = CHR 0x0D else last line = CHR 0x0D"
      using Cons.IH [OF r] by blast
    then show ?thesis using n False
      by (intro exI [of _ "b # line"]) (auto split: if_splits)
  qed
qed (simp split: if_splits)

lemma no_crlf_append: "no_crlf cr (xs @ ys) \<Longrightarrow> no_crlf cr xs"
  by (induction xs arbitrary: cr) auto

lemma v1_read_loop_decides: "V1_MAX_LENGTH \<le> length header + length data \<Longrightarrow> length header < V1_MAX_LENGTH \<Longrightarrow>
    v1_read_loop closed header cr data \<noteq> None"
  by (induction closed header cr data rule: v1_read_loop.induct) (auto simp: Let_def)

lemma v1_read_loop_closed: "v1_read_loop True header cr data \<noteq> None"
  by (induction data arbitrary: header cr) (auto simp: Let_def)

section \<open>Framing\<close>

text \<open>
  What the two versions of the protocol call a header, stated on the bytes: a line of at most 107 bytes
  ended by its first \<open>\r\n\<close>, or the signature, two bytes, a big-endian length of at most 2048 and as many
  bytes.
\<close>

definition v1_frame :: "bytes \<Rightarrow> bool" where
  "v1_frame h = (take 6 h = V1_PREFIX \<and> length h \<le> V1_MAX_LENGTH \<and> 8 \<le> length h \<and>
     drop (length h - 2) h = crlf \<and> no_crlf False (take (length h - 2) h))"

definition v2_frame :: "bytes \<Rightarrow> bool" where
  "v2_frame h = (V2_HEADER_FIXED_SIZE \<le> length h \<and> take 12 h = V2_SIGNATURE \<and>
     length h = V2_HEADER_FIXED_SIZE + be_u16 (h ! 14) (h ! 15) \<and> be_u16 (h ! 14) (h ! 15) \<le> V2_MAX_ADDR_LEN)"

text \<open>What a header says of the client: an error, or the address it names, or that it names none.\<close>

definition v1_source :: "ppp_api \<Rightarrow> bytes \<Rightarrow> io_error_kind + socket_addr option" where
  "v1_source P h = (case ppp_v1 P h of
       None \<Rightarrow> Inl InvalidData
     | Some (V1Tcp4 ip port) \<Rightarrow> Inr (Some (SocketAddr (V4 ip) port))
     | Some (V1Tcp6 ip port) \<Rightarrow> Inr (Some (SocketAddr (V6 ip) port))
     | Some V1Unknown \<Rightarrow> Inr None)"

definition v2_source :: "ppp_api \<Rightarrow> bytes \<Rightarrow> io_error_kind + socket_addr option" where
  "v2_source P h = (case ppp_v2 P h of
       None \<Rightarrow> Inl InvalidData
     | Some (LocalCommand, _) \<Rightarrow> Inr None
     | Some (ProxyCommand, V2IPv4 ip port) \<Rightarrow> Inr (Some (SocketAddr (V4 ip) port))
     | Some (ProxyCommand, V2IPv6 ip port) \<Rightarrow> Inr (Some (SocketAddr (V6 ip) port))
     | Some (ProxyCommand, V2Unix) \<Rightarrow> Inl Unsupported
     | Some (ProxyCommand, V2Unspecified) \<Rightarrow> Inr None)"

definition header_source :: "ppp_api \<Rightarrow> bytes \<Rightarrow> io_error_kind + socket_addr option" where
  "header_source P h = (if v2_frame h then v2_source P h else v1_source P h)"

lemma V1_PREFIX_Nil [simp]: "V1_PREFIX \<noteq> []" "[] \<noteq> V1_PREFIX"
  by (simp_all add: V1_PREFIX_def)

lemma signatures_differ: "take 12 h = V2_SIGNATURE \<Longrightarrow> take 6 h \<noteq> V1_PREFIX"
proof
  assume "take 12 h = V2_SIGNATURE" "take 6 h = V1_PREFIX"
  then have "take 6 V2_SIGNATURE = V1_PREFIX" using take_take [of 6 12 h] by simp
  then show False by (simp add: V1_PREFIX_def V2_SIGNATURE_def)
qed

lemma frames_disjoint: "v1_frame h \<Longrightarrow> \<not> v2_frame h"
  using signatures_differ [of h] by (auto simp: v1_frame_def v2_frame_def)

lemma header_source_v1: "v1_frame h \<Longrightarrow> header_source P h = v1_source P h"
  by (simp add: header_source_def frames_disjoint)

lemma header_source_v2: "v2_frame h \<Longrightarrow> header_source P h = v2_source P h"
  by (simp add: header_source_def)

lemma parse_v1_source:
  "parse_v1_inbound P s =
     (case v1_read_loop (ts_closed s) [] False (ts_data s) of
        None \<Rightarrow> None
      | Some (Inl e) \<Rightarrow> Some (Inl e)
      | Some (Inr (h, data)) \<Rightarrow> Some (map_sum id (\<lambda>a. (a, s\<lparr>ts_data := data\<rparr>)) (v1_source P h)))"
  by (auto simp: parse_v1_inbound_def v1_source_def Let_def split: option.splits sum.splits v1_addresses.splits)

lemma parse_v2_source:
  "parse_v2_inbound P buf s =
     (let addr_len = be_u16 (buf ! 14) (buf ! 15)
      in if V2_MAX_ADDR_LEN < addr_len then Some (Inl InvalidData)
         else case read_exact (V2_HEADER_FIXED_SIZE + addr_len) s of
           None \<Rightarrow> None
         | Some (Inl e) \<Rightarrow> Some (Inl e)
         | Some (Inr (h, s')) \<Rightarrow> Some (map_sum id (\<lambda>a. (a, s')) (v2_source P h)))"
  by (auto simp: parse_v2_inbound_def v2_source_def Let_def split: option.splits sum.splits v2_addresses.splits v2_command.splits)

section \<open>Reading back a framed header\<close>

lemma parse_v1_reads:
  assumes "v1_frame h" "ts_data s = h @ payload"
  shows "parse_v1_inbound P s = Some (map_sum id (\<lambda>a. (a, s\<lparr>ts_data := payload\<rparr>)) (v1_source P h))"
proof -
  define line where "line = take (length h - 2) h"
  have h: "h = line @ crlf" using assms(1) by (simp add: v1_frame_def line_def) (metis append_take_drop_id)
  have "no_crlf False line" "length line + 2 \<le> V1_MAX_LENGTH" using assms(1) by (auto simp: v1_frame_def line_def)
  then have "v1_read_loop (ts_closed s) [] False (line @ crlf @ payload) = Some (Inr ([] @ line @ crlf, payload))"
    by (intro v1_read_loop_reads) simp_all
  then show ?thesis using assms(2) by (simp add: parse_v1_source h)
qed

lemma parse_v2_reads:
  assumes "v2_frame h" "ts_data s = h @ payload" "take V2_HEADER_FIXED_SIZE h = buf"
  shows "parse_v2_inbound P buf s = Some (map_sum id (\<lambda>a. (a, s\<lparr>ts_data := payload\<rparr>)) (v2_source P h))"
proof -
  have "buf ! 14 = h ! 14" "buf ! 15 = h ! 15" using assms(3) by (auto simp: V2_HEADER_FIXED_SIZE_def)
  then show ?thesis using assms(1,2) by (simp add: parse_v2_source v2_frame_def read_exact_def Let_def)
qed

lemma peek_loop_v1:
  assumes "v1_frame h" "ts_data s = h @ payload" "\<exists>n\<in>set peeks. 5 \<le> n"
  shows "\<exists>k\<ge>6. k \<le> 16 \<and> peek_loop peeks s = Some (Inr (take k (h @ payload)))"
  using assms(3)
proof (induction peeks)
  case (Cons n peeks)
  have len: "8 \<le> length h" and pre: "take 6 (h @ payload) = V1_PREFIX" using assms(1) by (auto simp: v1_frame_def)
  then have "h \<noteq> []" by auto
  note len = len this
  have buf: "peek n s = Some (take (min (Suc n) 16) (h @ payload))"
    using assms(2) len by (simp add: peek_def V2_HEADER_FIXED_SIZE_def)
  show ?case
  proof (cases "5 \<le> n")
    case True
    have p: "take 6 (take (min (Suc n) 16) (h @ payload)) = V1_PREFIX"
      using True pre by (simp only: take_take) (simp add: min_def)
    have "6 \<le> length (take (min (Suc n) 16) (h @ payload))" using True len by simp
    then have "peek_loop (n # peeks) s = Some (Inr (take (min (Suc n) 16) (h @ payload)))"
      using buf p by (auto simp del: take_append take_take)
    then show ?thesis using True by (intro exI [of _ "min (Suc n) 16"]) simp
  next
    case False
    then have "length (take (min (Suc n) 16) (h @ payload)) < 6" "take (min (Suc n) 16) (h @ payload) \<noteq> []" using len by auto
    then have "peek_loop (n # peeks) s = peek_loop peeks s"
      using buf by (simp add: V2_HEADER_FIXED_SIZE_def del: take_append length_take take_eq_Nil)
    then show ?thesis using Cons False by simp
  qed
qed simp

lemma peek_loop_v2:
  assumes "v2_frame h" "ts_data s = h @ payload" "\<exists>n\<in>set peeks. 15 \<le> n"
  shows "peek_loop peeks s = Some (Inr (take V2_HEADER_FIXED_SIZE h))"
  using assms(3)
proof (induction peeks)
  case (Cons n peeks)
  have len: "16 \<le> length h" "h \<noteq> []" and pre: "take 12 h = V2_SIGNATURE"
    using assms(1) by (auto simp: v2_frame_def V2_HEADER_FIXED_SIZE_def)
  define buf where "buf = take (min (Suc n) 16) h"
  have pk: "peek n s = Some buf" using assms(2) len by (simp add: peek_def V2_HEADER_FIXED_SIZE_def buf_def)
  have lb: "length buf = min (Suc n) 16" "buf \<noteq> []" using len by (auto simp: buf_def)
  have nv1: "\<not> (6 \<le> length buf \<and> take 6 buf = V1_PREFIX)"
  proof
    assume *: "6 \<le> length buf \<and> take 6 buf = V1_PREFIX"
    then have "take 6 h = V1_PREFIX" by (simp add: buf_def lb min_def split: if_splits)
    then show False using pre signatures_differ by blast
  qed
  show ?case
  proof (cases "15 \<le> n")
    case True
    then have "buf = take V2_HEADER_FIXED_SIZE h" by (simp add: buf_def V2_HEADER_FIXED_SIZE_def)
    then show ?thesis using pk lb True by (simp add: V2_HEADER_FIXED_SIZE_def)
  next
    case False
    then have "peek_loop (n # peeks) s = peek_loop peeks s" using pk lb nv1 by (auto simp: V2_HEADER_FIXED_SIZE_def)
    then show ?thesis using Cons False by simp
  qed
qed simp

section \<open>Completeness and soundness of the header reader\<close>

definition trusted_proxy_peer :: "'n net_api \<Rightarrow> 'n tcp_recv_proxy_protocol_config \<Rightarrow> socket_addr \<Rightarrow> bool" where
  "trusted_proxy_peer N config peer =
     list_ex (\<lambda>net. net_contains N net (normalize_mapped_ipv4 (sa_ip peer))) (pp_trusted_proxies config)"

definition header_client :: "ppp_api \<Rightarrow> socket_addr \<Rightarrow> bytes \<Rightarrow> io_error_kind + socket_addr" where
  "header_client P peer h = map_sum id (\<lambda>a. case a of Some c \<Rightarrow> c | None \<Rightarrow> peer) (header_source P h)"

lemma parse_inbound_reads:
  assumes "trusted_proxy_peer N config peer" "v1_frame h \<or> v2_frame h" "ts_data s = h @ payload" "\<exists>n\<in>set peeks. 15 \<le> n"
  shows "parse_inbound_proxy_header N P peeks s peer config =
           Some (map_sum id (\<lambda>a. (a, s\<lparr>ts_data := payload\<rparr>)) (header_source P h))"
  using assms(2)
proof
  assume f: "v1_frame h"
  obtain n where "n \<in> set peeks" "15 \<le> n" using assms(4) by blast
  then have "\<exists>n\<in>set peeks. 5 \<le> n" by (intro bexI [of _ n]) simp_all
  then obtain k where k: "6 \<le> k" "k \<le> 16" "peek_loop peeks s = Some (Inr (take k (h @ payload)))"
    using peek_loop_v1 [OF f assms(3)] by blast
  have p: "take 6 (h @ payload) = V1_PREFIX" using f by (simp add: v1_frame_def)
  then have v1: "take 6 (take k (h @ payload)) = V1_PREFIX" using k(1) by (simp only: take_take) (simp add: min_def)
  then have "take 12 (take k (h @ payload)) \<noteq> V2_SIGNATURE" using signatures_differ by blast
  then have "parse_inbound_proxy_header N P peeks s peer config = parse_v1_inbound P s"
    using assms(1) k(3) v1 unfolding parse_inbound_proxy_header_def trusted_proxy_peer_def
    by (simp del: take_append take_take)
  then show ?thesis by (simp add: parse_v1_reads [OF f assms(3)] header_source_v1 [OF f])
next
  assume f: "v2_frame h"
  have "take 12 (take V2_HEADER_FIXED_SIZE h) = V2_SIGNATURE" "12 \<le> length (take V2_HEADER_FIXED_SIZE h)"
    using f by (auto simp: v2_frame_def V2_HEADER_FIXED_SIZE_def)
  then have "parse_inbound_proxy_header N P peeks s peer config = parse_v2_inbound P (take V2_HEADER_FIXED_SIZE h) s"
    using assms(1) peek_loop_v2 [OF f assms(3,4)] by (simp add: parse_inbound_proxy_header_def trusted_proxy_peer_def)
  then show ?thesis by (simp add: parse_v2_reads [OF f assms(3) refl] header_source_v2 [OF f])
qed

lemma peek_loop_prefix: "peek_loop peeks s = Some (Inr buf) \<Longrightarrow>
    buf = take (length buf) (ts_data s) \<and> length buf \<le> 16 \<and> (16 \<le> length buf \<or> take 6 buf = V1_PREFIX)"
  by (induction peeks) (auto simp: peek_def V2_HEADER_FIXED_SIZE_def min_def split: if_splits)

lemma map_sum_id_Inr: "map_sum id f x = Inr y \<longleftrightarrow> (\<exists>z. x = Inr z \<and> y = f z)"
  by (cases x) auto

lemma v1_prefix_length:
  assumes "take 6 (line @ crlf @ rest) = V1_PREFIX"
  shows "6 \<le> length line"
proof (rule ccontr)
  assume "\<not> 6 \<le> length line"
  then have "(line @ crlf @ rest) ! length line = V1_PREFIX ! length line" and l: "length line < 6"
    using nth_take [of "length line" 6 "line @ crlf @ rest"] assms by auto
  then have "CHR 0x0D = V1_PREFIX ! length line" by simp
  moreover have "V1_PREFIX ! length line \<in> set V1_PREFIX" using l by (intro nth_mem) (simp add: V1_PREFIX_def)
  ultimately show False by (auto simp: V1_PREFIX_def)
qed

lemma v1_read_loop_frame:
  assumes "v1_read_loop closed [] False data = Some (Inr (h, rest))" "take 6 data = V1_PREFIX"
  shows "v1_frame h \<and> data = h @ rest"
proof -
  obtain line where l: "data = line @ [CHR 0x0A] @ rest" "h = line @ [CHR 0x0A]" "no_crlf False line"
      "length h \<le> V1_MAX_LENGTH" "line \<noteq> []" "last line = CHR 0x0D"
    using v1_read_loop_exact [OF assms(1)] by (auto simp: V1_MAX_LENGTH_def split: if_splits)
  obtain start where line: "line = start @ [CHR 0x0D]" using append_butlast_last_id [OF l(5)] l(6) by metis
  have h: "h = start @ crlf" and d: "data = start @ crlf @ rest" by (simp_all add: l(1,2) line)
  have "no_crlf False start" using l(3) no_crlf_append unfolding line by blast
  moreover have len: "6 \<le> length start" using v1_prefix_length assms(2) unfolding d by blast
  moreover have "take 6 h = V1_PREFIX" using assms(2) len by (simp add: d h)
  ultimately show ?thesis using l(4) by (simp add: v1_frame_def h d)
qed

lemma parse_v1_sound:
  assumes "parse_v1_inbound P s = Some (Inr (a, s'))" "take 6 (ts_data s) = V1_PREFIX"
  shows "\<exists>h. v1_frame h \<and> ts_data s = h @ ts_data s' \<and> v1_source P h = Inr a"
proof -
  obtain h rest where l: "v1_read_loop (ts_closed s) [] False (ts_data s) = Some (Inr (h, rest))"
    and a: "v1_source P h = Inr a" "s' = s\<lparr>ts_data := rest\<rparr>"
    using assms(1) by (auto simp: parse_v1_source map_sum_id_Inr split: option.splits sum.splits)
  show ?thesis using v1_read_loop_frame [OF l assms(2)] a by (intro exI [of _ h]) simp
qed

lemma parse_v2_sound:
  assumes "parse_v2_inbound P buf s = Some (Inr (a, s'))" "buf = take 16 (ts_data s)" "length buf = 16" "take 12 buf = V2_SIGNATURE"
  shows "\<exists>h. v2_frame h \<and> ts_data s = h @ ts_data s' \<and> v2_source P h = Inr a"
proof -
  define n where "n = be_u16 (buf ! 14) (buf ! 15)"
  have n: "n \<le> V2_MAX_ADDR_LEN" "16 + n \<le> length (ts_data s)" "s' = s\<lparr>ts_data := drop (16 + n) (ts_data s)\<rparr>"
    "v2_source P (take (16 + n) (ts_data s)) = Inr a"
    using assms(1)
    by (auto simp: parse_v2_source n_def [symmetric] read_exact_def V2_HEADER_FIXED_SIZE_def Let_def map_sum_id_Inr split: if_splits)
  have "take (16 + n) (ts_data s) ! 14 = buf ! 14" "take (16 + n) (ts_data s) ! 15 = buf ! 15"
    "take 12 (ts_data s) = V2_SIGNATURE"
    using assms(2,4) by auto
  then have "v2_frame (take (16 + n) (ts_data s))"
    using n(1,2) by (simp add: v2_frame_def V2_HEADER_FIXED_SIZE_def n_def)
  then show ?thesis using n(3,4) by (intro exI [of _ "take (16 + n) (ts_data s)"]) simp
qed

lemma parse_inbound_sound:
  assumes "parse_inbound_proxy_header N P peeks s peer config = Some (Inr (a, s'))"
  shows "trusted_proxy_peer N config peer \<and>
    (\<exists>h. (v1_frame h \<or> v2_frame h) \<and> ts_data s = h @ ts_data s' \<and> header_source P h = Inr a)"
proof -
  have t: "trusted_proxy_peer N config peer"
    using assms by (auto simp: parse_inbound_proxy_header_def trusted_proxy_peer_def split: if_splits)
  obtain buf where p: "peek_loop peeks s = Some (Inr buf)"
    and c: "(if 12 \<le> length buf \<and> take 12 buf = V2_SIGNATURE then parse_v2_inbound P buf s
             else if take 6 buf = V1_PREFIX then parse_v1_inbound P s else Some (Inl InvalidData)) = Some (Inr (a, s'))"
    using assms by (auto simp: parse_inbound_proxy_header_def split: if_splits option.splits sum.splits)
  have buf: "buf = take (length buf) (ts_data s)" "length buf \<le> 16" "16 \<le> length buf \<or> take 6 buf = V1_PREFIX"
    using peek_loop_prefix [OF p] by auto
  show ?thesis
  proof (cases "12 \<le> length buf \<and> take 12 buf = V2_SIGNATURE")
    case True
    then have "length buf = 16" using buf signatures_differ [of buf] by auto
    moreover have "parse_v2_inbound P buf s = Some (Inr (a, s'))" using c True by simp
    ultimately obtain h where "v2_frame h" "ts_data s = h @ ts_data s'" "v2_source P h = Inr a"
      using parse_v2_sound [of P buf s a s'] True buf(1) by auto
    then show ?thesis using t header_source_v2 by metis
  next
    case False
    then have v: "take 6 buf = V1_PREFIX" "parse_v1_inbound P s = Some (Inr (a, s'))" using c by (auto split: if_splits)
    then have "length (take 6 buf) = 6" by (simp add: V1_PREFIX_def)
    then have "6 \<le> length buf" by (simp add: min_def split: if_splits)
    then have "take 6 (ts_data s) = V1_PREFIX" 
      using v(1) buf(1) take_take [of 6 "length buf" "ts_data s"] by (simp add: min_def)
    then obtain h where "v1_frame h" "ts_data s = h @ ts_data s'" "v1_source P h = Inr a"
      using parse_v1_sound [OF v(2)] by blast
    then show ?thesis using t header_source_v1 by metis
  qed
qed

lemma peek_loop_decides:
  assumes "\<exists>n\<in>set peeks. 15 \<le> n" "16 \<le> length (ts_data s)"
  shows "\<exists>buf. peek_loop peeks s = Some (Inr buf)"
  using assms(1)
proof (induction peeks)
  case (Cons n peeks)
  have ne: "ts_data s \<noteq> []" using assms(2) by auto
  show ?case using Cons assms(2) ne by (cases "15 \<le> n") (auto simp: peek_def V2_HEADER_FIXED_SIZE_def)
qed simp

section \<open>The reader under its deadline\<close>

lemma extract_of_parse:
  "extract_parse_result_from_proxy_protocol_header N P peeks s peer config =
     (case parse_inbound_proxy_header N P peeks s peer config of
        None \<Rightarrow> Inl TimedOut
      | Some r \<Rightarrow> map_sum id (\<lambda>(a, s'). (case a of Some c \<Rightarrow> c | None \<Rightarrow> peer, s')) r)"
  by (auto simp: extract_parse_result_from_proxy_protocol_header_def split: option.splits sum.splits)

lemma header_source_not_timeout: "header_source P h \<noteq> Inl TimedOut"
  by (auto simp: header_source_def v1_source_def v2_source_def
      split: option.splits v1_addresses.splits v2_addresses.splits v2_command.splits)

lemma v1_read_loop_no_timeout: "v1_read_loop closed header cr data \<noteq> Some (Inl TimedOut)"
  by (induction closed header cr data rule: v1_read_loop.induct) (auto simp: Let_def)

lemma parse_no_timeout:
  "parse_v1_inbound P s \<noteq> Some (Inl TimedOut)" "parse_v2_inbound P buf s \<noteq> Some (Inl TimedOut)"
proof -
  have 1: "v1_source P h \<noteq> Inl TimedOut" "v2_source P h \<noteq> Inl TimedOut" for h
    by (auto simp: v1_source_def v2_source_def split: option.splits v1_addresses.splits v2_addresses.splits v2_command.splits)
  then have 2: "map_sum id f (v1_source P h) \<noteq> Inl TimedOut" "map_sum id f (v2_source P h) \<noteq> Inl TimedOut" for h and f :: "_ \<Rightarrow> 'b"
    by (metis id_apply map_sum.simps old.sum.exhaust sum.distinct(1) sum.sel(1))+
  show "parse_v1_inbound P s \<noteq> Some (Inl TimedOut)"
    using 2 v1_read_loop_no_timeout by (auto simp: parse_v1_source split: option.splits sum.splits)
  show "parse_v2_inbound P buf s \<noteq> Some (Inl TimedOut)"
    using 2 by (auto simp: parse_v2_source Let_def read_exact_def)
qed

text \<open>Once the bytes of the longest header of either version are there, or the peer has closed, both readers decide.\<close>

lemma parse_decides:
  assumes "V2_HEADER_FIXED_SIZE + V2_MAX_ADDR_LEN \<le> length (ts_data s) \<or> ts_closed s"
  shows "parse_v1_inbound P s \<noteq> None" "parse_v2_inbound P buf s \<noteq> None"
proof -
  have "v1_read_loop (ts_closed s) [] False (ts_data s) \<noteq> None"
    using assms v1_read_loop_decides [of "[]" "ts_data s"] v1_read_loop_closed [of "[]" False "ts_data s"]
    by (auto simp: V1_MAX_LENGTH_def V2_HEADER_FIXED_SIZE_def V2_MAX_ADDR_LEN_def)
  then show "parse_v1_inbound P s \<noteq> None" by (auto simp: parse_v1_source split: option.splits sum.splits)
  show "parse_v2_inbound P buf s \<noteq> None"
    using assms by (auto simp: parse_v2_source Let_def read_exact_def)
qed

section \<open>A concrete parser\<close>

text \<open>
  The parts of the two formats that the examples below use: \<open>PROXY UNKNOWN\<close> lines, and binary headers
  with the command \<open>LOCAL\<close> or an IPv4 source.
\<close>

definition byte_u8 :: "char \<Rightarrow> u8" where "byte_u8 c = of_nat (byte c)"

definition tiny_ppp :: ppp_api where
  "tiny_ppp = \<lparr>
     ppp_v2 = (\<lambda>h. if h ! 12 = CHR 0x20 then Some (LocalCommand, V2Unspecified)
                    else if h ! 12 = CHR 0x21 \<and> h ! 13 = CHR 0x11 \<and> 28 \<le> length h
                    then Some (ProxyCommand, V2IPv4 (Ipv4Addr (byte_u8 (h ! 16)) (byte_u8 (h ! 17)) (byte_u8 (h ! 18)) (byte_u8 (h ! 19)))
                                                    (of_nat (be_u16 (h ! 24) (h ! 25))))
                    else None),
     ppp_v1 = (\<lambda>h. if h = ''PROXY UNKNOWN'' @ crlf then Some V1Unknown else None)\<rparr>"

definition sample_v2_header :: bytes where
  "sample_v2_header = V2_SIGNATURE @ [CHR 0x21, CHR 0x11, CHR 0x00, CHR 0x0C] @
     [CHR 0x05, CHR 0x06, CHR 0x07, CHR 0x08, CHR 0x0A, CHR 0x00, CHR 0x00, CHR 0x01, CHR 0x04, CHR 0x00, CHR 0x01, CHR 0x02]"

definition edge_net_api :: "ip_addr net_api" where
  "edge_net_api = \<lparr>net_contains = (\<lambda>net ip. net = ip), net_from_str = (\<lambda>_. None), itoa_u8 = (\<lambda>_. [])\<rparr>"

definition edge_config :: "ip_addr tcp_recv_proxy_protocol_config" where
  "edge_config = \<lparr>pp_trusted_proxies = [V4 (Ipv4Addr 10 0 0 2)], pp_timeout = from_secs 3\<rparr>"

abbreviation edge_peer :: socket_addr where "edge_peer \<equiv> SocketAddr (V4 (Ipv4Addr 10 0 0 2)) 40000"

abbreviation sample_stream :: tcp_stream where
  "sample_stream \<equiv> \<lparr>ts_data = sample_v2_header @ ''GET '', ts_closed = False\<rparr>"

lemma edge_peer_trusted: "trusted_proxy_peer edge_net_api edge_config edge_peer"
  by (simp add: trusted_proxy_peer_def edge_config_def edge_net_api_def)

lemma sample_v2_frame: "v2_frame sample_v2_header"
  by (simp add: v2_frame_def sample_v2_header_def pp_consts be_u16_def byte_def)

lemma sample_v2_client: "header_client tiny_ppp edge_peer sample_v2_header = Inr (SocketAddr (V4 (Ipv4Addr 5 6 7 8)) 1024)"
  using sample_v2_frame
  by (simp add: header_client_def header_source_def v2_source_def tiny_ppp_def)
    (simp add: sample_v2_header_def V2_SIGNATURE_def be_u16_def byte_def byte_u8_def)

section \<open>Properties\<close>

text \<open>C31: A PROXY header from a trusted peer is read back exactly: for every well-framed header of either
  version in front of any application data, however the bytes arrive before the deadline, the
  connection continues with precisely the application data, under the address the header names (the
  peer's own where it names none), or is refused with the parser's verdict on that header.\<close>

theorem proxy_header_roundtrip:
  assumes "trusted_proxy_peer N config peer"
    and "v1_frame h \<or> v2_frame h"
    and "ts_data s = h @ payload"
    and "\<exists>n\<in>set peeks. 15 \<le> n"
  shows "extract_parse_result_from_proxy_protocol_header N P peeks s peer config =
           map_sum id (\<lambda>client. (client, s\<lparr>ts_data := payload\<rparr>)) (header_client P peer h)"
  unfolding extract_of_parse parse_inbound_reads [OF assms] header_client_def
  by (simp add: sum.map_comp comp_def)

theorem proxy_header_roundtrip_witness:
  "extract_parse_result_from_proxy_protocol_header edge_net_api tiny_ppp [2, 30] sample_stream edge_peer edge_config =
     Inr (SocketAddr (V4 (Ipv4Addr 5 6 7 8)) 1024, \<lparr>ts_data = ''GET '', ts_closed = False\<rparr>)"
  using proxy_header_roundtrip [of edge_net_api edge_config edge_peer sample_v2_header sample_stream "''GET ''" "[2, 30]" tiny_ppp]
  by (simp add: edge_peer_trusted sample_v2_frame sample_v2_client)

text \<open>C9: The I/O contract of the header reader: whenever a connection gets past it, the peer was in the
  trusted list, and what was taken off the stream is exactly one well-framed header of at most 2064
  bytes, whose parse gave the address used from then on.  So an untrusted peer can neither choose its
  address nor have a byte of its stream swallowed.\<close>

theorem proxy_header_consumed_exactly:
  assumes "extract_parse_result_from_proxy_protocol_header N P peeks s peer config = Inr (client, s')"
  shows "trusted_proxy_peer N config peer \<and>
    (\<exists>h. (v1_frame h \<or> v2_frame h) \<and> length h \<le> V2_HEADER_FIXED_SIZE + V2_MAX_ADDR_LEN \<and>
         ts_data s = h @ ts_data s' \<and> header_client P peer h = Inr client)"
proof -
  obtain a where p: "parse_inbound_proxy_header N P peeks s peer config = Some (Inr (a, s'))"
    and c: "client = (case a of Some c \<Rightarrow> c | None \<Rightarrow> peer)"
    using assms by (auto simp: extract_of_parse map_sum_id_Inr split: option.splits)
  obtain h where h: "trusted_proxy_peer N config peer" "v1_frame h \<or> v2_frame h" "ts_data s = h @ ts_data s'" "header_source P h = Inr a"
    using parse_inbound_sound [OF p] by blast
  have "length h \<le> V2_HEADER_FIXED_SIZE + V2_MAX_ADDR_LEN" using h(2) by (auto simp: v1_frame_def v2_frame_def pp_consts)
  then show ?thesis using h c by (auto simp: header_client_def)
qed

theorem proxy_header_consumed_exactly_witness:
  "trusted_proxy_peer edge_net_api edge_config edge_peer"
proof -
  have "extract_parse_result_from_proxy_protocol_header edge_net_api tiny_ppp [15] sample_stream edge_peer edge_config =
     Inr (SocketAddr (V4 (Ipv4Addr 5 6 7 8)) 1024, \<lparr>ts_data = ''GET '', ts_closed = False\<rparr>)"
    using parse_inbound_reads [of edge_net_api edge_config edge_peer sample_v2_header sample_stream "''GET ''" "[15]" tiny_ppp]
      sample_v2_client
    by (auto simp: extract_of_parse header_client_def edge_peer_trusted sample_v2_frame map_sum_id_Inr split: option.splits)
  from proxy_header_consumed_exactly [OF this] show ?thesis by simp
qed

text \<open>C32: The header reader always comes to a decision: with sixteen bytes seen in some turn, it accepts
  or refuses, and never runs into its deadline, as soon as the bytes of the longest admissible header
  are there or the peer has closed its side.\<close>

theorem proxy_header_decides:
  assumes "\<exists>n\<in>set peeks. 15 \<le> n"
    and "V2_HEADER_FIXED_SIZE \<le> length (ts_data s)"
    and "V2_HEADER_FIXED_SIZE + V2_MAX_ADDR_LEN \<le> length (ts_data s) \<or> ts_closed s"
  shows "extract_parse_result_from_proxy_protocol_header N P peeks s peer config \<noteq> Inl TimedOut"
proof -
  obtain buf where "peek_loop peeks s = Some (Inr buf)"
    using peek_loop_decides [OF assms(1)] assms(2) by (auto simp: V2_HEADER_FIXED_SIZE_def)
  then have "parse_inbound_proxy_header N P peeks s peer config \<notin> {None, Some (Inl TimedOut)}"
    using parse_decides [OF assms(3)] parse_no_timeout by (auto simp: parse_inbound_proxy_header_def)
  then obtain r where "parse_inbound_proxy_header N P peeks s peer config = Some r" "r \<noteq> Inl TimedOut"
    by (cases "parse_inbound_proxy_header N P peeks s peer config") auto
  then show ?thesis by (cases r) (auto simp: extract_of_parse)
qed

theorem proxy_header_decides_witness:
  "extract_parse_result_from_proxy_protocol_header edge_net_api tiny_ppp [15] \<lparr>ts_data = ''GET / HTTP/1.1 Host'', ts_closed = True\<rparr> edge_peer edge_config
     \<noteq> Inl TimedOut"
  by (rule proxy_header_decides) (simp_all add: V2_HEADER_FIXED_SIZE_def)

end
