(* ===== verification/Certs.thy ===== *)
theory Certs
  imports Sticky_Cookie Name_Exp "HOL-Library.AList"
begin

text \<open>
  The certificates (crate \<open>rpxy-certs\<close>): reading them from files, the reloader that keeps the last good
  ones, and the TLS server configurations built from them.  Opening files, PEM, X.509 and the checks
  of \<open>rustls\<close> are arguments; a \<open>rustls::ServerConfig\<close> is the record of the settings the code gives it.
  A hash map is an association list with distinct keys, in any order.
\<close>

section \<open>Errors, certificates and keys\<close>

datatype cert_error =
    CertIoError io_error_kind
  | InvalidCertificateAndKey
  | NoClientCert
  | CertReloadError
  | ServerNameBytesToString
  | RustlsError
  | NoDefaultProvider

datatype 'k private_key = Pkcs8 'k | Pkcs1 'k

record ('c, 'k) certs_keys =
  ck_certs :: "'c list"
  ck_cert_keys :: "'k private_key list"
  ck_client_ca_certs :: "'c list option"

definition certs_keys_new :: "'c list \<Rightarrow> 'k private_key list \<Rightarrow> 'c list option \<Rightarrow> ('c, 'k) certs_keys" where
  "certs_keys_new certs cert_keys client_ca_certs =
     \<lparr>ck_certs = certs, ck_cert_keys = cert_keys, ck_client_ca_certs = client_ca_certs\<rparr>"

definition is_mutual_tls :: "('c, 'k) certs_keys \<Rightarrow> bool" where
  "is_mutual_tls ck = (ck_client_ca_certs ck \<noteq> None)"

section \<open>Reading the files\<close>

text \<open>
  \<open>'f\<close> is an open file.  \<open>pem_certs\<close> is \<open>CertificateDer::pem_reader_iter\<close> collected over it;
  \<open>pem_pkcs8\<close> and \<open>pem_pkcs1\<close> are the two passes over the bytes of the key file.
\<close>

record ('f, 'c, 'k) pem_api =
  read_to_end :: "'f \<Rightarrow> io_error_kind + bytes"
  pem_certs :: "'f \<Rightarrow> 'c list option"
  pem_pkcs8 :: "bytes \<Rightarrow> 'k list option"
  pem_pkcs1 :: "bytes \<Rightarrow> 'k list option"

type_synonym 'f files = "bytes \<Rightarrow> io_error_kind + 'f"

record crypto_file_source =
  tls_cert_path :: bytes
  tls_cert_key_path :: bytes
  client_ca_cert_path :: "bytes option"

definition read_pem_certs :: "('f, 'c, 'k) pem_api \<Rightarrow> 'f files \<Rightarrow> bytes \<Rightarrow> cert_error + 'c list" where
  "read_pem_certs A files path =
     rbind (map_err CertIoError (files path)) (\<lambda>file. ok_or (pem_certs A file) (CertIoError InvalidInput))"

definition read_certs_and_keys :: "('f, 'c, 'k) pem_api \<Rightarrow> 'f files \<Rightarrow> bytes \<Rightarrow> bytes \<Rightarrow> bytes option \<Rightarrow>
    cert_error + ('c, 'k) certs_keys" where
  "read_certs_and_keys A files cert_path cert_key_path client_ca_path =
     rbind (read_pem_certs A files cert_path) (\<lambda>raw_certs.
     rbind (map_err CertIoError (files cert_key_path)) (\<lambda>key_file.
     rbind (map_err CertIoError (read_to_end A key_file)) (\<lambda>encoded_keys.
     rbind (ok_or (pem_pkcs8 A encoded_keys) (CertIoError InvalidInput)) (\<lambda>pkcs8_keys.
     rbind (ok_or (pem_pkcs1 A encoded_keys) (CertIoError InvalidInput)) (\<lambda>rsa_keys.
     let raw_cert_keys = map Pkcs8 pkcs8_keys @ map Pkcs1 rsa_keys
     in if raw_cert_keys = [] then Inl (CertIoError InvalidInput)
        else
          rbind (case client_ca_path of
                   None \<Rightarrow> Inr None
                 | Some path \<Rightarrow> rbind (read_pem_certs A files path) (\<lambda>certs. Inr (Some certs)))
            (\<lambda>client_ca_certs. Inr (certs_keys_new raw_certs raw_cert_keys client_ca_certs)))))))"

definition source_read :: "('f, 'c, 'k) pem_api \<Rightarrow> 'f files \<Rightarrow> crypto_file_source \<Rightarrow> cert_error + ('c, 'k) certs_keys" where
  "source_read A files s =
     read_certs_and_keys A files (tls_cert_path s) (tls_cert_key_path s) (client_ca_cert_path s)"

definition source_is_mutual_tls :: "crypto_file_source \<Rightarrow> bool" where
  "source_is_mutual_tls s = (client_ca_cert_path s \<noteq> None)"

text \<open>The warning about the permissions of a key file; \<open>None\<close> where its metadata cannot be read.\<close>

datatype perm_warning = NoWarning | WorldReadable "32 word" | LoosePermissions "32 word"

unbundle bit_operations_syntax

definition warn_if_key_perm_loose :: "32 word option \<Rightarrow> perm_warning" where
  "warn_if_key_perm_loose meta =
     (case meta of
        None \<Rightarrow> NoWarning
      | Some st_mode \<Rightarrow>
          (let mode = st_mode AND 0x1FF
           in if mode AND 0x3F = 0 then NoWarning
              else if mode AND 0x4 \<noteq> 0 then WorldReadable mode else LoosePermissions mode))"

section \<open>The reloader\<close>

record ('c, 'k) crypto_reloader =
  cr_inner :: "(bytes \<times> crypto_file_source) list"
  last_good :: "(bytes \<times> ('c, 'k) certs_keys) list"

definition reloader_new :: "(bytes \<times> crypto_file_source) list \<Rightarrow> ('c, 'k) crypto_reloader" where
  "reloader_new source = \<lparr>cr_inner = source, last_good = []\<rparr>"

text \<open>\<open>build_cert_reloader\<close>: names are lowercased; of two that become equal, the later one in the map's order stays.\<close>

definition build_cert_reloader :: "(bytes \<times> crypto_file_source) list \<Rightarrow> ('c, 'k) crypto_reloader" where
  "build_cert_reloader crypto_source_map =
     reloader_new (fold (\<lambda>(k, v). AList.update (to_ascii_lowercase k) v) crypto_source_map [])"

text \<open>One source after the other; \<open>files\<close> is the file system at the time a source is read.\<close>

fun reload_loop :: "('f, 'c, 'k) pem_api \<Rightarrow> (bytes \<Rightarrow> 'f files) \<Rightarrow> (bytes \<times> crypto_file_source) list \<Rightarrow>
    (bytes \<times> ('c, 'k) certs_keys) list \<Rightarrow> (bytes \<times> ('c, 'k) certs_keys) list \<Rightarrow>
    (bytes \<times> ('c, 'k) certs_keys) list \<times> (bytes \<times> ('c, 'k) certs_keys) list" where
  "reload_loop A files [] base good = (base, good)"
| "reload_loop A files ((name, src) # inner) base good =
     (case source_read A (files name) src of
        Inr certs_keys \<Rightarrow> reload_loop A files inner (AList.update name certs_keys base) (AList.update name certs_keys good)
      | Inl _ \<Rightarrow>
          (case map_of good name of
             Some retained \<Rightarrow> reload_loop A files inner (AList.update name retained base) good
           | None \<Rightarrow> reload_loop A files inner base good))"

definition reload :: "('f, 'c, 'k) pem_api \<Rightarrow> (bytes \<Rightarrow> 'f files) \<Rightarrow> ('c, 'k) crypto_reloader \<Rightarrow>
    (bytes \<times> ('c, 'k) certs_keys) list \<times> ('c, 'k) crypto_reloader" where
  "reload A files r =
     (let (base, good) = reload_loop A files (cr_inner r) [] (last_good r) in (base, r\<lparr>last_good := good\<rparr>))"

text \<open>A history of reloads, each with the file system it met; the result of the last one.\<close>

fun reload_run :: "('f, 'c, 'k) pem_api \<Rightarrow> (bytes \<Rightarrow> 'f files) list \<Rightarrow> ('c, 'k) crypto_reloader \<Rightarrow> ('c, 'k) crypto_reloader" where
  "reload_run A [] r = r"
| "reload_run A (files # hist) r = reload_run A hist (snd (reload A files r))"

section \<open>Server configurations\<close>

record ('c, 'k, 's, 't) rustls_api =
  any_supported_type :: "'k private_key \<Rightarrow> 's option"
  resolver_accepts :: "bytes \<Rightarrow> 'c list \<Rightarrow> 's \<Rightarrow> bool"
  anchor_from_trusted_cert :: "'c \<Rightarrow> 't option"
  x509_subject_key_ids :: "'c \<Rightarrow> bytes list option"
  verifier_builds :: "'t list \<Rightarrow> bool"
  provider_installed :: bool
  protocol_versions_ok :: bool

type_synonym ('c, 's) certified_key = "'c list \<times> 's"

definition rustls_certified_key :: "('c, 'k, 's, 't) rustls_api \<Rightarrow> ('c, 'k) certs_keys \<Rightarrow> cert_error + ('c, 's) certified_key" where
  "rustls_certified_key R ck =
     rbind (ok_or (List.find (\<lambda>x. x \<noteq> None) (map (any_supported_type R) (ck_cert_keys ck))) InvalidCertificateAndKey)
       (\<lambda>signing_key. Inr (ck_certs ck, the signing_key))"

definition trust_anchor_entry :: "('c, 'k, 's, 't) rustls_api \<Rightarrow> 'c \<Rightarrow> (bytes \<times> 't) option" where
  "trust_anchor_entry R cert =
     (case anchor_from_trusted_cert R cert of
        None \<Rightarrow> None
      | Some trust_anchor \<Rightarrow>
          (case x509_subject_key_ids R cert of
             Some (skid # _) \<Rightarrow> Some (skid, trust_anchor)
           | _ \<Rightarrow> None))"

definition rustls_client_certs_trust_anchors :: "('c, 'k, 's, 't) rustls_api \<Rightarrow> ('c, 'k) certs_keys \<Rightarrow> cert_error + (bytes \<times> 't) list" where
  "rustls_client_certs_trust_anchors R ck =
     (case ck_client_ca_certs ck of
        None \<Rightarrow> Inl NoClientCert
      | Some certs \<Rightarrow> Inr (fold (\<lambda>(k, v). AList.update k v) (List.map_filter (trust_anchor_entry R) certs) []))"

record ('c, 's, 't, 'tk) server_config =
  scf_client_roots :: "'t list option"
  scf_resolver :: "(bytes \<times> ('c, 's) certified_key) list"
  alpn_protocols :: "bytes list"
  ticketer :: "'tk option"
  session_storage :: bool

text \<open>The settings a \<open>ServerConfig\<close> starts with: no ALPN, no tickets, the in-memory session cache.\<close>

definition server_config_built :: "'t list option \<Rightarrow> (bytes \<times> ('c, 's) certified_key) list \<Rightarrow> ('c, 's, 't, 'tk) server_config" where
  "server_config_built client_roots resolver =
     \<lparr>scf_client_roots = client_roots, scf_resolver = resolver, alpn_protocols = [], ticketer = None, session_storage = True\<rparr>"

definition resolver_add :: "('c, 'k, 's, 't) rustls_api \<Rightarrow> bytes \<Rightarrow> ('c, 's) certified_key \<Rightarrow> (bytes \<times> ('c, 's) certified_key) list \<Rightarrow>
    (bytes \<times> ('c, 's) certified_key) list" where
  "resolver_add R name key resolver =
     (if resolver_accepts R name (fst key) (snd key) then AList.update name key resolver else resolver)"

definition server_name_bytes_to_string :: "bytes \<Rightarrow> cert_error + bytes" where
  "server_name_bytes_to_string name =
     (let name = to_ascii_lowercase name in if utf8_valid name then Inr name else Inl ServerNameBytesToString)"

text \<open>\<open>shared_ticketer\<close>: the cell of the process and the outcome of creating a ticketer.\<close>

definition shared_ticketer :: "'tk option \<Rightarrow> cert_error + 'tk \<Rightarrow> (cert_error + 'tk) \<times> 'tk option" where
  "shared_ticketer cell fresh =
     (case cell of
        Some tk \<Rightarrow> (Inr tk, cell)
      | None \<Rightarrow> (case fresh of Inl e \<Rightarrow> (Inl e, None) | Inr tk \<Rightarrow> (Inr tk, Some tk)))"

record ('c, 's, 't, 'tk) server_crypto_for_sni =
  sni_server_config :: "('c, 's, 't, 'tk) server_config"
  sni_is_mutual_tls :: bool

record ('c, 's, 't, 'tk) server_crypto =
  aggregated_config_no_client_auth :: "('c, 's, 't, 'tk) server_config"
  individual_config_map :: "(bytes \<times> ('c, 's, 't, 'tk) server_crypto_for_sni) list"

definition ALPN_H3 :: "bytes list" where "ALPN_H3 = [''h3'', ''h2'', ''http/1.1'']"
definition ALPN_TCP :: "bytes list" where "ALPN_TCP = [''h2'', ''http/1.1'']"

text \<open>
  The per-name configurations: the body of the loop (\<open>None\<close> where it continues without an entry), and the loop.  \<open>tk\<close> is what \<open>shared_ticketer\<close> returns during this build: a failure ends
  the build, so every later call of a build that continues returns the same ticketer.
\<close>

definition individual_entry :: "('c, 'k, 's, 't) rustls_api \<Rightarrow> cert_error + 'tk \<Rightarrow> bytes \<Rightarrow> ('c, 'k) certs_keys \<Rightarrow>
    cert_error + ('c, 's, 't, 'tk) server_crypto_for_sni option" where
  "individual_entry R tk name ck =
     rbind (server_name_bytes_to_string name) (\<lambda>server_name.
     case rustls_certified_key R ck of
       Inl _ \<Rightarrow> Inr None
     | Inr certified_key \<Rightarrow>
         (let resolver_local = resolver_add R server_name certified_key []
          in if \<not> is_mutual_tls ck then
               (if \<not> protocol_versions_ok R then Inl RustlsError
                else rbind tk (\<lambda>t.
                  Inr (Some \<lparr>sni_server_config = (server_config_built None resolver_local)
                                 \<lparr>alpn_protocols := ALPN_H3, ticketer := Some t, session_storage := False\<rparr>,
                             sni_is_mutual_tls = False\<rparr>)))
             else
               (case rustls_client_certs_trust_anchors R ck of
                  Inl _ \<Rightarrow> Inr None
                | Inr trust_anchors \<Rightarrow>
                    (let client_ca_roots_local = map snd trust_anchors
                     in if \<not> verifier_builds R client_ca_roots_local then Inr None
                        else if \<not> protocol_versions_ok R then Inl RustlsError
                        else Inr (Some \<lparr>sni_server_config = (server_config_built (Some client_ca_roots_local) resolver_local)
                                            \<lparr>alpn_protocols := ALPN_TCP, session_storage := False\<rparr>,
                                        sni_is_mutual_tls = True\<rparr>)))))"

fun build_individual :: "('c, 'k, 's, 't) rustls_api \<Rightarrow> cert_error + 'tk \<Rightarrow> (bytes \<times> ('c, 'k) certs_keys) list \<Rightarrow>
    (bytes \<times> ('c, 's, 't, 'tk) server_crypto_for_sni) list \<Rightarrow> cert_error + (bytes \<times> ('c, 's, 't, 'tk) server_crypto_for_sni) list" where
  "build_individual R tk [] server_crypto_map = Inr server_crypto_map"
| "build_individual R tk ((name, ck) # inner) server_crypto_map =
     rbind (individual_entry R tk name ck) (\<lambda>entry.
     build_individual R tk inner
       (case entry of None \<Rightarrow> server_crypto_map | Some e \<Rightarrow> AList.update name e server_crypto_map))"

definition build_individual_server_crypto_map :: "('c, 'k, 's, 't) rustls_api \<Rightarrow> cert_error + 'tk \<Rightarrow> (bytes \<times> ('c, 'k) certs_keys) list \<Rightarrow>
    cert_error + (bytes \<times> ('c, 's, 't, 'tk) server_crypto_for_sni) list" where
  "build_individual_server_crypto_map R tk base =
     (if \<not> provider_installed R then Inl NoDefaultProvider else build_individual R tk base [])"

fun aggregate_resolver :: "('c, 'k, 's, 't) rustls_api \<Rightarrow> (bytes \<times> ('c, 'k) certs_keys) list \<Rightarrow>
    (bytes \<times> ('c, 's) certified_key) list \<Rightarrow> cert_error + (bytes \<times> ('c, 's) certified_key) list" where
  "aggregate_resolver R [] resolver = Inr resolver"
| "aggregate_resolver R ((name, ck) # inner) resolver =
     rbind (server_name_bytes_to_string name) (\<lambda>server_name.
     case rustls_certified_key R ck of
       Inl _ \<Rightarrow> aggregate_resolver R inner resolver
     | Inr certified_key \<Rightarrow>
         aggregate_resolver R inner (if \<not> is_mutual_tls ck then resolver_add R server_name certified_key resolver else resolver))"

definition build_aggregated_server_crypto :: "('c, 'k, 's, 't) rustls_api \<Rightarrow> cert_error + 'tk \<Rightarrow> (bytes \<times> ('c, 'k) certs_keys) list \<Rightarrow>
    cert_error + ('c, 's, 't, 'tk) server_config" where
  "build_aggregated_server_crypto R tk base =
     (if \<not> provider_installed R then Inl NoDefaultProvider
      else rbind (aggregate_resolver R base []) (\<lambda>resolver_global.
           if \<not> protocol_versions_ok R then Inl RustlsError
           else rbind tk (\<lambda>t.
             Inr ((server_config_built None resolver_global)
                    \<lparr>alpn_protocols := ALPN_H3, ticketer := Some t, session_storage := False\<rparr>))))"

definition server_crypto_try_from :: "('c, 'k, 's, 't) rustls_api \<Rightarrow> cert_error + 'tk \<Rightarrow> (bytes \<times> ('c, 'k) certs_keys) list \<Rightarrow>
    cert_error + ('c, 's, 't, 'tk) server_crypto" where
  "server_crypto_try_from R tk base =
     rbind (build_aggregated_server_crypto R tk base) (\<lambda>aggregated.
     rbind (build_individual_server_crypto_map R tk base) (\<lambda>individual.
     Inr \<lparr>aggregated_config_no_client_auth = aggregated, individual_config_map = individual\<rparr>))"

section \<open>What a reload yields\<close>

lemma reload_loop_spec:
  assumes "distinct (map fst inner)"
  shows "map_of (fst (reload_loop A files inner base good)) n =
      (case map_of inner n of
         None \<Rightarrow> map_of base n
       | Some src \<Rightarrow>
           (case source_read A (files n) src of
              Inr ck \<Rightarrow> Some ck
            | Inl _ \<Rightarrow> (case map_of good n of Some ck \<Rightarrow> Some ck | None \<Rightarrow> map_of base n)))" (is "?base")
    and "map_of (snd (reload_loop A files inner base good)) n =
      (case map_of inner n of
         None \<Rightarrow> map_of good n
       | Some src \<Rightarrow> (case source_read A (files n) src of Inr ck \<Rightarrow> Some ck | Inl _ \<Rightarrow> map_of good n))" (is "?good")
proof -
  have "?base \<and> ?good" using assms
  proof (induction inner arbitrary: base good)
    case (Cons x inner)
    obtain m src where x: "x = (m, src)" by (cases x) auto
    have nm: "map_of inner m = None" and d: "distinct (map fst inner)"
      using Cons.prems by (auto simp: x map_of_eq_None_iff)
    show ?case
    proof (cases "source_read A (files m) src")
      case (Inl e)
      then show ?thesis using nm Cons.IH [OF d]
        by (cases "map_of good m") (auto simp: x update_conv split: option.splits sum.splits)
    next
      case (Inr ck)
      then show ?thesis using nm Cons.IH [OF d] by (auto simp: x update_conv split: option.splits sum.splits)
    qed
  qed simp
  then show ?base ?good by blast+
qed

text \<open>The result of the latest successful read of a source in a history of file systems.\<close>

fun last_read :: "('f, 'c, 'k) pem_api \<Rightarrow> bytes \<Rightarrow> crypto_file_source \<Rightarrow> ('c, 'k) certs_keys option \<Rightarrow> (bytes \<Rightarrow> 'f files) list \<Rightarrow>
    ('c, 'k) certs_keys option" where
  "last_read A n src acc [] = acc"
| "last_read A n src acc (files # hist) =
     last_read A n src (case source_read A (files n) src of Inr ck \<Rightarrow> Some ck | Inl _ \<Rightarrow> acc) hist"

lemma last_read_append: "last_read A n src acc (hist @ hist') = last_read A n src (last_read A n src acc hist) hist'"
  by (induction hist arbitrary: acc) auto

lemma reload_run_inner [simp]: "cr_inner (reload_run A hist r) = cr_inner r"
  by (induction hist arbitrary: r) (auto simp: reload_def split: prod.splits)

lemma reload_run_good:
  assumes "distinct (map fst (cr_inner r))" "map_of (cr_inner r) n = Some src"
  shows "map_of (last_good (reload_run A hist r)) n = last_read A n src (map_of (last_good r) n) hist"
  using assms
proof (induction hist arbitrary: r)
  case (Cons files hist)
  let ?r = "snd (reload A files r)"
  have "cr_inner ?r = cr_inner r" and g: "last_good ?r = snd (reload_loop A files (cr_inner r) [] (last_good r))"
    by (simp_all add: reload_def split: prod.splits)
  then show ?case using Cons.IH [of ?r] Cons.prems by (simp add: reload_loop_spec(2))
qed simp

lemma fold_update_map:
  "map_of (fold (\<lambda>(k, v). AList.update (f k) v) xs al) = map_of al ++ map_of (rev (map (\<lambda>(k, v). (f k, v)) xs))"
  by (induction xs arbitrary: al) (auto simp: update_conv' map_add_def fun_eq_iff split: option.splits)

lemma fold_update_distinct:
  "distinct (map fst al) \<Longrightarrow> distinct (map fst (fold (\<lambda>(k, v). AList.update (f k) v) xs al))"
  by (induction xs arbitrary: al) (auto simp: distinct_update)

lemma build_cert_reloader_distinct: "distinct (map fst (cr_inner (build_cert_reloader m)))"
  by (simp add: build_cert_reloader_def reloader_new_def fold_update_distinct)

lemma build_cert_reloader_good [simp]: "last_good (build_cert_reloader m) = []"
  by (simp add: build_cert_reloader_def reloader_new_def)

text \<open>What the listeners receive after a history of reloads.\<close>

definition served_base :: "('f, 'c, 'k) pem_api \<Rightarrow> (bytes \<Rightarrow> 'f files) list \<Rightarrow> (bytes \<Rightarrow> 'f files) \<Rightarrow>
    ('c, 'k) crypto_reloader \<Rightarrow> (bytes \<times> ('c, 'k) certs_keys) list" where
  "served_base A hist files r = fst (reload A files (reload_run A hist r))"

lemma served_base_spec:
  assumes "distinct (map fst (cr_inner r))" "last_good r = []"
  shows "map_of (served_base A hist files r) n =
    (case map_of (cr_inner r) n of None \<Rightarrow> None | Some src \<Rightarrow> last_read A n src None (hist @ [files]))"
proof -
  have "map_of (served_base A hist files r) n =
      map_of (fst (reload_loop A files (cr_inner r) [] (last_good (reload_run A hist r)))) n"
    by (simp add: served_base_def reload_def split: prod.splits)
  also have "\<dots> = (case map_of (cr_inner r) n of None \<Rightarrow> None | Some src \<Rightarrow> last_read A n src None (hist @ [files]))"
  proof (cases "map_of (cr_inner r) n")
    case (Some src)
    from reload_run_good [OF assms(1) Some] assms(2)
    have "map_of (last_good (reload_run A hist r)) n = last_read A n src None hist" by simp
    then show ?thesis
      by (cases "source_read A (files n) src"; cases "last_read A n src None hist")
        (simp_all only: reload_loop_spec(1) [OF assms(1)] Some last_read_append last_read.simps option.case sum.case map_of.simps)
  qed (simp add: reload_loop_spec(1) [OF assms(1)])
  finally show ?thesis .
qed

lemma served_base_distinct: "distinct (map fst (served_base A hist files r))"
proof -
  have "distinct (map fst base) \<Longrightarrow> distinct (map fst (fst (reload_loop A files inner base good)))" for inner base good
    by (induction A files inner base good rule: reload_loop.induct) (auto simp: distinct_update split: sum.splits option.splits)
  then show ?thesis by (simp add: served_base_def reload_def split: prod.splits) (metis fst_conv list.simps(8) distinct.simps(1))
qed

lemma source_read_mutual: "source_read A files src = Inr ck \<Longrightarrow> is_mutual_tls ck = source_is_mutual_tls src"
  by (auto simp: source_read_def read_certs_and_keys_def source_is_mutual_tls_def is_mutual_tls_def certs_keys_new_def Let_def rbind_eq_Inr
      split: if_splits option.splits)

lemma last_read_mutual:
  assumes "\<And>ck. acc = Some ck \<Longrightarrow> is_mutual_tls ck = source_is_mutual_tls src" "last_read A n src acc hist = Some ck"
  shows "is_mutual_tls ck = source_is_mutual_tls src"
  using assms
proof (induction hist arbitrary: acc)
  case (Cons files hist)
  show ?case
  proof (rule Cons.IH)
    show "last_read A n src (case source_read A (files n) src of Inr ck \<Rightarrow> Some ck | Inl _ \<Rightarrow> acc) hist = Some ck"
      using Cons.prems(2) by simp
  qed (auto split: sum.splits dest: source_read_mutual Cons.prems(1))
qed simp

lemma served_base_mutual:
  assumes "map_of (served_base A hist files (build_cert_reloader m)) n = Some ck"
  shows "\<exists>src. map_of (cr_inner (build_cert_reloader m :: ('c, 'k) crypto_reloader)) n = Some src \<and> is_mutual_tls (ck :: ('c, 'k) certs_keys) = source_is_mutual_tls src"
proof (cases "map_of (cr_inner (build_cert_reloader m :: ('c, 'k) crypto_reloader)) n")
  case None
  then show ?thesis using assms by (simp add: served_base_spec build_cert_reloader_distinct)
next
  case (Some src)
  then have "last_read A n src None (hist @ [files]) = Some ck"
    using assms by (simp only: served_base_spec [OF build_cert_reloader_distinct build_cert_reloader_good] option.case)
  then have "is_mutual_tls ck = source_is_mutual_tls src" by (rule last_read_mutual [rotated]) simp
  then show ?thesis using Some by blast
qed

section \<open>What the configurations contain\<close>

text \<open>
  The configuration of one name, as a relation: a name whose certificates come with client CAs asks for
  client certificates issued under exactly these, and resumes no session; any other name asks for none.
\<close>

definition sni_entry_ok :: "('c, 'k, 's, 't) rustls_api \<Rightarrow> ('c, 'k) certs_keys \<Rightarrow> ('c, 's, 't, 'tk) server_crypto_for_sni \<Rightarrow> bool" where
  "sni_entry_ok R ck e =
     (sni_is_mutual_tls e = is_mutual_tls ck \<and> \<not> session_storage (sni_server_config e) \<and>
      (if is_mutual_tls ck
       then \<exists>anchors. rustls_client_certs_trust_anchors R ck = Inr anchors \<and>
              scf_client_roots (sni_server_config e) = Some (map snd anchors) \<and> ticketer (sni_server_config e) = None
       else scf_client_roots (sni_server_config e) = None))"

lemma individual_entry_ok:
  assumes "individual_entry R tk name ck = Inr (Some e)"
  shows "sni_entry_ok R ck e"
proof -
  obtain sn key where sn: "server_name_bytes_to_string name = Inr sn" and key: "rustls_certified_key R ck = Inr key"
    using assms by (cases "server_name_bytes_to_string name"; cases "rustls_certified_key R ck") (auto simp: individual_entry_def)
  note e = assms [unfolded individual_entry_def Let_def sn rbind_simps key sum.case]
  show ?thesis
  proof (cases "is_mutual_tls ck")
    case True
    then obtain anchors where "rustls_client_certs_trust_anchors R ck = Inr anchors"
      using e by (cases "rustls_client_certs_trust_anchors R ck") auto
    then show ?thesis using e True by (auto simp: sni_entry_ok_def server_config_built_def split: if_splits)
  next
    case False
    then show ?thesis using e by (cases tk) (auto simp: sni_entry_ok_def server_config_built_def split: if_splits)
  qed
qed

lemma build_individual_entries:
  assumes "build_individual R tk inner m = Inr m'" "map_of m' n = Some e"
  shows "map_of m n = Some e \<or> (\<exists>ck. (n, ck) \<in> set inner \<and> sni_entry_ok R ck e)"
  using assms
proof (induction R tk inner m rule: build_individual.induct)
  case (2 R tk name ck inner m)
  obtain entry where i: "individual_entry R tk name ck = Inr entry"
    and b: "build_individual R tk inner (case entry of None \<Rightarrow> m | Some e \<Rightarrow> AList.update name e m) = Inr m'"
    using "2.prems"(1) by (auto simp: rbind_eq_Inr)
  from "2.IH" [OF b "2.prems"(2)] show ?case
    using i by (auto simp: update_conv' individual_entry_ok split: option.splits if_splits)
qed auto

lemma aggregate_resolver_names:
  assumes "aggregate_resolver R inner resolver = Inr resolver'" "n \<in> fst ` set resolver'"
  shows "n \<in> fst ` set resolver \<or> (\<exists>name ck. (name, ck) \<in> set inner \<and> n = to_ascii_lowercase name \<and> \<not> is_mutual_tls ck)"
  using assms
proof (induction R inner resolver rule: aggregate_resolver.induct)
  case (2 R name ck inner resolver)
  show ?case
  proof (cases "rustls_certified_key R ck")
    case (Inl e)
    then show ?thesis using "2.IH"(1) [OF Inl] "2.prems" by (auto simp: rbind_eq_Inr)
  next
    case (Inr key)
    define added where "added = (if \<not> is_mutual_tls ck then resolver_add R (to_ascii_lowercase name) key resolver else resolver)"
    have "aggregate_resolver R inner added = Inr resolver'"
      using "2.prems"(1) Inr by (auto simp: server_name_bytes_to_string_def Let_def added_def split: if_splits)
    then have "n \<in> fst ` set added \<or> (\<exists>name ck. (name, ck) \<in> set inner \<and> n = to_ascii_lowercase name \<and> \<not> is_mutual_tls ck)"
      using "2.IH"(2) [OF Inr _ "2.prems"(2), of "to_ascii_lowercase name"] unfolding added_def by blast
    moreover have "n \<in> fst ` set resolver \<or> (n = to_ascii_lowercase name \<and> \<not> is_mutual_tls ck)" if "n \<in> fst ` set added"
      using that by (auto simp: added_def resolver_add_def dom_update split: if_splits)
    ultimately show ?thesis by auto
  qed
qed auto

lemma build_cert_reloader_lower:
  assumes "map_of (cr_inner (build_cert_reloader m :: ('c, 'k) crypto_reloader)) n = Some src"
  shows "to_ascii_lowercase n = n"
proof -
  have "map_of (rev (map (\<lambda>(k, v). (to_ascii_lowercase k, v)) m)) n = Some src"
    using assms by (simp add: build_cert_reloader_def reloader_new_def fold_update_map)
  then have "n \<in> to_ascii_lowercase ` fst ` set m" by (force dest!: map_of_SomeD)
  then show ?thesis by auto
qed

lemma server_crypto_distinct:
  assumes "server_crypto_try_from R tk base = Inr sc"
  shows "distinct (map fst (individual_config_map sc))"
proof -
  have "build_individual R tk inner m = Inr m' \<Longrightarrow> distinct (map fst m) \<Longrightarrow> distinct (map fst m')" for inner m m'
  proof (induction inner arbitrary: m)
    case (Cons x inner)
    obtain name ck where x: "x = (name, ck)" by (cases x) auto
    obtain entry where "build_individual R tk inner (case entry of None \<Rightarrow> m | Some e \<Rightarrow> AList.update name e m) = Inr m'"
      using Cons.prems(1) by (auto simp: x)
    then show ?case by (rule Cons.IH) (use Cons.prems(2) in \<open>auto simp: distinct_update split: option.splits\<close>)
  qed simp
  then show ?thesis
    using assms by (auto simp: server_crypto_try_from_def build_individual_server_crypto_map_def split: if_splits)
qed

text \<open>The two views of a history of reloads that the listeners build their TLS from.\<close>

lemma server_crypto_tcp:
  fixes m :: "(bytes \<times> crypto_file_source) list" and A :: "('f, 'c, 'k) pem_api"
  defines "r \<equiv> build_cert_reloader m :: ('c, 'k) crypto_reloader"
  assumes "server_crypto_try_from R tk (served_base A hist files r) = Inr sc" "map_of (individual_config_map sc) n = Some e"
  shows "\<exists>src ck. map_of (cr_inner r) n = Some src \<and> last_read A n src None (hist @ [files]) = Some ck \<and>
           is_mutual_tls ck = source_is_mutual_tls src \<and> sni_entry_ok R ck e"
proof -
  have "build_individual R tk (served_base A hist files r) [] = Inr (individual_config_map sc)"
    using assms(2) by (auto simp: server_crypto_try_from_def build_individual_server_crypto_map_def split: if_splits)
  from build_individual_entries [OF this assms(3)] obtain ck where
    ck: "(n, ck) \<in> set (served_base A hist files r)" "sni_entry_ok R ck e" by auto
  have m: "map_of (served_base A hist files r) n = Some ck" using ck(1) served_base_distinct by (intro map_of_is_SomeI)
  obtain src where src: "map_of (cr_inner r) n = Some src" "is_mutual_tls ck = source_is_mutual_tls src"
    using served_base_mutual m unfolding r_def by blast
  then have "last_read A n src None (hist @ [files]) = Some ck"
    using m unfolding r_def by (simp only: served_base_spec [OF build_cert_reloader_distinct build_cert_reloader_good] option.case)
  then show ?thesis using src ck(2) by blast
qed

lemma server_crypto_quic:
  fixes m :: "(bytes \<times> crypto_file_source) list" and A :: "('f, 'c, 'k) pem_api"
  defines "r \<equiv> build_cert_reloader m :: ('c, 'k) crypto_reloader"
  assumes "server_crypto_try_from R tk (served_base A hist files r) = Inr sc"
    and "n \<in> fst ` set (scf_resolver (aggregated_config_no_client_auth sc))"
  shows "\<exists>src. map_of (cr_inner r) n = Some src \<and> \<not> source_is_mutual_tls src"
proof -
  obtain resolver where res: "aggregate_resolver R (served_base A hist files r) [] = Inr resolver"
    and agg: "scf_resolver (aggregated_config_no_client_auth sc) = resolver"
    using assms(2) by (auto simp: server_crypto_try_from_def build_aggregated_server_crypto_def server_config_built_def split: if_splits)
  obtain name ck where ck: "(name, ck) \<in> set (served_base A hist files r)" "n = to_ascii_lowercase name" "\<not> is_mutual_tls ck"
    using aggregate_resolver_names [OF res, of n] assms(3) agg by auto
  have "map_of (served_base A hist files r) name = Some ck" using ck(1) served_base_distinct by (intro map_of_is_SomeI)
  then obtain src where src: "map_of (cr_inner r) name = Some src" "is_mutual_tls ck = source_is_mutual_tls src"
    using served_base_mutual unfolding r_def by blast
  moreover have "n = name" using build_cert_reloader_lower src(1) ck(2) unfolding r_def by metis
  ultimately show ?thesis using ck(3) by blast
qed

section \<open>Properties\<close>

text \<open>C10: Reloading never drops a certificate that was once good and never serves a stale one: after any
  history of reloads, with any reads failing in any of them, the name of each configured source (and no
  other name) is served with the result of the latest successful read of its files, and is missing
  only while none has succeeded yet.\<close>

theorem reload_serves_last_good:
  fixes A :: "('f, 'c, 'k) pem_api"
  shows "map_of (served_base A hist files (build_cert_reloader m)) n =
     (case map_of (cr_inner (build_cert_reloader m :: ('c, 'k) crypto_reloader)) n of
        None \<Rightarrow> None
      | Some src \<Rightarrow> last_read A n src None (hist @ [files]))"
  by (rule served_base_spec [OF build_cert_reloader_distinct build_cert_reloader_good])

end
