(* ===== verification/Listener.thy ===== *)
theory Listener
  imports Handler Conn_Count Proxy_Protocol Certs
begin

text \<open>
  The listeners (\<open>proxy/proxy_main.rs\<close>, \<open>proxy/proxy_h3.rs\<close>, \<open>proxy/proxy_quic_quinn.rs\<close> and the listener
  part of \<open>lib.rs\<close>): from an accepted TCP or QUIC connection, over the PROXY header, the per-address
  slot and the TLS handshake, to a connection that is served.  The tasks interleave; \<open>rustls\<close> and
  \<open>quinn\<close> are arguments.
\<close>

section \<open>Listeners\<close>

datatype listener_kind = HttpV4 | HttpV6 | HttpsV4 | HttpsV6 | Http3V4 | Http3V6

record listener_spec =
  ls_kind :: listener_kind
  listening_on :: socket_addr

definition tls_enabled :: "listener_spec \<Rightarrow> bool" where
  "tls_enabled spec = (ls_kind spec \<in> {HttpsV4, HttpsV6, Http3V4, Http3V6})"

definition is_http3 :: "listener_spec \<Rightarrow> bool" where
  "is_http3 spec = (ls_kind spec \<in> {Http3V4, Http3V6})"

fun is_ipv4 :: "ip_addr \<Rightarrow> bool" where
  "is_ipv4 (V4 _) = True"
| "is_ipv4 (V6 _) = False"

text \<open>The listeners of the configured sockets: an HTTPS socket gets a second, HTTP/3 listener where that is on.\<close>

definition socket_listeners :: "'n proxy_config \<Rightarrow> socket_addr \<Rightarrow> listener_spec list" where
  "socket_listeners cfg addr =
     (let tls_enabled = (case https_port cfg of Some port \<Rightarrow> port = sa_port addr | None \<Rightarrow> False);
          v4 = is_ipv4 (sa_ip addr);
          kind = (case (tls_enabled, v4) of
                    (False, True) \<Rightarrow> HttpV4 | (False, False) \<Rightarrow> HttpV6 | (True, True) \<Rightarrow> HttpsV4 | (True, False) \<Rightarrow> HttpsV6)
      in \<lparr>ls_kind = kind, listening_on = addr\<rparr> #
         (if tls_enabled \<and> http3 cfg then [\<lparr>ls_kind = (if v4 then Http3V4 else Http3V6), listening_on = addr\<rparr>] else []))"

definition listener_specs :: "'n proxy_config \<Rightarrow> listener_spec list" where
  "listener_specs cfg = concat (map (socket_listeners cfg) (listen_sockets cfg))"

section \<open>The TLS handshake\<close>

record client_hello =
  ch_server_name :: "bytes option"
  ch_tls_alpn_challenge :: bool

datatype handshake_failure = ClientCertFailure | OtherFailure

text \<open>
  \<open>'r\<close> is a raw stream, \<open>'x\<close> an established TLS stream.  A failed handshake is told apart only by whether
  the client certificate was missing or invalid.
\<close>

record ('r, 'x, 'c, 's, 't, 'tk) tls_api =
  tls_acceptor :: "'r \<Rightarrow> client_hello option"
  tls_into_stream :: "'r \<Rightarrow> ('c, 's, 't, 'tk) server_config \<Rightarrow> handshake_failure + 'x"

type_synonym ('c, 's, 't, 'tk) sni_map = "(server_name \<times> ('c, 's, 't, 'tk) server_crypto_for_sni) list"

text \<open>The audit record of a failed handshake: peer, SNI, category, and whether the virtual host asked for client certificates.\<close>

datatype tls_audit = TlsAudit socket_addr "bytes option" bytes "bool option"

text \<open>The configuration a stream was set up with is kept by the stream; here it is a field.\<close>

record ('x, 'c, 's, 't, 'tk) tls_handshake_result =
  thr_stream :: 'x
  thr_config :: "('c, 's, 't, 'tk) server_config"
  thr_server_name :: server_name
  is_handshake_acme :: bool

definition select_server_crypto :: "(bytes \<times> ('c, 's, 't, 'tk) server_config) list \<Rightarrow> ('c, 's, 't, 'tk) sni_map \<Rightarrow> client_hello \<Rightarrow> bytes \<Rightarrow>
    (rpxy_error \<times> bytes) + ('c, 's, 't, 'tk) server_config \<times> bool \<times> bool" where
  "select_server_crypto acme server_crypto_map hello sni =
     (if ch_tls_alpn_challenge hello
      then (case map_of acme (to_ascii_lowercase sni) of
              None \<Rightarrow> Inl (NoAcmeServerConfig, ''acme_no_config'')
            | Some config \<Rightarrow> Inr (config, False, True))
      else (case map_of server_crypto_map (to_server_name sni) of
              None \<Rightarrow> Inl (NoTlsServingApp, ''unknown_sni'')
            | Some crypto \<Rightarrow> Inr (sni_server_config crypto, sni_is_mutual_tls crypto, False)))"

definition serve_tls_handshake :: "('r, 'x, 'c, 's, 't, 'tk) tls_api \<Rightarrow> (bytes \<times> ('c, 's, 't, 'tk) server_config) list \<Rightarrow>
    ('c, 's, 't, 'tk) sni_map \<Rightarrow> 'r \<Rightarrow> socket_addr \<Rightarrow>
    (rpxy_error + ('x, 'c, 's, 't, 'tk) tls_handshake_result) \<times> tls_audit option" where
  "serve_tls_handshake T acme server_crypto_map raw_stream client_addr =
     (case tls_acceptor T raw_stream of
        None \<Rightarrow> (Inl FailedToTlsHandshake, Some (TlsAudit client_addr None ''acceptor'' None))
      | Some client_hello \<Rightarrow>
          (case ch_server_name client_hello of
             None \<Rightarrow> (Inl NoServerNameInClientHello, Some (TlsAudit client_addr None ''no_sni'' None))
           | Some sni \<Rightarrow>
               (case select_server_crypto acme server_crypto_map client_hello sni of
                  Inl (e, failure) \<Rightarrow> (Inl e, Some (TlsAudit client_addr (Some sni) failure None))
                | Inr (config, mtls, acme) \<Rightarrow>
                    (case tls_into_stream T raw_stream config of
                       Inl failure \<Rightarrow>
                         (Inl TlsHandshakeFailed,
                          Some (TlsAudit client_addr (Some (to_ascii_lowercase sni))
                                  (case failure of ClientCertFailure \<Rightarrow> ''client_cert'' | OtherFailure \<Rightarrow> ''handshake'')
                                  (Some mtls)))
                     | Inr stream \<Rightarrow>
                         (Inr \<lparr>thr_stream = stream, thr_config = config,
                               thr_server_name = to_server_name sni, is_handshake_acme = acme\<rparr>, None)))))"

section \<open>The QUIC endpoint\<close>

text \<open>
  What \<open>quinn\<close> starts a server configuration with, besides its TLS part, and which TLS configurations it
  accepts for QUIC.
\<close>

record ('tr, 'c, 's, 't, 'tk) quinn_api =
  default_transport :: 'tr
  default_max_incoming :: nat
  quic_accepts :: "('c, 's, 't, 'tk) server_config \<Rightarrow> bool"

record ('tr, 'c, 's, 't, 'tk) quinn_config =
  qc_crypto :: "('c, 's, 't, 'tk) server_config option"
  qc_transport :: 'tr
  qc_max_incoming :: nat

definition quinn_with_crypto :: "('tr, 'c, 's, 't, 'tk) quinn_api \<Rightarrow> ('c, 's, 't, 'tk) server_config option \<Rightarrow> ('tr, 'c, 's, 't, 'tk) quinn_config" where
  "quinn_with_crypto D crypto = \<lparr>qc_crypto = crypto, qc_transport = default_transport D, qc_max_incoming = default_max_incoming D\<rparr>"

text \<open>
  \<open>h3_listener_service\<close>: the endpoint starts without certificates and with the configured transport limits
  (\<open>transport\<close> applies these to the defaults); a change of certificates installs a new configuration.
\<close>

definition h3_initial_config :: "('tr, 'c, 's, 't, 'tk) quinn_api \<Rightarrow> ('n proxy_config \<Rightarrow> 'tr \<Rightarrow> 'tr) \<Rightarrow> 'n proxy_config \<Rightarrow> ('tr, 'c, 's, 't, 'tk) quinn_config" where
  "h3_initial_config D transport cfg =
     (quinn_with_crypto D None)\<lparr>qc_transport := transport cfg (default_transport D),
                                qc_max_incoming := unat (h3_max_concurrent_connections cfg)\<rparr>"

datatype ('tr, 'c, 's, 't, 'tk) h3_endpoint = H3Running "('tr, 'c, 's, 't, 'tk) quinn_config" | H3Exited

definition h3_certs_changed :: "('tr, 'c, 's, 't, 'tk) quinn_api \<Rightarrow> cert_error + ('c, 's, 't, 'tk) server_crypto \<Rightarrow> ('tr, 'c, 's, 't, 'tk) h3_endpoint" where
  "h3_certs_changed D crypto =
     (case crypto of
        Inl _ \<Rightarrow> H3Exited
      | Inr inner \<Rightarrow>
          if quic_accepts D (aggregated_config_no_client_auth inner)
          then H3Running (quinn_with_crypto D (Some (aggregated_config_no_client_auth inner))) else H3Exited)"

section \<open>The tasks of the listeners\<close>

text \<open>
  A connection from its acceptance on.  The flag is a permit of the PROXY semaphore; a TLS task keeps the
  certificates the listener had when it was spawned.  A served connection has the client address used
  for it, for TLS and QUIC the server name and the TLS configuration, and its guard.
\<close>

datatype ('c, 's, 't, 'tk) conn_phase =
    Parsing bool socket_addr "('c, 's, 't, 'tk) sni_map option"
  | Handshaking bool socket_addr "ip_addr per_ip_guard" "('c, 's, 't, 'tk) sni_map"
  | Serving socket_addr "(server_name \<times> ('c, 's, 't, 'tk) server_config) option" "ip_addr per_ip_guard"
  | Closed

record ('tr, 'c, 's, 't, 'tk) proxy_sys =
  sys_permits :: "nat \<Rightarrow> nat"
  sys_per_ip :: "ip_addr per_ip"
  sys_crypto :: "nat \<Rightarrow> ('c, 's, 't, 'tk) sni_map option"
  sys_h3 :: "nat \<Rightarrow> ('tr, 'c, 's, 't, 'tk) h3_endpoint"
  sys_conns :: "(nat \<times> ('c, 's, 't, 'tk) conn_phase) list"

definition proxy_start :: "('tr, 'c, 's, 't, 'tk) quinn_api \<Rightarrow> ('n proxy_config \<Rightarrow> 'tr \<Rightarrow> 'tr) \<Rightarrow> 'n proxy_config \<Rightarrow> ('tr, 'c, 's, 't, 'tk) proxy_sys" where
  "proxy_start D transport cfg =
     \<lparr>sys_permits = (\<lambda>_. unat (max_clients cfg)), sys_per_ip = per_ip_new (max_clients_per_ip cfg), sys_crypto = (\<lambda>_. None),
      sys_h3 = (\<lambda>_. H3Running (h3_initial_config D transport cfg)), sys_conns = []\<rparr>"

text \<open>\<open>serve_connection\<close>: \<open>admitted\<close> is the verdict of the request counter; a refused connection drops its guard.\<close>

definition serve_connection :: "bool \<Rightarrow> ip_addr per_ip \<Rightarrow> socket_addr \<Rightarrow> (server_name \<times> ('c, 's, 't, 'tk) server_config) option \<Rightarrow>
    ip_addr per_ip_guard \<Rightarrow> ('c, 's, 't, 'tk) conn_phase \<times> ip_addr per_ip" where
  "serve_connection admitted pi peer_addr tls guard =
     (if admitted then (Serving peer_addr tls guard, pi) else (Closed, guard_drop pi guard))"

text \<open>A task that ends gives its permit back.\<close>

definition release_permit :: "bool \<Rightarrow> nat \<Rightarrow> (nat \<Rightarrow> nat) \<Rightarrow> nat \<Rightarrow> nat" where
  "release_permit permit l permits = (if permit then permits(l := Suc (permits l)) else permits)"

text \<open>\<open>start_without_tls\<close>, one accepted connection.\<close>

definition accept_plain :: "'n proxy_config \<Rightarrow> bool \<Rightarrow> nat \<Rightarrow> socket_addr \<Rightarrow> ('tr, 'c, 's, 't, 'tk) proxy_sys \<Rightarrow> ('tr, 'c, 's, 't, 'tk) proxy_sys" where
  "accept_plain cfg admitted l client_addr sys =
     (case tcp_recv_proxy_protocol cfg of
        Some _ \<Rightarrow>
          if sys_permits sys l = 0 then sys\<lparr>sys_conns := sys_conns sys @ [(l, Closed)]\<rparr>
          else sys\<lparr>sys_permits := (sys_permits sys)(l := sys_permits sys l - 1),
                   sys_conns := sys_conns sys @ [(l, Parsing True client_addr None)]\<rparr>
      | None \<Rightarrow>
          (case try_acquire (sys_per_ip sys) (sa_ip client_addr) of
             (None, pi) \<Rightarrow> sys\<lparr>sys_per_ip := pi, sys_conns := sys_conns sys @ [(l, Closed)]\<rparr>
           | (Some guard, pi) \<Rightarrow>
               (let (phase, pi) = serve_connection admitted pi client_addr None guard
                in sys\<lparr>sys_per_ip := pi, sys_conns := sys_conns sys @ [(l, phase)]\<rparr>)))"

text \<open>\<open>serve_tls_tcp_connection\<close> up to the spawned task.\<close>

definition accept_tls :: "'n proxy_config \<Rightarrow> nat \<Rightarrow> socket_addr \<Rightarrow> ('tr, 'c, 's, 't, 'tk) proxy_sys \<Rightarrow> ('tr, 'c, 's, 't, 'tk) proxy_sys" where
  "accept_tls cfg l client_addr sys =
     (case sys_crypto sys l of
        None \<Rightarrow> sys\<lparr>sys_conns := sys_conns sys @ [(l, Closed)]\<rparr>
      | Some server_crypto_map \<Rightarrow>
          (case tcp_recv_proxy_protocol cfg of
             Some _ \<Rightarrow>
               if sys_permits sys l = 0 then sys\<lparr>sys_conns := sys_conns sys @ [(l, Closed)]\<rparr>
               else sys\<lparr>sys_permits := (sys_permits sys)(l := sys_permits sys l - 1),
                        sys_conns := sys_conns sys @ [(l, Parsing True client_addr (Some server_crypto_map))]\<rparr>
           | None \<Rightarrow> sys\<lparr>sys_conns := sys_conns sys @ [(l, Parsing False client_addr (Some server_crypto_map))]\<rparr>))"

text \<open>The spawned task up to the per-address slot: \<open>result\<close> is the client address, or the error of the PROXY header.\<close>

definition task_parsed :: "bool \<Rightarrow> io_error_kind + socket_addr \<Rightarrow> nat \<Rightarrow> ('tr, 'c, 's, 't, 'tk) proxy_sys \<Rightarrow> ('tr, 'c, 's, 't, 'tk) proxy_sys" where
  "task_parsed admitted result i sys =
     (case sys_conns sys ! i of
        (l, Parsing permit _ server_crypto_map) \<Rightarrow>
          (case result of
             Inl _ \<Rightarrow> sys\<lparr>sys_permits := release_permit permit l (sys_permits sys), sys_conns := (sys_conns sys)[i := (l, Closed)]\<rparr>
           | Inr client_addr \<Rightarrow>
               (case try_acquire (sys_per_ip sys) (sa_ip client_addr) of
                  (None, pi) \<Rightarrow>
                    sys\<lparr>sys_permits := release_permit permit l (sys_permits sys), sys_per_ip := pi,
                        sys_conns := (sys_conns sys)[i := (l, Closed)]\<rparr>
                | (Some guard, pi) \<Rightarrow>
                    (case server_crypto_map of
                       Some server_crypto_map \<Rightarrow>
                         sys\<lparr>sys_per_ip := pi, sys_conns := (sys_conns sys)[i := (l, Handshaking permit client_addr guard server_crypto_map)]\<rparr>
                     | None \<Rightarrow>
                         (let (phase, pi) = serve_connection admitted pi client_addr None guard
                          in sys\<lparr>sys_permits := release_permit permit l (sys_permits sys), sys_per_ip := pi,
                                 sys_conns := (sys_conns sys)[i := (l, phase)]\<rparr>))))
      | _ \<Rightarrow> sys)"

text \<open>
  The rest of the TLS task.  \<open>None\<close> is the handshake timeout; a failed handshake and the end of an ACME
  challenge return from the task, which drops the guard.
\<close>

definition task_handshaken :: "bool \<Rightarrow> (rpxy_error + ('x, 'c, 's, 't, 'tk) tls_handshake_result) option \<Rightarrow> nat \<Rightarrow>
    ('tr, 'c, 's, 't, 'tk) proxy_sys \<Rightarrow> ('tr, 'c, 's, 't, 'tk) proxy_sys" where
  "task_handshaken admitted result i sys =
     (case sys_conns sys ! i of
        (l, Handshaking permit client_addr guard _) \<Rightarrow>
          (let (phase, pi) =
             (case result of
                Some (Inr r) \<Rightarrow>
                  if is_handshake_acme r then (Closed, guard_drop (sys_per_ip sys) guard)
                  else serve_connection admitted (sys_per_ip sys) client_addr (Some (thr_server_name r, thr_config r)) guard
              | _ \<Rightarrow> (Closed, guard_drop (sys_per_ip sys) guard))
           in sys\<lparr>sys_permits := release_permit permit l (sys_permits sys), sys_per_ip := pi,
                  sys_conns := (sys_conns sys)[i := (l, phase)]\<rparr>)
      | _ \<Rightarrow> sys)"

text \<open>\<open>h3_serve_connection\<close>, at its start; the connection keeps its guard until it ends.\<close>

definition accept_h3 :: "nat \<Rightarrow> socket_addr \<Rightarrow> server_name \<Rightarrow> ('c, 's, 't, 'tk) server_config \<Rightarrow>
    ('tr, 'c, 's, 't, 'tk) proxy_sys \<Rightarrow> ('tr, 'c, 's, 't, 'tk) proxy_sys" where
  "accept_h3 l client_addr tls_server_name config sys =
     (case try_acquire (sys_per_ip sys) (sa_ip client_addr) of
        (None, pi) \<Rightarrow> sys\<lparr>sys_per_ip := pi, sys_conns := sys_conns sys @ [(l, Closed)]\<rparr>
      | (Some guard, pi) \<Rightarrow>
          sys\<lparr>sys_per_ip := pi, sys_conns := sys_conns sys @ [(l, Serving client_addr (Some (tls_server_name, config)) guard)]\<rparr>)"

text \<open>The end of a served connection.\<close>

definition conn_finished :: "nat \<Rightarrow> ('tr, 'c, 's, 't, 'tk) proxy_sys \<Rightarrow> ('tr, 'c, 's, 't, 'tk) proxy_sys" where
  "conn_finished i sys =
     (case sys_conns sys ! i of
        (l, Serving _ _ guard) \<Rightarrow>
          sys\<lparr>sys_per_ip := guard_drop (sys_per_ip sys) guard, sys_conns := (sys_conns sys)[i := (l, Closed)]\<rparr>
      | _ \<Rightarrow> sys)"

text \<open>The branch of \<open>tls_listener_service\<close> for new certificates; a failed build keeps the previous map.\<close>

definition tls_certs_changed :: "nat \<Rightarrow> cert_error + ('c, 's, 't, 'tk) server_crypto \<Rightarrow> ('tr, 'c, 's, 't, 'tk) proxy_sys \<Rightarrow> ('tr, 'c, 's, 't, 'tk) proxy_sys" where
  "tls_certs_changed l crypto sys =
     (case crypto of
        Inl _ \<Rightarrow> sys
      | Inr server_config \<Rightarrow>
          sys\<lparr>sys_crypto := (sys_crypto sys)(l := Some (fold (\<lambda>(k, v). AList.update (to_server_name k) v) (individual_config_map server_config) []))\<rparr>)"

section \<open>The accept loops\<close>

text \<open>
  What the two TCP accept loops make of a sequence of results of \<open>accept\<close>, here with the verdict of the
  request counter for each: \<open>start_without_tls\<close> leaves its loop at the first error, \<open>tls_listener_service\<close>
  ignores errors.
\<close>

fun plain_accept_loop :: "'n proxy_config \<Rightarrow> nat \<Rightarrow> (io_error_kind + socket_addr \<times> bool) list \<Rightarrow>
    ('tr, 'c, 's, 't, 'tk) proxy_sys \<Rightarrow> bool \<times> ('tr, 'c, 's, 't, 'tk) proxy_sys" where
  "plain_accept_loop cfg l [] sys = (True, sys)"
| "plain_accept_loop cfg l (Inl e # cnxs) sys = (False, sys)"
| "plain_accept_loop cfg l (Inr (addr, admitted) # cnxs) sys = plain_accept_loop cfg l cnxs (accept_plain cfg admitted l addr sys)"

fun tls_accept_loop :: "'n proxy_config \<Rightarrow> nat \<Rightarrow> (io_error_kind + socket_addr \<times> bool) list \<Rightarrow>
    ('tr, 'c, 's, 't, 'tk) proxy_sys \<Rightarrow> bool \<times> ('tr, 'c, 's, 't, 'tk) proxy_sys" where
  "tls_accept_loop cfg l [] sys = (True, sys)"
| "tls_accept_loop cfg l (Inl e # cnxs) sys = tls_accept_loop cfg l cnxs sys"
| "tls_accept_loop cfg l (Inr (addr, _) # cnxs) sys = tls_accept_loop cfg l cnxs (accept_tls cfg l addr sys)"

section \<open>Runs of the whole proxy\<close>

text \<open>
  What the steps depend on besides the state: the configuration, the outside code and the configured
  certificate sources.
\<close>

record ('n, 'r, 'x, 'tr, 'f, 'c, 'k, 's, 't, 'tk) proxy_env =
  pe_config :: "'n proxy_config"
  pe_net :: "'n net_api"
  pe_ppp :: ppp_api
  pe_tls :: "('r, 'x, 'c, 's, 't, 'tk) tls_api"
  pe_acme :: "(bytes \<times> ('c, 's, 't, 'tk) server_config) list"
  pe_quinn :: "('tr, 'c, 's, 't, 'tk) quinn_api"
  pe_transport :: "'n proxy_config \<Rightarrow> 'tr \<Rightarrow> 'tr"
  pe_rustls :: "('c, 'k, 's, 't) rustls_api"
  pe_pem :: "('f, 'c, 'k) pem_api"
  pe_sources :: "(bytes \<times> crypto_file_source) list"

text \<open>The address a task continues with.\<close>

definition task_address :: "('n, 'r, 'x, 'tr, 'f, 'c, 'k, 's, 't, 'tk) proxy_env \<Rightarrow> nat list \<Rightarrow> tcp_stream \<Rightarrow> socket_addr \<Rightarrow> io_error_kind + socket_addr" where
  "task_address V peeks stream client_addr =
     (case tcp_recv_proxy_protocol (pe_config V) of
        Some pp \<Rightarrow> map_sum id fst (extract_parse_result_from_proxy_protocol_header (pe_net V) (pe_ppp V) peeks stream client_addr pp)
      | None \<Rightarrow> Inr client_addr)"

text \<open>What the reloader hands to a listener after some history of reloads.\<close>

definition reloaded_crypto :: "('n, 'r, 'x, 'tr, 'f, 'c, 'k, 's, 't, 'tk) proxy_env \<Rightarrow> (bytes \<Rightarrow> 'f files) list \<Rightarrow> (bytes \<Rightarrow> 'f files) \<Rightarrow>
    cert_error + 'tk \<Rightarrow> cert_error + ('c, 's, 't, 'tk) server_crypto" where
  "reloaded_crypto V hist files tk =
     server_crypto_try_from (pe_rustls V) tk (served_base (pe_pem V) hist files (build_cert_reloader (pe_sources V)))"

text \<open>
  The steps.  A QUIC handshake comes to an end only if the certificate resolver of the endpoint's
  configuration knows the server name.
\<close>

inductive proxy_step :: "('n, 'r, 'x, 'tr, 'f, 'c, 'k, 's, 't, 'tk) proxy_env \<Rightarrow> ('tr, 'c, 's, 't, 'tk) proxy_sys \<Rightarrow> ('tr, 'c, 's, 't, 'tk) proxy_sys \<Rightarrow> bool"
  for V where
  plain: "l < length (listener_specs (pe_config V)) \<Longrightarrow> \<not> tls_enabled (listener_specs (pe_config V) ! l) \<Longrightarrow>
    proxy_step V sys (accept_plain (pe_config V) admitted l addr sys)"
| tls: "l < length (listener_specs (pe_config V)) \<Longrightarrow> tls_enabled (listener_specs (pe_config V) ! l) \<Longrightarrow>
    \<not> is_http3 (listener_specs (pe_config V) ! l) \<Longrightarrow> proxy_step V sys (accept_tls (pe_config V) l addr sys)"
| h3: "l < length (listener_specs (pe_config V)) \<Longrightarrow> is_http3 (listener_specs (pe_config V) ! l) \<Longrightarrow>
    sys_h3 sys l = H3Running qc \<Longrightarrow> qc_crypto qc = Some config \<Longrightarrow>
    to_ascii_lowercase sni \<in> fst ` set (scf_resolver config) \<Longrightarrow>
    proxy_step V sys (accept_h3 l addr (to_server_name sni) config sys)"
| parsed: "i < length (sys_conns sys) \<Longrightarrow> sys_conns sys ! i = (l, Parsing permit addr crypto) \<Longrightarrow>
    proxy_step V sys (task_parsed admitted (task_address V peeks stream addr) i sys)"
| handshaken: "i < length (sys_conns sys) \<Longrightarrow> sys_conns sys ! i = (l, Handshaking permit addr guard crypto) \<Longrightarrow>
    result \<in> {None, Some (fst (serve_tls_handshake (pe_tls V) (pe_acme V) crypto raw addr))} \<Longrightarrow>
    proxy_step V sys (task_handshaken admitted result i sys)"
| finished: "i < length (sys_conns sys) \<Longrightarrow> proxy_step V sys (conn_finished i sys)"
| tls_certs: "proxy_step V sys (tls_certs_changed l (reloaded_crypto V hist files tk) sys)"
| h3_certs: "sys_h3 sys l = H3Running qc \<Longrightarrow>
    proxy_step V sys (sys\<lparr>sys_h3 := (sys_h3 sys)(l := h3_certs_changed (pe_quinn V) (reloaded_crypto V hist files tk))\<rparr>)"

definition proxy_reachable :: "('n, 'r, 'x, 'tr, 'f, 'c, 'k, 's, 't, 'tk) proxy_env \<Rightarrow> ('tr, 'c, 's, 't, 'tk) proxy_sys \<Rightarrow> bool" where
  "proxy_reachable V = (proxy_step V)\<^sup>*\<^sup>* (proxy_start (pe_quinn V) (pe_transport V) (pe_config V))"

section \<open>Slots and permits\<close>

fun conn_guard :: "('c, 's, 't, 'tk) conn_phase \<Rightarrow> (socket_addr \<times> ip_addr per_ip_guard) option" where
  "conn_guard (Handshaking _ addr guard _) = Some (addr, guard)"
| "conn_guard (Serving addr _ guard) = Some (addr, guard)"
| "conn_guard _ = None"

fun conn_permit :: "('c, 's, 't, 'tk) conn_phase \<Rightarrow> bool" where
  "conn_permit (Parsing permit _ _) = permit"
| "conn_permit (Handshaking permit _ _ _) = permit"
| "conn_permit _ = False"

text \<open>The connections past the slot check that come from an address, and those of a listener that hold a permit.\<close>

definition conn_live :: "ip_addr \<Rightarrow> ('c, 's, 't, 'tk) conn_phase \<Rightarrow> nat" where
  "conn_live ip ph = (case conn_guard ph of Some (addr, _) \<Rightarrow> of_bool (sa_ip addr = ip) | None \<Rightarrow> 0)"

definition live_from :: "ip_addr \<Rightarrow> (nat \<times> ('c, 's, 't, 'tk) conn_phase) list \<Rightarrow> nat" where
  "live_from ip conns = (\<Sum>(l, ph)\<leftarrow>conns. conn_live ip ph)"

definition permits_out :: "nat \<Rightarrow> (nat \<times> ('c, 's, 't, 'tk) conn_phase) list \<Rightarrow> nat" where
  "permits_out l conns = (\<Sum>(l', ph)\<leftarrow>conns. of_bool (l' = l \<and> conn_permit ph))"




lemma live_from_simps [simp]:
  "live_from ip [] = 0"
  "live_from ip (conns @ [(l, ph)]) = live_from ip conns + conn_live ip ph"
  by (simp_all add: live_from_def)

lemma permits_out_simps [simp]:
  "permits_out l [] = 0"
  "permits_out l (conns @ [(l', ph)]) = permits_out l conns + of_bool (l' = l \<and> conn_permit ph)"
  by (simp_all add: permits_out_def)



















section \<open>Which TLS configuration a connection runs under\<close>

text \<open>
  \<open>client_auth_enforced\<close>: the configuration asks for client certificates under the CAs read from the
  source of the name, and can resume no session.  \<open>vhost_tls\<close>: the name belongs to a configured source,
  and client certificates are asked for if that source has client CAs.
\<close>

definition vhost_source :: "('n, 'r, 'x, 'tr, 'f, 'c, 'k, 's, 't, 'tk) proxy_env \<Rightarrow> bytes \<Rightarrow> crypto_file_source option" where
  "vhost_source V n = map_of (cr_inner (build_cert_reloader (pe_sources V) :: ('c, 'k) crypto_reloader)) n"

definition client_auth_enforced :: "('n, 'r, 'x, 'tr, 'f, 'c, 'k, 's, 't, 'tk) proxy_env \<Rightarrow> bytes \<Rightarrow> crypto_file_source \<Rightarrow>
    ('c, 's, 't, 'tk) server_config \<Rightarrow> bool" where
  "client_auth_enforced V n src config =
     (\<exists>hist ck anchors. last_read (pe_pem V) n src None hist = Some ck \<and>
        rustls_client_certs_trust_anchors (pe_rustls V) ck = Inr anchors \<and>
        scf_client_roots config = Some (map snd anchors) \<and> ticketer config = None \<and> \<not> session_storage config)"

definition vhost_tls :: "('n, 'r, 'x, 'tr, 'f, 'c, 'k, 's, 't, 'tk) proxy_env \<Rightarrow> server_name \<Rightarrow> ('c, 's, 't, 'tk) server_config \<Rightarrow> bool" where
  "vhost_tls V sn config =
     (\<exists>n src. sn = ServerName n \<and> vhost_source V n = Some src \<and> (source_is_mutual_tls src \<longrightarrow> client_auth_enforced V n src config))"

definition sni_map_ok :: "('n, 'r, 'x, 'tr, 'f, 'c, 'k, 's, 't, 'tk) proxy_env \<Rightarrow> ('c, 's, 't, 'tk) sni_map \<Rightarrow> bool" where
  "sni_map_ok V m = (\<forall>sn e. map_of m sn = Some e \<longrightarrow> vhost_tls V sn (sni_server_config e))"

fun phase_tls_ok :: "('n, 'r, 'x, 'tr, 'f, 'c, 'k, 's, 't, 'tk) proxy_env \<Rightarrow> ('c, 's, 't, 'tk) conn_phase \<Rightarrow> bool" where
  "phase_tls_ok V (Parsing _ _ (Some m)) = sni_map_ok V m"
| "phase_tls_ok V (Handshaking _ _ _ m) = sni_map_ok V m"
| "phase_tls_ok V (Serving _ (Some (sn, config)) _) = vhost_tls V sn config"
| "phase_tls_ok V _ = True"

definition h3_tls_ok :: "('n, 'r, 'x, 'tr, 'f, 'c, 'k, 's, 't, 'tk) proxy_env \<Rightarrow> ('tr, 'c, 's, 't, 'tk) h3_endpoint \<Rightarrow> bool" where
  "h3_tls_ok V endpoint =
     (\<forall>qc config n. endpoint = H3Running qc \<longrightarrow> qc_crypto qc = Some config \<longrightarrow> n \<in> fst ` set (scf_resolver config) \<longrightarrow> vhost_tls V (ServerName n) config)"

definition tls_inv :: "('n, 'r, 'x, 'tr, 'f, 'c, 'k, 's, 't, 'tk) proxy_env \<Rightarrow> ('tr, 'c, 's, 't, 'tk) proxy_sys \<Rightarrow> bool" where
  "tls_inv V sys = ((\<forall>l m. sys_crypto sys l = Some m \<longrightarrow> sni_map_ok V m) \<and> (\<forall>l. h3_tls_ok V (sys_h3 sys l)) \<and>
     (\<forall>(l, ph)\<in>set (sys_conns sys). phase_tls_ok V ph))"

lemma reloaded_sni_map_ok:
  assumes "reloaded_crypto V hist files tk = Inr crypto"
  shows "sni_map_ok V (fold (\<lambda>(k, v). AList.update (to_server_name k) v) (individual_config_map crypto) [])"
  unfolding sni_map_ok_def
proof (intro allI impI)
  fix sn e
  assume "map_of (fold (\<lambda>(k, v). AList.update (to_server_name k) v) (individual_config_map crypto) []) sn = Some e"
  then have "map_of (rev (map (\<lambda>(k, v). (to_server_name k, v)) (individual_config_map crypto))) sn = Some e"
    by (simp add: fold_update_map)
  then obtain k where k: "(k, e) \<in> set (individual_config_map crypto)" "sn = to_server_name k"
    by (auto dest!: map_of_SomeD)
  have "map_of (individual_config_map crypto) k = Some e"
    using k(1) server_crypto_distinct [OF assms [unfolded reloaded_crypto_def]] by simp
  from server_crypto_tcp [OF assms [unfolded reloaded_crypto_def] this]
  obtain src ck where s: "vhost_source V k = Some src" "last_read (pe_pem V) k src None (hist @ [files]) = Some ck"
      "is_mutual_tls ck = source_is_mutual_tls src" "sni_entry_ok (pe_rustls V) ck e"
    unfolding vhost_source_def by blast
  have "sn = ServerName k" using k(2) build_cert_reloader_lower s(1) by (auto simp: vhost_source_def to_server_name_def)
  moreover have "client_auth_enforced V k src (sni_server_config e)" if "source_is_mutual_tls src"
    using that s by (auto simp: client_auth_enforced_def sni_entry_ok_def)
  ultimately show "vhost_tls V sn (sni_server_config e)" using s(1) by (auto simp: vhost_tls_def)
qed

lemma h3_certs_changed_ok: "h3_tls_ok V (h3_certs_changed D (reloaded_crypto V hist files tk))"
proof (cases "reloaded_crypto V hist files tk")
  case (Inr crypto)
  have "vhost_tls V (ServerName n) (aggregated_config_no_client_auth crypto)"
    if "n \<in> fst ` set (scf_resolver (aggregated_config_no_client_auth crypto))" for n
    using server_crypto_quic [OF Inr [unfolded reloaded_crypto_def] that] by (auto simp: vhost_tls_def vhost_source_def)
  then show ?thesis using Inr by (simp add: h3_tls_ok_def h3_certs_changed_def quinn_with_crypto_def)
qed (simp add: h3_tls_ok_def h3_certs_changed_def)

lemma handshake_tls_ok:
  assumes "sni_map_ok V m" "fst (serve_tls_handshake T acme m raw addr) = Inr r" "\<not> is_handshake_acme r"
  shows "vhost_tls V (thr_server_name r) (thr_config r)"
proof -
  obtain hello sni config mtls acme' stream where "ch_server_name hello = Some sni"
      and sel: "select_server_crypto acme m hello sni = Inr (config, mtls, acme')"
      and r: "r = \<lparr>thr_stream = stream, thr_config = config, thr_server_name = to_server_name sni, is_handshake_acme = acme'\<rparr>"
    using assms(2) by (auto simp: serve_tls_handshake_def split: option.splits sum.splits prod.splits)
  then obtain e where "map_of m (to_server_name sni) = Some e" "config = sni_server_config e"
    using assms(3) by (auto simp: select_server_crypto_def split: if_splits option.splits)
  then show ?thesis using assms(1) r by (simp add: sni_map_ok_def)
qed

lemma serve_connection_tls_ok:
  "serve_connection admitted pi addr tls g = (ph, pi') \<Longrightarrow> (\<And>sn config. tls = Some (sn, config) \<Longrightarrow> vhost_tls V sn config) \<Longrightarrow> phase_tls_ok V ph"
  by (cases tls) (auto simp: serve_connection_def split: if_splits)

lemma tls_inv_new: "tls_inv V sys \<Longrightarrow> phase_tls_ok V ph \<Longrightarrow>
    tls_inv V (sys\<lparr>sys_permits := permits, sys_per_ip := pi, sys_conns := sys_conns sys @ [(l, ph)]\<rparr>)"
  by (auto simp: tls_inv_def)

lemma tls_inv_phase: "tls_inv V sys \<Longrightarrow> phase_tls_ok V ph \<Longrightarrow>
    tls_inv V (sys\<lparr>sys_permits := permits, sys_per_ip := pi, sys_conns := (sys_conns sys)[i := (l, ph)]\<rparr>)"
  using set_update_subset_insert [of "sys_conns sys" i "(l, ph)"] by (fastforce simp: tls_inv_def)

lemma tls_inv_conn: "tls_inv V sys \<Longrightarrow> i < length (sys_conns sys) \<Longrightarrow> sys_conns sys ! i = (l, ph) \<Longrightarrow> phase_tls_ok V ph"
  using nth_mem [of i "sys_conns sys"] by (auto simp: tls_inv_def)

text \<open>The record updates of the operations, as instances of the two rules.\<close>

lemmas tls_inv_new_simps =
  tls_inv_new [where permits = "sys_permits sys" and sys = sys for sys, simplified]
  tls_inv_new [where pi = "sys_per_ip sys" and sys = sys for sys, simplified]
  tls_inv_new [where permits = "sys_permits sys" and pi = "sys_per_ip sys" and sys = sys for sys, simplified]

lemmas tls_inv_phase_simps =
  tls_inv_phase tls_inv_phase [where permits = "sys_permits sys" and sys = sys for sys, simplified]
  tls_inv_phase [where pi = "sys_per_ip sys" and sys = sys for sys, simplified]

lemma accept_tls_inv:
  assumes "tls_inv V sys"
  shows "tls_inv V (accept_plain cfg admitted l addr sys)" and "tls_inv V (accept_tls cfg l addr sys)"
proof -
  have "phase_tls_ok V ph" if "serve_connection admitted pi addr None g = (ph, pi')" for pi g ph pi'
    by (rule serve_connection_tls_ok [OF that]) simp
  then show "tls_inv V (accept_plain cfg admitted l addr sys)"
    using assms by (auto simp: accept_plain_def intro!: tls_inv_new_simps split: option.splits prod.splits)
  show "tls_inv V (accept_tls cfg l addr sys)"
    using assms by (auto simp: accept_tls_def tls_inv_def split: option.splits)
qed

lemma task_parsed_tls:
  assumes inv: "tls_inv V sys" and i: "i < length (sys_conns sys)" and old: "sys_conns sys ! i = (l, Parsing permit peer crypto)"
  shows "tls_inv V (task_parsed admitted result i sys)"
proof -
  have "phase_tls_ok V ph" if "serve_connection admitted pi addr None g = (ph, pi')" for addr pi g ph pi'
    by (rule serve_connection_tls_ok [OF that]) simp
  moreover have "phase_tls_ok V (Handshaking permit addr g m)" if "crypto = Some m" for addr g m
    using tls_inv_conn [OF inv i old] that by simp
  ultimately show ?thesis
    using inv old by (auto simp: task_parsed_def intro!: tls_inv_phase_simps split: option.splits prod.splits sum.splits)
qed

lemma task_handshaken_tls:
  assumes inv: "tls_inv V sys" and i: "i < length (sys_conns sys)" and old: "sys_conns sys ! i = (l, Handshaking permit addr guard crypto)"
    and res: "result \<in> {None, Some (fst (serve_tls_handshake (pe_tls V) (pe_acme V) crypto raw addr))}"
  shows "tls_inv V (task_handshaken admitted result i sys)"
proof -
  have m: "sni_map_ok V crypto" using tls_inv_conn [OF inv i old] by simp
  define out where "out = (case result of
      Some (Inr r) \<Rightarrow> if is_handshake_acme r then (Closed, guard_drop (sys_per_ip sys) guard)
        else serve_connection admitted (sys_per_ip sys) addr (Some (thr_server_name r, thr_config r)) guard
    | _ \<Rightarrow> (Closed, guard_drop (sys_per_ip sys) guard))"
  obtain ph pi where o: "out = (ph, pi)" by fastforce
  have "phase_tls_ok V ph"
  proof (cases "\<exists>r. result = Some (Inr r) \<and> \<not> is_handshake_acme r")
    case True
    then obtain r where r: "result = Some (Inr r)" "\<not> is_handshake_acme r" by blast
    then have "fst (serve_tls_handshake (pe_tls V) (pe_acme V) crypto raw addr) = Inr r" using res by auto
    from handshake_tls_ok [OF m this r(2)] have "vhost_tls V (thr_server_name r) (thr_config r)" .
    then show ?thesis using o r by (intro serve_connection_tls_ok [of admitted "sys_per_ip sys" addr]) (auto simp: out_def)
  next
    case False
    then show ?thesis using o by (auto simp: out_def split: option.splits sum.splits if_splits)
  qed
  then show ?thesis using inv old o by (simp add: task_handshaken_def out_def [symmetric] tls_inv_phase)
qed

lemma proxy_step_tls:
  assumes "proxy_step V sys sys'" "tls_inv V sys"
  shows "tls_inv V sys'"
  using assms
proof (induction rule: proxy_step.induct)
  case (h3 l sys qc config sni addr)
  then have "vhost_tls V (to_server_name sni) config" by (auto simp: tls_inv_def h3_tls_ok_def to_server_name_def)
  then show ?case using h3.prems by (auto simp: accept_h3_def intro!: tls_inv_new_simps split: option.splits prod.splits)
next
  case (finished i sys)
  then show ?case
    by (auto simp: conn_finished_def intro!: tls_inv_phase_simps split: prod.splits conn_phase.splits)
next
  case (tls_certs sys l hist files tk)
  then show ?case by (auto simp: tls_certs_changed_def tls_inv_def reloaded_sni_map_ok split: sum.splits)
next
  case (h3_certs sys l qc hist files tk)
  then show ?case by (auto simp: tls_inv_def h3_certs_changed_ok)
qed (simp_all only: accept_tls_inv task_parsed_tls task_handshaken_tls)

lemma proxy_reachable_tls:
  assumes "proxy_reachable V sys"
  shows "tls_inv V sys"
  using assms unfolding proxy_reachable_def
proof (induction rule: rtranclp_induct)
  case base
  show ?case by (simp add: tls_inv_def proxy_start_def h3_tls_ok_def h3_initial_config_def quinn_with_crypto_def)
qed (rule proxy_step_tls)



lemma plain_accept_loop_stops: "fst (plain_accept_loop cfg l cnxs sys) \<longleftrightarrow> (\<forall>e. Inl e \<notin> set cnxs)"
  by (induction cfg l cnxs sys rule: plain_accept_loop.induct) auto

lemma tls_accept_loop_continues:
  "tls_accept_loop cfg l cnxs sys = (True, fold (accept_tls cfg l) [a. Inr (a, _) \<leftarrow> cnxs] sys)"
  by (induction cfg l cnxs sys rule: tls_accept_loop.induct) auto

section \<open>A concrete proxy\<close>

text \<open>One HTTPS listener, one virtual host with client CAs, and outside code that accepts everything.\<close>

definition edge_source :: crypto_file_source where
  "edge_source = \<lparr>tls_cert_path = ''c'', tls_cert_key_path = ''k'', client_ca_cert_path = Some ''a''\<rparr>"

definition edge_proxy_config :: "ip_addr proxy_config" where
  "edge_proxy_config = proxy_config_default\<lparr>listen_sockets := [SocketAddr (V4 (Ipv4Addr 0 0 0 0)) 443], https_port := Some 443,
     max_clients := 8, max_clients_per_ip := 2\<rparr>"

definition edge_env :: "(ip_addr, unit, unit, nat, bytes, unit, unit, unit, unit, unit) proxy_env" where
  "edge_env = \<lparr>pe_config = edge_proxy_config, pe_net = edge_net_api, pe_ppp = tiny_ppp,
     pe_tls = \<lparr>tls_acceptor = (\<lambda>_. Some \<lparr>ch_server_name = Some ''a.b'', ch_tls_alpn_challenge = False\<rparr>), tls_into_stream = (\<lambda>_ _. Inr ())\<rparr>,
     pe_acme = [], pe_quinn = \<lparr>default_transport = 100, default_max_incoming = 65536, quic_accepts = (\<lambda>_. True)\<rparr>, pe_transport = (\<lambda>cfg _. unat (h3_max_concurrent_bidistream cfg)),
     pe_rustls = \<lparr>any_supported_type = (\<lambda>_. Some ()), resolver_accepts = (\<lambda>_ _ _. True), anchor_from_trusted_cert = (\<lambda>_. Some ()),
        x509_subject_key_ids = (\<lambda>_. Some [''i'']), verifier_builds = (\<lambda>_. True), provider_installed = True, protocol_versions_ok = True\<rparr>,
     pe_pem = \<lparr>read_to_end = Inr, pem_certs = (\<lambda>_. Some [()]), pem_pkcs8 = (\<lambda>_. Some [()]), pem_pkcs1 = (\<lambda>_. Some [])\<rparr>,
     pe_sources = [(''a.b'', edge_source)]\<rparr>"

abbreviation edge_files :: "bytes \<Rightarrow> bytes files" where "edge_files \<equiv> \<lambda>_ _. Inr []"

abbreviation edge_tls_config :: "(unit, unit, unit, unit) server_config" where
  "edge_tls_config \<equiv> \<lparr>scf_client_roots = Some [()], scf_resolver = [(''a.b'', ([()], ()))], alpn_protocols = ALPN_TCP, ticketer = None, session_storage = False\<rparr>"

lemma lower_ab [simp]: "to_ascii_lowercase ''a.b'' = ''a.b''"
  by (simp add: to_ascii_lowercase_def lower_char_def rust_simps)

lemma utf8_ab [simp]: "utf8_valid ''a.b''"
  by (simp add: byte_def)

lemma edge_reloader: "cr_inner (build_cert_reloader (pe_sources edge_env)) = [(''a.b'', edge_source)]"
  by (simp add: build_cert_reloader_def reloader_new_def edge_env_def)

lemma edge_base:
  "served_base (pe_pem edge_env) [] edge_files (build_cert_reloader (pe_sources edge_env)) =
     [(''a.b'', \<lparr>ck_certs = [()], ck_cert_keys = [Pkcs8 ()], ck_client_ca_certs = Some [()]\<rparr>)]"
  unfolding served_base_def reload_run.simps reload_def edge_reloader
  by (simp add: source_read_def read_certs_and_keys_def read_pem_certs_def certs_keys_new_def edge_source_def edge_env_def)

lemma edge_crypto:
  "\<exists>crypto. reloaded_crypto edge_env [] edge_files (Inr ()) = Inr crypto \<and>
     individual_config_map crypto = [(''a.b'', \<lparr>sni_server_config = edge_tls_config, sni_is_mutual_tls = True\<rparr>)]"
  unfolding reloaded_crypto_def edge_base
  by (simp add: server_crypto_try_from_def build_aggregated_server_crypto_def build_individual_server_crypto_map_def individual_entry_def
      server_name_bytes_to_string_def rustls_certified_key_def rustls_client_certs_trust_anchors_def trust_anchor_entry_def is_mutual_tls_def
      resolver_add_def server_config_built_def edge_env_def List.map_filter_def del: utf8_valid.simps)

lemma edge_listener: "listener_specs edge_proxy_config = [\<lparr>ls_kind = HttpsV4, listening_on = SocketAddr (V4 (Ipv4Addr 0 0 0 0)) 443\<rparr>]"
  by (simp add: listener_specs_def socket_listeners_def edge_proxy_config_def proxy_config_default_def)

lemma edge_serving:
  "\<exists>sys. proxy_reachable edge_env sys \<and>
     sys_conns sys = [(0, Serving edge_peer (Some (ServerName ''a.b'', edge_tls_config)) (PerIpConnectionGuard (Some (V4 (Ipv4Addr 10 0 0 2)))))] \<and>
     (\<exists>qc. sys_h3 sys 0 = H3Running qc \<and> qc_crypto qc \<noteq> None)"
proof -
  obtain crypto where c: "reloaded_crypto edge_env [] edge_files (Inr ()) = Inr crypto"
    "individual_config_map crypto = [(''a.b'', \<lparr>sni_server_config = edge_tls_config, sni_is_mutual_tls = True\<rparr>)]"
    using edge_crypto by blast
  define m where "m = [(ServerName ''a.b'', \<lparr>sni_server_config = edge_tls_config, sni_is_mutual_tls = True\<rparr>)]"
  let ?start = "proxy_start (pe_quinn edge_env) (pe_transport edge_env) (pe_config edge_env)"
  define s1 where "s1 = tls_certs_changed 0 (reloaded_crypto edge_env [] edge_files (Inr ())) ?start"
  define s2 where "s2 = s1\<lparr>sys_h3 := (sys_h3 s1)(0 := h3_certs_changed (pe_quinn edge_env) (reloaded_crypto edge_env [] edge_files (Inr ())))\<rparr>"
  define s3 where "s3 = accept_tls (pe_config edge_env) 0 edge_peer s2"
  define s4 where "s4 = task_parsed True (task_address edge_env [] sample_stream edge_peer) 0 s3"
  define s5 where "s5 = task_handshaken True (Some (fst (serve_tls_handshake (pe_tls edge_env) (pe_acme edge_env) m () edge_peer))) 0 s4"
  have quic: "quic_accepts (pe_quinn edge_env) config" for config by (simp add: edge_env_def)
  have cfg: "pe_config edge_env = edge_proxy_config" "tcp_recv_proxy_protocol edge_proxy_config = None"
    by (simp_all add: edge_env_def edge_proxy_config_def proxy_config_default_def)
  have m: "sys_crypto s2 0 = Some m"
    by (simp add: s2_def s1_def c tls_certs_changed_def m_def to_server_name_def)
  have c3: "sys_conns s3 = [(0, Parsing False edge_peer (Some m))]" "sys_per_ip s3 = per_ip_new 2" "sys_h3 s3 = sys_h3 s2"
    using m cfg by (simp_all add: s3_def accept_tls_def s2_def s1_def c tls_certs_changed_def proxy_start_def edge_proxy_config_def)
  have ad: "task_address edge_env [] sample_stream edge_peer = Inr edge_peer" by (simp add: task_address_def cfg)
  have c4: "sys_conns s4 = [(0, Handshaking False edge_peer (PerIpConnectionGuard (Some (V4 (Ipv4Addr 10 0 0 2)))) m)]" "sys_h3 s4 = sys_h3 s2"
    using c3 by (simp_all add: s4_def ad task_parsed_def try_acquire_def per_ip_new_def)
  have h: "fst (serve_tls_handshake (pe_tls edge_env) (pe_acme edge_env) m () edge_peer) =
      Inr \<lparr>thr_stream = (), thr_config = edge_tls_config, thr_server_name = ServerName ''a.b'', is_handshake_acme = False\<rparr>"
    by (simp add: serve_tls_handshake_def select_server_crypto_def edge_env_def m_def to_server_name_def)
  have c5: "sys_conns s5 = [(0, Serving edge_peer (Some (ServerName ''a.b'', edge_tls_config)) (PerIpConnectionGuard (Some (V4 (Ipv4Addr 10 0 0 2)))))]"
    "sys_h3 s5 = sys_h3 s2"
    using c4 by (simp_all add: s5_def h task_handshaken_def serve_connection_def)
  have "proxy_step edge_env ?start s1" unfolding s1_def by (rule proxy_step.tls_certs)
  moreover have "proxy_step edge_env s1 s2" unfolding s2_def
    by (rule proxy_step.h3_certs [where qc = "h3_initial_config (pe_quinn edge_env) (pe_transport edge_env) (pe_config edge_env)"])
      (simp add: s1_def c tls_certs_changed_def proxy_start_def)
  moreover have "proxy_step edge_env s2 s3" unfolding s3_def
    by (rule proxy_step.tls) (simp_all add: cfg edge_listener tls_enabled_def is_http3_def)
  moreover have "proxy_step edge_env s3 s4" unfolding s4_def by (rule proxy_step.parsed [where l = 0 and permit = False and crypto = "Some m"]) (use c3 in simp_all)
  moreover have "proxy_step edge_env s4 s5" unfolding s5_def 
    by (rule proxy_step.handshaken [where l = 0 and permit = False and crypto = m and raw = "()"]) (use c4 in simp_all)
  ultimately have "proxy_reachable edge_env s5" unfolding proxy_reachable_def by (meson converse_rtranclp_into_rtranclp rtranclp.rtrancl_refl)
  moreover have "\<exists>qc. sys_h3 s5 0 = H3Running qc \<and> qc_crypto qc \<noteq> None"
    using quic by (simp add: c5 s2_def c h3_certs_changed_def quinn_with_crypto_def)
  ultimately show ?thesis using c5(1) by blast
qed

lemma route_request_config:
  assumes "sni_consistency cfg = sni_consistency cfg'" "request_max_body_size cfg = request_max_body_size cfg'"
    "public_https_port cfg = public_https_port cfg'"
  shows "route_request H U cfg am req tls sni = route_request H U cfg' am req tls sni"
  unfolding route_request_def assms ..

section \<open>Properties\<close>

text \<open>C1: The boundary of mutual TLS, from the certificate files to the routed request.  In every run of
  the proxy, with any interleaving of connections, reloads and failing reads: a request that is routed
  on a TLS or HTTP/3 connection while SNI consistency is on goes to the application of the server name
  of that connection, whose certificate source exists; and if that source has client CAs, the
  connection was set up under a configuration that asks for a client certificate issued by exactly the
  CAs last read for this name, and that cannot resume an earlier session.\<close>

theorem mtls_boundary:
  assumes "proxy_reachable V sys"
    and "(l, Serving addr (Some (sn, config)) guard) \<in> set (sys_conns sys)"
    and "sni_consistency (pe_config V)"
    and "route_request H U (pe_config V) am req True (Some sn) = Inr (Some (Routed name app fallback uc up))"
  shows "\<exists>n src. name = ServerName n \<and> map_of (am_apps am) name = Some app \<and> vhost_source V n = Some src \<and>
    (source_is_mutual_tls src \<longrightarrow> client_auth_enforced V n src config)"
proof (rule route_request_Inr [OF assms(4)])
  fix host found
  assume host: "True \<Longrightarrow> sni_consistency (pe_config V) \<Longrightarrow> to_server_name host = (case Some sn of Some n \<Rightarrow> n | None \<Rightarrow> ServerName [])"
    and f: "find_backend_app am (to_server_name host) True = Inr found"
    and n: "found = None \<Longrightarrow> Some (Routed name app fallback uc up) = None"
    and r: "\<And>name' app' fb'. found = Some (name', app', fb') \<Longrightarrow>
       (\<exists>res. Some (Routed name app fallback uc up) = Some (Redirected res) \<and> \<not> True \<and> ba_https_redirection app' = Some True) \<or>
       (\<exists>uc'. path_manager_get (ba_path_manager app') (uri_path U (rq_uri req)) = Some uc' \<and>
          (True \<or> ba_https_redirection app' \<noteq> Some True) \<and>
          Some (Routed name app fallback uc up) = Some (Routed name' app' fb' uc' (extract_upgrade H (rq_headers req))))"
  obtain n' a' b' where found: "found = Some (n', a', b')" using n by (cases found) auto
  have "name = sn" "map_of (am_apps am) name = Some app"
    using r [OF found] f found host assms(3) by (auto simp: find_backend_app_def split: option.splits)
  moreover have "vhost_tls V sn config" using proxy_reachable_tls [OF assms(1)] assms(2) by (fastforce simp: tls_inv_def)
  ultimately show ?thesis by (auto simp: vhost_tls_def)
qed

theorem mtls_boundary_witness:
  "\<exists>config. scf_client_roots config = Some [()] \<and> client_auth_enforced edge_env ''a.b'' edge_source config"
proof -
  obtain sys where s: "proxy_reachable edge_env sys"
    "sys_conns sys = [(0, Serving edge_peer (Some (ServerName ''a.b'', edge_tls_config)) (PerIpConnectionGuard (Some (V4 (Ipv4Addr 10 0 0 2)))))]"
    using edge_serving by blast
  have c: "(0, Serving edge_peer (Some (ServerName ''a.b'', edge_tls_config)) (PerIpConnectionGuard (Some (V4 (Ipv4Addr 10 0 0 2))))) \<in> set (sys_conns sys)"
    by (simp add: s(2))
  have sni: "sni_consistency (pe_config edge_env)" by (simp add: edge_env_def edge_proxy_config_def proxy_config_default_def)
  have r: "route_request lines_api sample_uri_api (pe_config edge_env) sample_manager sample_request True (Some (ServerName ''a.b'')) =
      Inr (Some (Routed (ServerName ''a.b'') sample_app False (sample_group ''/'') None))"
    by (subst route_request_config [where cfg' = proxy_config_default])
      (simp_all add: sample_routed edge_env_def edge_proxy_config_def)
  from mtls_boundary [OF s(1) c sni r] have "client_auth_enforced edge_env ''a.b'' edge_source edge_tls_config"
    by (auto simp: vhost_source_def edge_reloader source_is_mutual_tls_def edge_source_def)
  then show ?thesis by (intro exI [of _ edge_tls_config]) simp
qed





end
