(* ===== verification/Request_Body.thy ===== *)
theory Request_Body
  imports Name_Exp
begin

text \<open>
  Request bodies (\<open>hyper_ext/body_type.rs\<close>, \<open>hyper_ext/body_incoming_like.rs\<close>, the body task of
  \<open>proxy/proxy_h3.rs\<close>): the length-limited body of HTTP/1.1 and HTTP/2, and the channel body that
  HTTP/3 feeds.  A body is polled; the bodies of \<open>hyper\<close> and the receivers of
  \<open>futures-channel\<close> are arguments, given by their poll functions on a state of their own.
\<close>

section \<open>Frames and polls\<close>

datatype 't frame = DataFrame bytes | TrailersFrame 't

datatype 'a poll = Pending | Ready 'a

type_synonym ('e, 't) polled = "('e + 't frame) option poll"

definition poll_map_err :: "('e \<Rightarrow> 'f) \<Rightarrow> ('e, 't) polled \<Rightarrow> ('f, 't) polled" where
  "poll_map_err f r =
     (case r of Ready (Some (Inl e)) \<Rightarrow> Ready (Some (Inl (f e)))
      | Ready (Some (Inr x)) \<Rightarrow> Ready (Some (Inr x)) | Ready None \<Rightarrow> Ready None | Pending \<Rightarrow> Pending)"

section \<open>The limited body\<close>

record 'b limited_body =
  lim_inner :: 'b
  lim_limit :: "usize option"
  lim_received :: usize
  lim_tripped :: bool

definition limited_new :: "'b \<Rightarrow> usize option \<Rightarrow> 'b limited_body" where
  "limited_new inner lim = \<lparr>lim_inner = inner, lim_limit = lim, lim_received = 0, lim_tripped = False\<rparr>"

definition limited_poll_frame :: "('b \<Rightarrow> ('e, 't) polled \<times> 'b) \<Rightarrow> ('e \<Rightarrow> rpxy_error) \<Rightarrow> 'b limited_body \<Rightarrow>
    (rpxy_error, 't) polled \<times> 'b limited_body" where
  "limited_poll_frame inner_poll into this =
     (if lim_tripped this then (Ready None, this)
      else case lim_limit this of
        None \<Rightarrow> (case inner_poll (lim_inner this) of (r, b) \<Rightarrow> (poll_map_err into r, this\<lparr>lim_inner := b\<rparr>))
      | Some limit \<Rightarrow>
          (case inner_poll (lim_inner this) of (r, b) \<Rightarrow>
             (let this = this\<lparr>lim_inner := b\<rparr>
              in case r of
                   Pending \<Rightarrow> (Pending, this)
                 | Ready None \<Rightarrow> (Ready None, this)
                 | Ready (Some (Inl e)) \<Rightarrow> (Ready (Some (Inl (into e))), this)
                 | Ready (Some (Inr (DataFrame data))) \<Rightarrow>
                     (let received = saturating_add (lim_received this) (length data); this = this\<lparr>lim_received := received\<rparr>
                      in if limit < received
                         then (Ready (Some (Inl (RequestBodyTooLarge (unat received) (unat limit)))), this\<lparr>lim_tripped := True\<rparr>)
                         else (Ready (Some (Inr (DataFrame data))), this))
                 | Ready (Some (Inr (TrailersFrame t))) \<Rightarrow> (Ready (Some (Inr (TrailersFrame t))), this))))"

definition limited_is_end_stream :: "('b \<Rightarrow> bool) \<Rightarrow> 'b limited_body \<Rightarrow> bool" where
  "limited_is_end_stream inner_end this = (lim_tripped this \<or> inner_end (lim_inner this))"

text \<open>Polling a body \<open>n\<close> times.\<close>

fun poll_times :: "('s \<Rightarrow> 'r \<times> 's) \<Rightarrow> nat \<Rightarrow> 's \<Rightarrow> 'r list \<times> 's" where
  "poll_times f 0 s = ([], s)"
| "poll_times f (Suc n) s = (case f s of (r, s') \<Rightarrow> case poll_times f n s' of (rs, s'') \<Rightarrow> (r # rs, s''))"

text \<open>The data bytes in a poll result.\<close>

fun polled_bytes :: "('e, 't) polled \<Rightarrow> nat" where
  "polled_bytes (Ready (Some (Inr (DataFrame d)))) = length d"
| "polled_bytes _ = 0"

abbreviation total_bytes :: "('e, 't) polled list \<Rightarrow> nat" where
  "total_bytes rs \<equiv> sum_list (map polled_bytes rs)"

lemma polled_bytes_map_err [simp]: "polled_bytes (poll_map_err f r) = polled_bytes r"
  by (cases r rule: polled_bytes.cases) (simp_all add: poll_map_err_def)

lemma total_bytes_map_err [simp]: "total_bytes (map (poll_map_err f) rs) = total_bytes rs"
  by (simp add: o_def)

lemma poll_times_tripped: "lim_tripped s \<Longrightarrow> poll_times (limited_poll_frame p into) n s = (replicate n (Ready None), s)"
  by (induction n) (simp_all add: limited_poll_frame_def)

text \<open>One poll under a limit, in terms of the bytes received so far.\<close>

lemma limited_poll_within:
  assumes "\<not> lim_tripped s" "lim_limit s = Some l" "p (lim_inner s) = (r, b)" "unat (lim_received s) + polled_bytes r \<le> unat l"
  shows "\<exists>s'. limited_poll_frame p into s = (poll_map_err into r, s') \<and> \<not> lim_tripped s' \<and> lim_limit s' = Some l \<and>
           lim_inner s' = b \<and> unat (lim_received s') = unat (lim_received s) + polled_bytes r"
  using assms usize_bound [of l]
  by (cases r rule: polled_bytes.cases)
    (auto simp: limited_poll_frame_def poll_map_err_def Let_def unat_saturating_add word_less_nat_alt min_def)

lemma limited_poll_crossing:
  assumes "\<not> lim_tripped s" "lim_limit s = Some l" "p (lim_inner s) = (r, b)" "unat l < unat (lim_received s) + polled_bytes r"
    and "unat l < 2 ^ 64 - 1" "unat (lim_received s) \<le> unat l"
  shows "\<exists>s'. limited_poll_frame p into s =
           (Ready (Some (Inl (RequestBodyTooLarge (min (unat (lim_received s) + polled_bytes r) (2 ^ 64 - 1)) (unat l)))), s') \<and>
           lim_tripped s' \<and> lim_inner s' = b"
  using assms
  by (cases r rule: polled_bytes.cases)
    (auto simp: limited_poll_frame_def Let_def unat_saturating_add word_less_nat_alt simp del: power_numeral)

lemma limited_poll_times:
  assumes "\<not> lim_tripped s" "lim_limit s = Some l" "unat l < 2 ^ 64 - 1" "unat (lim_received s) \<le> unat l"
    and "poll_times p n (lim_inner s) = (rs, b)"
  shows "if unat (lim_received s) + total_bytes rs \<le> unat l
         then \<exists>s'. poll_times (limited_poll_frame p into) n s = (map (poll_map_err into) rs, s') \<and> lim_inner s' = b
         else \<exists>k < n. unat (lim_received s) + total_bytes (take k rs) \<le> unat l \<and>
              unat l < unat (lim_received s) + total_bytes (take (Suc k) rs) \<and>
              (\<exists>s'. poll_times (limited_poll_frame p into) n s =
                 (map (poll_map_err into) (take k rs) @
                  Ready (Some (Inl (RequestBodyTooLarge
                    (min (unat (lim_received s) + total_bytes (take (Suc k) rs)) (2 ^ 64 - 1)) (unat l)))) #
                  replicate (n - Suc k) (Ready None), s') \<and>
                 lim_inner s' = snd (poll_times p (Suc k) (lim_inner s)))"
  using assms
proof (induction n arbitrary: s rs)
  case 0
  then show ?case by simp
next
  case (Suc n)
  obtain r b' where r: "p (lim_inner s) = (r, b')" by fastforce
  obtain rs' where rs': "poll_times p n b' = (rs', b)" "rs = r # rs'" using Suc.prems(5) r by (auto split: prod.splits)
  show ?case
  proof (cases "unat (lim_received s) + polled_bytes r \<le> unat l")
    case True
    obtain s' where s': "limited_poll_frame p into s = (poll_map_err into r, s')" "\<not> lim_tripped s'" "lim_limit s' = Some l"
        "lim_inner s' = b'" "unat (lim_received s') = unat (lim_received s) + polled_bytes r"
      using limited_poll_within [where p = p, OF Suc.prems(1,2) r True] by blast
    have "unat (lim_received s') \<le> unat l" "poll_times p n (lim_inner s') = (rs', b)" using True s' rs' by simp_all
    note IH = Suc.IH [OF s'(2,3) Suc.prems(3) this]
    show ?thesis
    proof (cases "unat (lim_received s) + total_bytes rs \<le> unat l")
      case True
      then show ?thesis using IH s' rs' by (auto simp: add.assoc split: if_splits)
    next
      case False
      then obtain k s'' where k: "k < n" "unat (lim_received s') + total_bytes (take k rs') \<le> unat l"
          "unat l < unat (lim_received s') + total_bytes (take (Suc k) rs')"
          "poll_times (limited_poll_frame p into) n s' =
             (map (poll_map_err into) (take k rs') @
              Ready (Some (Inl (RequestBodyTooLarge
                (min (unat (lim_received s') + total_bytes (take (Suc k) rs')) (2 ^ 64 - 1)) (unat l)))) #
              replicate (n - Suc k) (Ready None), s'')" "lim_inner s'' = snd (poll_times p (Suc k) b')"
        using IH rs' s' by (auto simp: add.assoc split: if_splits)
      have "Suc k < Suc n" using k(1) by simp
      then show ?thesis
        using False k s' rs' r unfolding if_not_P [OF False]
        by (intro exI [of _ "Suc k"] conjI exI [of _ s'']) (simp_all add: add.assoc split: prod.splits)
    qed
  next
    case False
    obtain s' where s': "limited_poll_frame p into s =
           (Ready (Some (Inl (RequestBodyTooLarge (min (unat (lim_received s) + polled_bytes r) (2 ^ 64 - 1)) (unat l)))), s')"
           "lim_tripped s'" "lim_inner s' = b'"
      using limited_poll_crossing [where p = p, OF Suc.prems(1,2) r _ Suc.prems(3,4)] False by (metis not_le)
    have nle: "\<not> unat (lim_received s) + total_bytes rs \<le> unat l" using False rs' by simp
    show ?thesis
      unfolding if_not_P [OF nle]
      using False s' rs' r Suc.prems(4) poll_times_tripped [OF s'(2), where n = n and p = p and into = into]
      by (intro exI [of _ 0] conjI exI [of _ s']) simp_all
  qed
qed

text \<open>
  C29: The body limit, as a function of what the client sends.  As long as the bytes stay within the
  limit every poll gives what the inner body gives; the poll that crosses the limit gives
  \<open>RequestBodyTooLarge\<close> with the (saturated) count, every later poll gives the end of the stream, and
  the inner body is not polled again, so no trailers slip through.
\<close>

theorem limited_body_spec:
  assumes "unat l < 2 ^ 64 - 1" and "poll_times p n inner = (rs, b)"
  shows "if total_bytes rs \<le> unat l
         then \<exists>s. poll_times (limited_poll_frame p into) n (limited_new inner (Some l)) = (map (poll_map_err into) rs, s)
         else \<exists>k < n. total_bytes (take k rs) \<le> unat l \<and> unat l < total_bytes (take (Suc k) rs) \<and>
              (\<exists>s. poll_times (limited_poll_frame p into) n (limited_new inner (Some l)) =
                 (map (poll_map_err into) (take k rs) @
                  Ready (Some (Inl (RequestBodyTooLarge (min (total_bytes (take (Suc k) rs)) (2 ^ 64 - 1)) (unat l)))) #
                  replicate (n - Suc k) (Ready None), s) \<and>
                 lim_inner s = snd (poll_times p (Suc k) inner))"
proof -
  let ?s = "limited_new inner (Some l)"
  have new: "\<not> lim_tripped ?s" "lim_limit ?s = Some l" "unat (lim_received ?s) = 0" "lim_inner ?s = inner"
    by (simp_all add: limited_new_def)
  note run = limited_poll_times [where p = p and into = into, OF new(1,2) assms(1), unfolded new(3,4) add_0, OF le0 assms(2)]
  show ?thesis
  proof (cases "total_bytes rs \<le> unat l")
    case True
    then show ?thesis using run by (simp only: if_True) blast
  next
    case False
    then show ?thesis using run by (simp only: if_False)
  qed
qed

text \<open>A body that yields the given results and then ends.\<close>

fun scripted_poll :: "('e, 't) polled list \<Rightarrow> ('e, 't) polled \<times> ('e, 't) polled list" where
  "scripted_poll [] = (Ready None, [])"
| "scripted_poll (r # rs) = (r, rs)"

definition sample_script :: "(rpxy_error, unit) polled list" where
  "sample_script = [Ready (Some (Inr (DataFrame ''abc''))), Pending, Ready (Some (Inr (DataFrame ''de''))),
     Ready (Some (Inr (TrailersFrame ())))]"

theorem limited_body_spec_witness:
  "\<exists>s. poll_times (limited_poll_frame scripted_poll (\<lambda>e. e)) 4 (limited_new sample_script (Some 4)) =
     ([Ready (Some (Inr (DataFrame ''abc''))), Pending, Ready (Some (Inl (RequestBodyTooLarge 5 4))), Ready None], s)"
proof -
  have four: "4 = Suc (Suc (Suc (Suc 0)))" by simp
  have run: "poll_times scripted_poll 4 sample_script = (sample_script, [])"
    unfolding four by (simp add: sample_script_def)
  have over: "\<not> total_bytes sample_script \<le> unat (4 :: usize)" by (simp add: sample_script_def)
  have lim: "unat (4 :: usize) < 2 ^ 64 - 1" by simp
  obtain k s where k: "k < 4" "total_bytes (take k sample_script) \<le> unat (4 :: usize)"
      "unat (4 :: usize) < total_bytes (take (Suc k) sample_script)"
    and s: "poll_times (limited_poll_frame scripted_poll (\<lambda>e. e)) 4 (limited_new sample_script (Some 4)) =
       (map (poll_map_err (\<lambda>e. e)) (take k sample_script) @
        Ready (Some (Inl (RequestBodyTooLarge (min (total_bytes (take (Suc k) sample_script)) (2 ^ 64 - 1)) (unat (4 :: usize))))) #
        replicate (4 - Suc k) (Ready None), s)"
    using limited_body_spec [where into = "\<lambda>e. e", OF lim run] unfolding if_not_P [OF over] by blast
  have "k = 0 \<or> k = 1 \<or> k = 2 \<or> k = 3" using k(1) by linarith
  then have "k = 2" using k(2,3) by (elim disjE) (simp_all add: sample_script_def)
  then show ?thesis using s by (simp add: sample_script_def poll_map_err_def)
qed

section \<open>The channel body of HTTP/3\<close>

subsection \<open>Decoded length\<close>

definition DECODED_MAX_LEN :: u64 where "DECODED_MAX_LEN = - 1 - 2"
definition CLOSE_DELIMITED :: u64 where "CLOSE_DELIMITED = - 1"
definition CHUNKED :: u64 where "CHUNKED = - 1 - 1"
definition ZERO :: u64 where "ZERO = 0"

definition sub_if :: "u64 \<Rightarrow> u64 \<Rightarrow> u64" where
  "sub_if known amt = (if known = CHUNKED \<or> known = CLOSE_DELIMITED then known else known - amt)"

definition decoded_into_opt :: "u64 \<Rightarrow> u64 option" where
  "decoded_into_opt len = (if len = CHUNKED \<or> len = CLOSE_DELIMITED then None else Some len)"

subsection \<open>The receiving half\<close>

text \<open>The receivers of the two channels, by their poll functions; the error of the trailers channel is \<open>Canceled\<close>.\<close>

record ('d, 'x, 't) channel_api =
  rx_terminated :: "'d \<Rightarrow> bool"
  rx_poll_next :: "'d \<Rightarrow> (rpxy_error + bytes) option poll \<times> 'd"
  rx_poll_trailers :: "'x \<Rightarrow> (unit + 't) poll \<times> 'x"

definition WANT_PENDING :: usize where "WANT_PENDING = 1"
definition WANT_READY :: usize where "WANT_READY = 2"
definition WATCH_CLOSED :: usize where "WATCH_CLOSED = 0"

record ('d, 'x) incoming_like =
  il_content_length :: u64
  il_want :: usize
  il_data_rx :: 'd
  il_trailers_rx :: 'x

definition il_poll_trailers :: "('d, 'x, 't) channel_api \<Rightarrow> ('d, 'x) incoming_like \<Rightarrow>
    (rpxy_error, 't) polled \<times> ('d, 'x) incoming_like" where
  "il_poll_trailers C this =
     (case rx_poll_trailers C (il_trailers_rx this) of
        (r, x) \<Rightarrow>
          (case r of Pending \<Rightarrow> Pending
           | Ready (Inr t) \<Rightarrow> Ready (Some (Inr (TrailersFrame t)))
           | Ready (Inl _) \<Rightarrow> Ready None,
           this\<lparr>il_trailers_rx := x\<rparr>))"

definition il_poll_frame :: "('d, 'x, 't) channel_api \<Rightarrow> ('d, 'x) incoming_like \<Rightarrow>
    (rpxy_error, 't) polled \<times> ('d, 'x) incoming_like" where
  "il_poll_frame C this =
     (let this = this\<lparr>il_want := WANT_READY\<rparr>
      in if rx_terminated C (il_data_rx this) then il_poll_trailers C this
         else case rx_poll_next C (il_data_rx this) of
           (r, d) \<Rightarrow>
             (let this = this\<lparr>il_data_rx := d\<rparr>
              in case r of
                   Pending \<Rightarrow> (Pending, this)
                 | Ready (Some (Inl e)) \<Rightarrow> (Ready (Some (Inl e)), this)
                 | Ready (Some (Inr chunk)) \<Rightarrow>
                     (Ready (Some (Inr (DataFrame chunk))),
                      this\<lparr>il_content_length := sub_if (il_content_length this) (of_nat (length chunk))\<rparr>)
                 | Ready None \<Rightarrow> il_poll_trailers C this))"

definition il_is_end_stream :: "('d, 'x) incoming_like \<Rightarrow> bool" where
  "il_is_end_stream this = (il_content_length this = ZERO)"

definition il_size_hint :: "('d, 'x) incoming_like \<Rightarrow> u64 option" where
  "il_size_hint this = decoded_into_opt (il_content_length this)"

definition il_new_channel :: "'d \<Rightarrow> 'x \<Rightarrow> u64 \<Rightarrow> bool \<Rightarrow> ('d, 'x) incoming_like" where
  "il_new_channel d x content_length wanter =
     \<lparr>il_content_length = content_length, il_want = (if wanter then WANT_PENDING else WANT_READY),
      il_data_rx = d, il_trailers_rx = x\<rparr>"

definition il_channel :: "'d \<Rightarrow> 'x \<Rightarrow> ('d, 'x) incoming_like" where
  "il_channel d x = il_new_channel d x CHUNKED False"

text \<open>What the sender learns from the watch value in \<open>poll_want\<close>; \<open>None\<close> is the \<open>unreachable!\<close>.\<close>

definition poll_want :: "usize \<Rightarrow> (rpxy_error + unit) poll option" where
  "poll_want w =
     (if w = WANT_READY then Some (Ready (Inr ()))
      else if w = WANT_PENDING then Some Pending
      else if w = WATCH_CLOSED then Some (Ready (Inl HyperIncomingLikeNewClosed))
      else None)"

subsection \<open>The body task\<close>

text \<open>
  The task that \<open>h3_serve_stream\<close> spawns.  Its inputs are what \<open>recv_data\<close> returns (the end of the list
  is the end of the stream), what \<open>poll_recv_trailers\<close> returns, and the number of channel operations
  that succeed before the receiver is dropped.  Its outputs are the items put into the data channel,
  the trailers sent and the task's result.
\<close>

definition effective_body_limit :: "usize option \<Rightarrow> usize option \<Rightarrow> usize option" where
  "effective_body_limit h3_limit limit = (case h3_limit of Some l \<Rightarrow> Some l | None \<Rightarrow> limit)"

fun h3_body_task :: "usize option \<Rightarrow> nat \<Rightarrow> usize \<Rightarrow> (rpxy_error + bytes) list \<Rightarrow> rpxy_error + 't option \<Rightarrow>
    (rpxy_error + bytes) list \<times> 't option \<times> (rpxy_error + unit)" where
  "h3_body_task limit alive sz [] trailers =
     (case trailers of
        Inl e \<Rightarrow> ([], None, Inl e)
      | Inr None \<Rightarrow> ([], None, Inr ())
      | Inr (Some t) \<Rightarrow> if alive = 0 then ([], None, Inl HyperIncomingLikeNewClosed) else ([], Some t, Inr ()))"
| "h3_body_task limit alive sz (Inl e # rest) trailers = ([], None, Inl e)"
| "h3_body_task limit alive sz (Inr body # rest) trailers =
     (let sz = sz + of_nat (length body)
      in if (case limit of None \<Rightarrow> False | Some limit \<Rightarrow> limit < sz)
         then (if alive = 0 then [] else [Inl HyperNewBodyWriteAborted], None, Inl H3TooLargeBody)
         else if alive = 0 then ([], None, Inl HyperIncomingLikeNewClosed)
         else case h3_body_task limit (alive - 1) sz rest trailers of (sent, t, r) \<Rightarrow> (Inr body # sent, t, r))"

text \<open>The receivers once the task has ended and dropped its senders: what was sent is still queued.\<close>

definition ended_rx :: "((rpxy_error + bytes) list \<times> bool, 't option, 't) channel_api" where
  "ended_rx =
     \<lparr>rx_terminated = snd,
      rx_poll_next = (\<lambda>(q, fin). case q of [] \<Rightarrow> (Ready None, ([], True)) | x # xs \<Rightarrow> (Ready (Some x), (xs, fin))),
      rx_poll_trailers = (\<lambda>x. (Ready (case x of None \<Rightarrow> Inl () | Some t \<Rightarrow> Inr t), None))\<rparr>"

text \<open>The polls of the handler on the body of an HTTP/3 request whose task has ended.\<close>

definition h3_body_polls :: "nat \<Rightarrow> (rpxy_error + bytes) list \<times> 't option \<times> (rpxy_error + unit) \<Rightarrow> (rpxy_error, 't) polled list" where
  "h3_body_polls n out = (case out of (sent, t, r) \<Rightarrow> fst (poll_times (il_poll_frame ended_rx) n (il_channel (sent, False) t)))"

fun item_bytes :: "rpxy_error + bytes \<Rightarrow> nat" where
  "item_bytes (Inr b) = length b"
| "item_bytes (Inl e) = 0"

abbreviation items_bytes :: "(rpxy_error + bytes) list \<Rightarrow> nat" where
  "items_bytes xs \<equiv> sum_list (map item_bytes xs)"

lemma usize_add_length:
  fixes sz l :: usize
  assumes "unat sz \<le> unat l" "unat l < 2 ^ 63" "n < 2 ^ 63"
  shows "unat (sz + of_nat n) = unat sz + n"
proof -
  have "unat (of_nat n :: usize) = n" using assms(3) by (simp add: unat_of_nat)
  then show ?thesis using assms by (simp add: unat_word_ariths)
qed

lemma h3_body_task_limit:
  assumes "unat sz \<le> unat l" "unat l < 2 ^ 63" "\<forall>c \<in> set recv. item_bytes c < 2 ^ 63"
    and "h3_body_task (Some l) alive sz recv trailers = (sent, t, r)"
  shows "unat sz + items_bytes sent \<le> unat l \<and> (r = Inr () \<longrightarrow> sent = recv \<and> trailers = Inr t)"
  using assms
proof (induction "Some l" alive sz recv trailers arbitrary: sent rule: h3_body_task.induct)
  case (3 alive sz body rest trailers)
  have len: "unat (sz + of_nat (length body)) = unat sz + length body"
    using usize_add_length [OF 3(2,3)] 3(4) by simp
  show ?case
  proof (cases "l < sz + of_nat (length body) \<or> alive = 0")
    case True
    then show ?thesis using 3(2,5) by (auto simp: Let_def split: if_splits)
  next
    case False
    then obtain sent' where s: "h3_body_task (Some l) (alive - 1) (sz + of_nat (length body)) rest trailers = (sent', t, r)"
        "sent = Inr body # sent'"
      using 3(5) by (auto simp: Let_def split: prod.splits)
    have le: "unat (sz + of_nat (length body)) \<le> unat l" using False by (simp add: word_less_nat_alt)
    show ?thesis
      using 3(1) [OF refl _ _ le 3(3) _ s(1)] 3(4) False s(2) len by (auto simp: add.assoc)
  qed
qed (auto split: sum.splits option.splits if_splits)

lemma h3_body_task_over:
  assumes "unat sz \<le> unat l" "unat l < 2 ^ 63" "\<forall>b \<in> set chunks. length b < 2 ^ 63"
    and "unat l < unat sz + sum_list (map length chunks)" "length chunks \<le> alive"
  shows "\<exists>k < length chunks. h3_body_task (Some l) alive sz (map Inr chunks) trailers =
           (map Inr (take k chunks) @ [Inl HyperNewBodyWriteAborted], None, Inl H3TooLargeBody)"
  using assms
proof (induction chunks arbitrary: sz alive)
  case (Cons b chunks)
  have len: "unat (sz + of_nat (length b)) = unat sz + length b"
    using usize_add_length [OF Cons.prems(1,2)] Cons.prems(3) by simp
  have alive: "alive \<noteq> 0" using Cons.prems(5) by auto
  show ?case
  proof (cases "l < sz + of_nat (length b)")
    case True
    then show ?thesis using alive by (intro exI [of _ 0]) (simp add: Let_def)
  next
    case False
    have al: "length chunks \<le> alive - 1" using Cons.prems(5) by simp
    have "unat (sz + of_nat (length b)) \<le> unat l" using False by (simp add: word_less_nat_alt)
    then obtain k where k: "k < length chunks" "h3_body_task (Some l) (alive - 1) (sz + of_nat (length b)) (map Inr chunks) trailers =
           (map Inr (take k chunks) @ [Inl HyperNewBodyWriteAborted], None, Inl H3TooLargeBody)"
      using Cons.IH [of "sz + of_nat (length b)" "alive - 1", OF _ _ _ _ al] Cons.prems len by (auto simp: add.assoc)
    then show ?thesis using False alive by (intro exI [of _ "Suc k"]) (simp add: Let_def)
  qed
qed simp

text \<open>
  HTTP/3 obeys the same limit.  The body task never hands more bytes than the limit to the handler
  (the running count cannot wrap for limits and chunks below \<open>2^63\<close>); it reports success only when
  every chunk and the trailers were passed on; and a body over the limit ends in the
  \<open>HyperNewBodyWriteAborted\<close> error, never in a clean end.
\<close>

theorem h3_body_limit:
  assumes "effective_body_limit h3_limit limit = Some l" "unat l < 2 ^ 63" "\<forall>b \<in> set chunks. length b < 2 ^ 63"
    and "h3_body_task (effective_body_limit h3_limit limit) alive 0 (map Inr chunks) trailers = (sent, t, r)"
  shows "items_bytes sent \<le> unat l \<and> (r = Inr () \<longrightarrow> sent = map Inr chunks \<and> trailers = Inr t) \<and>
         (unat l < sum_list (map length chunks) \<and> length chunks \<le> alive \<longrightarrow>
            r = Inl H3TooLargeBody \<and> t = None \<and> last sent = Inl HyperNewBodyWriteAborted)"
proof -
  have run: "h3_body_task (Some l) alive 0 (map Inr chunks) trailers = (sent, t, r)" using assms(1,4) by simp
  have "items_bytes sent \<le> unat l \<and> (r = Inr () \<longrightarrow> sent = map Inr chunks \<and> trailers = Inr t)"
    using h3_body_task_limit [OF _ assms(2) _ run] assms(3) by simp
  moreover have "r = Inl H3TooLargeBody \<and> t = None \<and> last sent = Inl HyperNewBodyWriteAborted"
    if "unat l < sum_list (map length chunks)" "length chunks \<le> alive"
    using h3_body_task_over [OF _ assms(2,3) _ that(2), of 0 trailers] that(1) run by auto
  ultimately show ?thesis by blast
qed

theorem h3_body_limit_witness:
  "items_bytes (fst (h3_body_task (effective_body_limit None (Some 4)) 3 0 (map Inr [''abc'', ''de'']) (Inr (None :: unit option)))) \<le> 4 \<and>
   last (fst (h3_body_task (effective_body_limit None (Some 4)) 3 0 (map Inr [''abc'', ''de'']) (Inr (None :: unit option)))) =
     Inl HyperNewBodyWriteAborted"
proof -
  obtain sent t r where run: "h3_body_task (effective_body_limit None (Some 4)) 3 0 (map Inr [''abc'', ''de'']) (Inr (None :: unit option)) = (sent, t, r)"
    by (metis prod_cases3)
  show ?thesis using h3_body_limit [OF _ _ _ run, of 4] run by (simp add: effective_body_limit_def)
qed

lemma h3_body_task_reset:
  fixes trailers :: "rpxy_error + 't option"
  defines "reset \<equiv> \<lambda>limit alive sz chunks e. h3_body_task limit alive sz (map Inr chunks @ [Inl e]) trailers"
    and "complete \<equiv> \<lambda>limit alive sz chunks. h3_body_task limit alive sz (map Inr chunks) (Inr (None :: 't option))"
  shows "fst (reset limit alive sz chunks e) = fst (complete limit alive sz chunks) \<and>
         fst (snd (reset limit alive sz chunks e)) = fst (snd (complete limit alive sz chunks))"
  unfolding assms
  by (induction chunks arbitrary: alive sz) (auto simp: Let_def case_prod_unfold)

lemma h3_body_polls_all:
  "fst (poll_times (il_poll_frame ended_rx) (Suc (length chunks)) \<lparr>il_content_length = CHUNKED, il_want = w,
      il_data_rx = (map Inr chunks, False), il_trailers_rx = (None :: 't option)\<rparr>) =
   map (\<lambda>b. Ready (Some (Inr (DataFrame b)))) chunks @ [Ready None]"
proof (induction chunks arbitrary: w)
  case Nil
  then show ?case by (simp add: il_poll_frame_def il_poll_trailers_def ended_rx_def)
next
  case (Cons b chunks)
  have "il_poll_frame ended_rx \<lparr>il_content_length = CHUNKED, il_want = w,
      il_data_rx = (map Inr (b # chunks), False), il_trailers_rx = (None :: 't option)\<rparr> =
    (Ready (Some (Inr (DataFrame b))), \<lparr>il_content_length = CHUNKED, il_want = WANT_READY,
      il_data_rx = (map Inr chunks, False), il_trailers_rx = None\<rparr>)"
    by (simp add: il_poll_frame_def ended_rx_def sub_if_def)
  then show ?case
    using Cons.IH [of WANT_READY] by (simp add: case_prod_unfold del: poll_times.simps(2) add: poll_times.simps(2) [of _ "Suc (length chunks)"])
qed

text \<open>
  C39: A reset stream is indistinguishable from a finished one.  When the client resets an HTTP/3 stream
  in the middle of a body, \<open>recv_data\<close> fails and the task drops its sender without \<open>abort\<close>: the
  handler, and the upstream behind it, sees the chunks so far and then a clean end of the body, poll
  by poll the same as for a body that was complete at this point.
\<close>

theorem h3_reset_looks_complete:
  fixes trailers :: "rpxy_error + 't option"
  assumes "h3_body_task limit alive 0 (map Inr chunks) (Inr (None :: 't option)) = (map Inr chunks, None, Inr ())"
  shows "h3_body_polls (Suc (length chunks)) (h3_body_task limit alive 0 (map Inr chunks @ [Inl e]) trailers) =
           map (\<lambda>b. Ready (Some (Inr (DataFrame b)))) chunks @ [Ready None] \<and>
         h3_body_polls n (h3_body_task limit alive 0 (map Inr chunks @ [Inl e]) trailers) =
           h3_body_polls n (h3_body_task limit alive 0 (map Inr chunks) (Inr None))"
  using h3_body_task_reset [of limit alive 0 chunks e trailers] h3_body_polls_all [of chunks WANT_READY] assms
  by (simp add: h3_body_polls_def case_prod_unfold il_channel_def il_new_channel_def del: poll_times.simps)

theorem h3_reset_looks_complete_witness:
  "h3_body_polls (Suc (Suc 0)) (h3_body_task (Some 10) 5 0 [Inr ''abc'', Inl H3StreamError] (Inr (None :: unit option))) =
     [Ready (Some (Inr (DataFrame ''abc''))), Ready None]"
  using h3_reset_looks_complete [where limit = "Some 10" and alive = 5 and chunks = "[''abc'']" and e = H3StreamError
      and trailers = "Inr (None :: unit option)", THEN conjunct1] by (simp add: Let_def)

end
