(* ===== verification/Cache_Spool.thy ===== *)
theory Cache_Spool
  imports Request_Body Http_Api
begin

text \<open>
  Storing a response while it is relayed (\<open>forwarder/cache/cache_main.rs\<close>: \<open>unique_cache_paths\<close>,
  \<open>SpillFile\<close>, \<open>spool_and_store\<close>).  The file system is explicit: a map from paths to contents, and an
  outcome for every operation (\<open>io\<close>), so that every I/O failure is a run of the model.  SHA-256
  and base64 are arguments.
\<close>

section \<open>Errors and the file system\<close>

datatype cache_error =
    NullRequestOrResponse
  | FailedToAcquiredMutexLockForCache
  | FailedToAcquiredMutexLockForCheck
  | FailedToCreateFileCache
  | FailedToWriteFileCache
  | FailedToRenameCacheFile
  | FailedToOpenCacheFile
  | FailedToSendFrameFromCache
  | FailedToRemoveCacheFile
  | HashMismatchedInCacheFile

type_synonym path = bytes

text \<open>A failed write may have written a prefix; the number says how long.\<close>

datatype io_op = OpCreate | OpWrite | OpFlush | OpRename | OpRemove
datatype io_result = IoOk | IoErr nat
type_synonym io = "io_op \<Rightarrow> nat \<Rightarrow> io_result"

record file_system =
  fs_disk :: "path \<Rightarrow> bytes option"
  fs_ops :: nat

definition fs_outcome :: "io \<Rightarrow> io_op \<Rightarrow> file_system \<Rightarrow> io_result \<times> file_system" where
  "fs_outcome io p fs = (io p (fs_ops fs), fs\<lparr>fs_ops := Suc (fs_ops fs)\<rparr>)"

definition fs_create_new :: "io \<Rightarrow> path \<Rightarrow> file_system \<Rightarrow> bool \<times> file_system" where
  "fs_create_new io p fs =
     (case fs_outcome io OpCreate fs of (r, fs) \<Rightarrow>
        if r = IoOk \<and> fs_disk fs p = None then (True, fs\<lparr>fs_disk := (fs_disk fs)(p \<mapsto> [])\<rparr>) else (False, fs))"

definition fs_write_all :: "io \<Rightarrow> path \<Rightarrow> bytes \<Rightarrow> file_system \<Rightarrow> bool \<times> file_system" where
  "fs_write_all io p d fs =
     (case fs_outcome io OpWrite fs of (r, fs) \<Rightarrow>
        (r = IoOk,
         fs\<lparr>fs_disk := (fs_disk fs)(p := map_option (\<lambda>c. c @ (case r of IoOk \<Rightarrow> d | IoErr n \<Rightarrow> take n d)) (fs_disk fs p))\<rparr>))"

definition fs_flush :: "io \<Rightarrow> file_system \<Rightarrow> bool \<times> file_system" where
  "fs_flush io fs = (case fs_outcome io OpFlush fs of (r, fs) \<Rightarrow> (r = IoOk, fs))"

definition fs_rename :: "io \<Rightarrow> path \<Rightarrow> path \<Rightarrow> file_system \<Rightarrow> bool \<times> file_system" where
  "fs_rename io a b fs =
     (case fs_outcome io OpRename fs of (r, fs) \<Rightarrow>
        if r = IoOk \<and> fs_disk fs a \<noteq> None then (True, fs\<lparr>fs_disk := (fs_disk fs)(a := None, b := fs_disk fs a)\<rparr>) else (False, fs))"

datatype removal = Removed | NotFound | RemovalFailed

definition fs_remove_file :: "io \<Rightarrow> path \<Rightarrow> file_system \<Rightarrow> removal \<times> file_system" where
  "fs_remove_file io p fs =
     (case fs_outcome io OpRemove fs of (r, fs) \<Rightarrow>
        if r \<noteq> IoOk then (RemovalFailed, fs)
        else if fs_disk fs p = None then (NotFound, fs)
        else (Removed, fs\<lparr>fs_disk := (fs_disk fs)(p := None)\<rparr>))"

section \<open>Paths\<close>

text \<open>The digest and the encoding the file names are made of.\<close>

record cache_digest =
  digest_sha256 :: "bytes \<Rightarrow> bytes"
  digest_base64 :: "bytes \<Rightarrow> bytes"

text \<open>\<open>Path::join\<close> with a relative name.\<close>

definition path_join :: "path \<Rightarrow> bytes \<Rightarrow> path" where
  "path_join dir name = (if dir = [] \<or> last dir = CHR ''/'' then dir @ name else dir @ ''/'' @ name)"

definition derive_filename_from_uri :: "cache_digest \<Rightarrow> 'u uri_api \<Rightarrow> 'u \<Rightarrow> bytes" where
  "derive_filename_from_uri D U uri = digest_base64 D (digest_sha256 D (uri_display U uri))"

definition unique_cache_paths :: "cache_digest \<Rightarrow> 'u uri_api \<Rightarrow> nat \<Rightarrow> path \<Rightarrow> 'u \<Rightarrow> nat \<Rightarrow> u64 \<Rightarrow> path \<times> path" where
  "unique_cache_paths D U pid cache_dir uri nanos seq =
     (let base = derive_filename_from_uri D U uri;
          unique = base @ ''-'' @ show_nat pid @ ''-'' @ show_nat nanos @ ''-'' @ show_nat (unat seq);
          final_path = path_join cache_dir unique;
          temp_path = path_join cache_dir (unique @ ''.tmp'')
      in (temp_path, final_path))"

section \<open>The spill file\<close>

text \<open>The pair of the temporary and the final path; the open file is the one at the temporary path.\<close>

type_synonym spill_file = "path \<times> path"

definition remove_uncounted_file :: "io \<Rightarrow> path \<Rightarrow> file_system \<Rightarrow> file_system" where
  "remove_uncounted_file io p fs = snd (fs_remove_file io p fs)"

definition spill_create :: "io \<Rightarrow> path \<times> path \<Rightarrow> file_system \<Rightarrow> (cache_error + spill_file) \<times> file_system" where
  "spill_create io paths fs =
     (case fs_create_new io (fst paths) fs of (ok, fs) \<Rightarrow> (if ok then Inr paths else Inl FailedToCreateFileCache, fs))"

definition spill_write :: "io \<Rightarrow> spill_file \<Rightarrow> bytes \<Rightarrow> file_system \<Rightarrow> (cache_error + unit) \<times> file_system" where
  "spill_write io s d fs =
     (case fs_write_all io (fst s) d fs of (ok, fs) \<Rightarrow> (if ok then Inr () else Inl FailedToWriteFileCache, fs))"

definition spill_commit :: "io \<Rightarrow> spill_file \<Rightarrow> file_system \<Rightarrow> (cache_error + path) \<times> file_system" where
  "spill_commit io s fs =
     (case fs_flush io fs of (ok, fs) \<Rightarrow>
        if \<not> ok then (Inl FailedToWriteFileCache, remove_uncounted_file io (fst s) fs)
        else case fs_rename io (fst s) (snd s) fs of (ok, fs) \<Rightarrow>
          if \<not> ok then (Inl FailedToRenameCacheFile, remove_uncounted_file io (fst s) fs)
          else (Inr (snd s), fs))"

definition spill_abort :: "io \<Rightarrow> spill_file \<Rightarrow> file_system \<Rightarrow> file_system" where
  "spill_abort io s fs = remove_uncounted_file io (fst s) fs"

section \<open>Spooling\<close>

datatype cache_target = TargetFile path | OnMemory bytes

record spool =
  sp_hashed :: bytes
  sp_buf :: bytes
  sp_size :: usize
  sp_cacheable :: bool
  sp_spill :: "spill_file option"
  sp_fs :: file_system

definition spool_init :: "file_system \<Rightarrow> spool" where
  "spool_init fs = \<lparr>sp_hashed = [], sp_buf = [], sp_size = 0, sp_cacheable = True, sp_spill = None, sp_fs = fs\<rparr>"

text \<open>\<open>if let Some(s) = spill.take() { s.abort() }\<close>\<close>

definition abort_spill :: "io \<Rightarrow> spool \<Rightarrow> spool" where
  "abort_spill io s =
     (case sp_spill s of None \<Rightarrow> s | Some f \<Rightarrow> s\<lparr>sp_spill := None, sp_fs := spill_abort io f (sp_fs s)\<rparr>)"

definition give_up :: "io \<Rightarrow> spool \<Rightarrow> spool" where
  "give_up io s = (abort_spill io (s\<lparr>sp_cacheable := False\<rparr>))\<lparr>sp_buf := []\<rparr>"

text \<open>Crossing the on-memory threshold.\<close>

definition spill_over :: "io \<Rightarrow> path \<times> path \<Rightarrow> bytes \<Rightarrow> spool \<Rightarrow> spool" where
  "spill_over io paths data s =
     (case spill_create io paths (sp_fs s) of
        (Inl _, fs) \<Rightarrow> s\<lparr>sp_fs := fs, sp_cacheable := False, sp_buf := []\<rparr>
      | (Inr f, fs) \<Rightarrow>
          (case spill_write io f (sp_buf s) fs of
             (Inl _, fs) \<Rightarrow> s\<lparr>sp_cacheable := False, sp_fs := spill_abort io f fs, sp_buf := []\<rparr>
           | (Inr _, fs) \<Rightarrow>
               (case spill_write io f data fs of
                  (Inl _, fs) \<Rightarrow> s\<lparr>sp_cacheable := False, sp_fs := spill_abort io f fs, sp_buf := []\<rparr>
                | (Inr _, fs) \<Rightarrow> s\<lparr>sp_spill := Some f, sp_fs := fs, sp_buf := []\<rparr>)))"

text \<open>What the loop does with a frame after it was sent downstream.\<close>

definition spool_frame :: "io \<Rightarrow> path \<times> path \<Rightarrow> usize \<Rightarrow> usize \<Rightarrow> 'e + 't frame \<Rightarrow> spool \<Rightarrow> spool" where
  "spool_frame io paths max_each_size max_each_size_on_memory frame s =
     (if \<not> sp_cacheable s then s
      else case frame of
        Inl _ \<Rightarrow> give_up io s
      | Inr (TrailersFrame _) \<Rightarrow> s
      | Inr (DataFrame data) \<Rightarrow>
          if max_each_size < saturating_add (sp_size s) (length data) then give_up io s
          else
            let s = s\<lparr>sp_size := saturating_add (sp_size s) (length data), sp_hashed := sp_hashed s @ data\<rparr>
            in case sp_spill s of
                 Some f \<Rightarrow>
                   (case spill_write io f data (sp_fs s) of
                      (Inl _, fs) \<Rightarrow> abort_spill io (s\<lparr>sp_cacheable := False, sp_fs := fs\<rparr>)
                    | (Inr _, fs) \<Rightarrow> s\<lparr>sp_fs := fs\<rparr>)
               | None \<Rightarrow>
                   if max_each_size_on_memory < saturating_add (of_nat (length (sp_buf s))) (length data)
                   then spill_over io paths data s
                   else s\<lparr>sp_buf := sp_buf s @ data\<rparr>)"

text \<open>
  The relay loop: \<open>alive\<close> sends succeed before the receiver is dropped.  The result is what was sent,
  whether the loop ran to its end, and the state.
\<close>

fun spool_loop :: "io \<Rightarrow> path \<times> path \<Rightarrow> usize \<Rightarrow> usize \<Rightarrow> nat \<Rightarrow> ('e + 't frame) list \<Rightarrow> spool \<Rightarrow>
    ('e + 't frame) list \<times> bool \<times> spool" where
  "spool_loop io paths m k alive [] s = ([], True, s)"
| "spool_loop io paths m k alive (frame # frames) s =
     (if alive = 0 then ([], False, abort_spill io s)
      else case spool_loop io paths m k (alive - 1) frames (spool_frame io paths m k frame s) of
        (sent, complete, s) \<Rightarrow> (frame # sent, complete, s))"

definition spool_finish :: "cache_digest \<Rightarrow> io \<Rightarrow> spool \<Rightarrow> (cache_target \<times> bytes) option \<times> file_system" where
  "spool_finish D io s =
     (if \<not> sp_cacheable s then (None, sp_fs s)
      else let hash = digest_sha256 D (sp_hashed s)
           in case sp_spill s of
                Some f \<Rightarrow>
                  (case spill_commit io f (sp_fs s) of
                     (Inr final_path, fs) \<Rightarrow> (Some (TargetFile final_path, hash), fs)
                   | (Inl _, fs) \<Rightarrow> (None, fs))
              | None \<Rightarrow> (Some (OnMemory (sp_buf s), hash), sp_fs s))"

definition spool_and_store :: "cache_digest \<Rightarrow> io \<Rightarrow> path \<times> path \<Rightarrow> usize \<Rightarrow> usize \<Rightarrow> nat \<Rightarrow> ('e + 't frame) list \<Rightarrow> file_system \<Rightarrow>
    ('e + 't frame) list \<times> (cache_target \<times> bytes) option \<times> file_system" where
  "spool_and_store D io paths max_each_size max_each_size_on_memory alive body fs =
     (case spool_loop io paths max_each_size max_each_size_on_memory alive body (spool_init fs) of
        (sent, complete, s) \<Rightarrow>
          if complete then (case spool_finish D io s of (r, fs) \<Rightarrow> (sent, r, fs)) else (sent, None, sp_fs s))"

section \<open>Relay\<close>

lemma spool_loop_sent: "fst (spool_loop io paths m k alive body s) = take alive body"
  by (induction body arbitrary: alive s) (auto simp: case_prod_unfold take_Cons split: nat.splits)

lemma spool_loop_complete: "fst (snd (spool_loop io paths m k alive body s)) \<longleftrightarrow> length body \<le> alive"
  by (induction body arbitrary: alive s) (auto simp: case_prod_unfold)

text \<open>
  The relay is never cut.  Whatever the limits, the paths and the outcomes of the file operations,
  the client gets every frame of the upstream body, errors included, in order, up to the point where
  it goes away itself.
\<close>

theorem spool_relays_all: "fst (spool_and_store D io paths m k alive body fs) = take alive body"
  using spool_loop_sent [of io paths m k alive body "spool_init fs"]
  by (auto simp: spool_and_store_def case_prod_unfold)

section \<open>What is stored\<close>

fun frame_data :: "'e + 't frame \<Rightarrow> bytes" where
  "frame_data (Inr (DataFrame d)) = d"
| "frame_data _ = []"

abbreviation body_data :: "('e + 't frame) list \<Rightarrow> bytes" where
  "body_data body \<equiv> concat (map frame_data body)"

abbreviation error_free :: "('e + 't frame) list \<Rightarrow> bool" where
  "error_free body \<equiv> list_all (\<lambda>f. \<not> isl f) body"

definition removals_ok :: "io \<Rightarrow> bool" where
  "removals_ok io \<longleftrightarrow> (\<forall>n. io OpRemove n = IoOk)"

subsection \<open>The file operations\<close>

lemma abort_other: "q \<noteq> fst f \<Longrightarrow> fs_disk (spill_abort io f fs) q = fs_disk fs q"
  by (auto simp: spill_abort_def remove_uncounted_file_def fs_remove_file_def fs_outcome_def)

lemma abort_disk: "removals_ok io \<Longrightarrow> fs_disk (spill_abort io f fs) = (fs_disk fs)(fst f := None)"
  by (auto simp: spill_abort_def remove_uncounted_file_def fs_remove_file_def fs_outcome_def removals_ok_def)

lemma create_disk:
  "spill_create io paths fs = (Inl e, fs') \<Longrightarrow> fs_disk fs' = fs_disk fs"
  "spill_create io paths fs = (Inr f, fs') \<Longrightarrow> f = paths \<and> fs_disk fs' = (fs_disk fs)(fst paths \<mapsto> [])"
  by (auto simp: spill_create_def fs_create_new_def fs_outcome_def split: if_splits)

lemma write_disk:
  "spill_write io f d fs = (Inr u, fs') \<Longrightarrow> fs_disk fs' = (fs_disk fs)(fst f := map_option (\<lambda>c. c @ d) (fs_disk fs (fst f)))"
  "spill_write io f d fs = (r, fs') \<Longrightarrow> q \<noteq> fst f \<Longrightarrow> fs_disk fs' q = fs_disk fs q"
  by (auto simp: spill_write_def fs_write_all_def fs_outcome_def split: if_splits)

lemma commit_disk:
  "spill_commit io f fs = (Inr p, fs') \<Longrightarrow> p = snd f \<and> fs_disk fs' = (fs_disk fs)(fst f := None, snd f := fs_disk fs (fst f))"
  "spill_commit io f fs = (Inl e, fs') \<Longrightarrow> q \<noteq> fst f \<Longrightarrow> fs_disk fs' q = fs_disk fs q"
  "spill_commit io f fs = (Inl e, fs') \<Longrightarrow> removals_ok io \<Longrightarrow> fs_disk fs' (fst f) = None"
  by (auto simp: spill_commit_def fs_flush_def fs_rename_def remove_uncounted_file_def fs_remove_file_def fs_outcome_def
      removals_ok_def split: if_splits)

subsection \<open>The invariant of the loop\<close>

definition spool_inv :: "io \<Rightarrow> path \<times> path \<Rightarrow> usize \<Rightarrow> usize \<Rightarrow> (path \<Rightarrow> bytes option) \<Rightarrow> ('e + 't frame) list \<Rightarrow> spool \<Rightarrow> bool" where
  "spool_inv io paths m k disk seen s \<longleftrightarrow>
     (\<forall>q. q \<noteq> fst paths \<longrightarrow> fs_disk (sp_fs s) q = disk q) \<and>
     (if sp_cacheable s
      then error_free seen \<and> sp_hashed s = body_data seen \<and> unat (sp_size s) = length (sp_hashed s) \<and>
           length (sp_hashed s) \<le> unat m \<and>
           (case sp_spill s of
              None \<Rightarrow> sp_buf s = sp_hashed s \<and> length (sp_hashed s) \<le> unat k \<and> fs_disk (sp_fs s) (fst paths) = None
            | Some f \<Rightarrow> f = paths \<and> unat k < length (sp_hashed s) \<and> fs_disk (sp_fs s) (fst paths) = Some (sp_hashed s))
      else sp_spill s = None \<and> (removals_ok io \<longrightarrow> fs_disk (sp_fs s) (fst paths) = None))"

lemma spool_inv_init: "fs_disk fs (fst paths) = None \<Longrightarrow> spool_inv io paths m k (fs_disk fs) [] (spool_init fs)"
  by (simp add: spool_inv_def spool_init_def)

lemma spool_inv_abort:
  assumes "spool_inv io paths m k disk seen s" "sp_cacheable s"
  shows "(\<forall>q. q \<noteq> fst paths \<longrightarrow> fs_disk (sp_fs (abort_spill io s)) q = disk q) \<and> sp_spill (abort_spill io s) = None \<and>
         (removals_ok io \<longrightarrow> fs_disk (sp_fs (abort_spill io s)) (fst paths) = None)"
  using assms by (auto simp: spool_inv_def abort_spill_def abort_other abort_disk split: option.splits)

lemma spool_inv_give_up:
  assumes "spool_inv io paths m k disk seen s" "sp_cacheable s"
  shows "spool_inv io paths m k disk seen' (give_up io s)"
  using spool_inv_abort [OF assms]
  by (auto simp: spool_inv_def give_up_def abort_spill_def split: option.splits)

lemma spool_inv_spill_over:
  assumes disk: "\<forall>q. q \<noteq> fst paths \<longrightarrow> fs_disk (sp_fs s) q = disk q" "fs_disk (sp_fs s) (fst paths) = None"
    and s: "sp_cacheable s" "sp_spill s = None" "error_free seen" "sp_hashed s = body_data seen"
      "unat (sp_size s) = length (sp_hashed s)" "length (sp_hashed s) \<le> unat m" "sp_hashed s = sp_buf s @ data"
      "unat k < length (sp_hashed s)"
  shows "spool_inv io paths m k disk seen (spill_over io paths data s)"
proof (cases "spill_create io paths (sp_fs s)")
  case (Pair r fs1)
  show ?thesis
  proof (cases r)
    case (Inl e)
    then show ?thesis using create_disk(1) [of io paths "sp_fs s" e fs1] Pair disk s
      by (simp add: spool_inv_def spill_over_def)
  next
    case (Inr f)
    have c: "f = paths" "fs_disk fs1 = (fs_disk (sp_fs s))(fst paths \<mapsto> [])"
      using create_disk(2) [of io paths "sp_fs s" f fs1] Pair Inr by auto
    obtain r2 fs2 where w2: "spill_write io paths (sp_buf s) fs1 = (r2, fs2)" by fastforce
    obtain r3 fs3 where w3: "spill_write io paths data fs2 = (r3, fs3)" by fastforce
    have o2: "\<forall>q. q \<noteq> fst paths \<longrightarrow> fs_disk fs2 q = disk q" using write_disk(2) [OF w2] c disk by auto
    have o3: "\<forall>q. q \<noteq> fst paths \<longrightarrow> fs_disk fs3 q = disk q" using write_disk(2) [OF w3] o2 by auto
    have ok: "fs_disk fs3 (fst paths) = Some (sp_hashed s)" if "r2 = Inr ()" "r3 = Inr ()"
      using write_disk(1) [OF w2 [unfolded that(1)]] write_disk(1) [OF w3 [unfolded that(2)]] c s(7) by simp
    show ?thesis
      using o2 o3 ok s Pair Inr c(1) w2 w3
      by (cases r2; cases r3) (auto simp: spool_inv_def spill_over_def abort_other abort_disk)
  qed
qed

lemma spool_inv_data:
  fixes m k :: usize
  assumes inv: "spool_inv io paths m k disk seen s" and m: "unat m < 2 ^ 64 - 1"
    and c: "sp_cacheable s" and le: "\<not> m < saturating_add (sp_size s) (length data)"
  shows "spool_inv io paths m k disk (seen @ [Inr (DataFrame data)]) (spool_frame io paths m k (Inr (DataFrame data)) s)"
proof -
  let ?h = "sp_hashed s @ data"
  have size: "unat (sp_size s) = length (sp_hashed s)" "error_free seen" "sp_hashed s = body_data seen"
    using inv c by (simp_all add: spool_inv_def)
  have len: "length ?h \<le> unat m" "unat (saturating_add (sp_size s) (length data)) = length ?h"
    using le m size(1) by (auto simp: word_less_nat_alt unat_saturating_add min_def split: if_splits)
  define s1 where "s1 = s\<lparr>sp_size := saturating_add (sp_size s) (length data), sp_hashed := ?h\<rparr>"
  have other: "\<forall>q. q \<noteq> fst paths \<longrightarrow> fs_disk (sp_fs s) q = disk q" using inv by (simp add: spool_inv_def)
  show ?thesis
  proof (cases "sp_spill s")
    case None
    have n: "sp_buf s = sp_hashed s" "length (sp_hashed s) \<le> unat k" "fs_disk (sp_fs s) (fst paths) = None"
      using inv c None unfolding spool_inv_def by auto
    have lt: "k < saturating_add (of_nat (length (sp_buf s))) (length data) \<longleftrightarrow> unat k < length ?h"
    proof -
      have "unat (of_nat (length (sp_buf s)) :: usize) = length (sp_buf s)"
        using n len(1) m by (simp add: unat_of_nat)
      then show ?thesis using n(1) len(1) m by (simp add: word_less_nat_alt unat_saturating_add min_def)
    qed
    show ?thesis
    proof (cases "unat k < length ?h")
      case True
      have "spool_inv io paths m k disk (seen @ [Inr (DataFrame data)]) (spill_over io paths data s1)"
        by (rule spool_inv_spill_over) (use True n None len c size other in \<open>simp_all add: s1_def\<close>)
      then show ?thesis using True None le c lt by (simp add: spool_frame_def s1_def)
    next
      case False
      then show ?thesis using None le c lt n len size other by (simp add: spool_frame_def spool_inv_def)
    qed
  next
    case (Some f)
    have f: "f = paths" "unat k < length (sp_hashed s)" "fs_disk (sp_fs s) (fst paths) = Some (sp_hashed s)"
      using inv c Some unfolding spool_inv_def by auto
    obtain r fs where w: "spill_write io paths data (sp_fs s) = (r, fs)" by fastforce
    have o: "\<forall>q. q \<noteq> fst paths \<longrightarrow> fs_disk fs q = disk q" using write_disk(2) [OF w] other by auto
    have ok: "fs_disk fs (fst paths) = Some ?h" if "r = Inr ()"
      using write_disk(1) [OF w [unfolded that]] f(3) by simp
    show ?thesis
      using o ok Some f le c len size w
      by (cases r) (auto simp: spool_frame_def spool_inv_def abort_spill_def abort_other abort_disk)
  qed
qed

lemma spool_inv_frame:
  assumes "spool_inv io paths m k disk seen s" "unat m < 2 ^ 64 - 1"
  shows "spool_inv io paths m k disk (seen @ [frame]) (spool_frame io paths m k frame s)"
proof (cases "sp_cacheable s")
  case False
  then show ?thesis using assms by (simp add: spool_frame_def spool_inv_def)
next
  case True
  show ?thesis
  proof (cases frame)
    case (Inl e)
    then show ?thesis using spool_inv_give_up [OF assms(1) True] True by (simp add: spool_frame_def)
  next
    case (Inr f)
    show ?thesis
    proof (cases f)
      case (DataFrame d)
      then show ?thesis
        using spool_inv_data [OF assms True] spool_inv_give_up [OF assms(1) True] True Inr
        by (cases "m < saturating_add (sp_size s) (length d)") (auto simp: spool_frame_def)
    next
      case (TrailersFrame t)
      then show ?thesis using assms(1) True Inr by (auto simp: spool_frame_def spool_inv_def)
    qed
  qed
qed

lemma spool_inv_loop:
  assumes "spool_inv io paths m k disk seen s" "unat m < 2 ^ 64 - 1"
    and "spool_loop io paths m k alive body s = (sent, True, s')"
  shows "spool_inv io paths m k disk (seen @ body) s'"
  using assms
proof (induction body arbitrary: alive s seen sent)
  case (Cons f body)
  then show ?case
    using Cons.IH [OF spool_inv_frame [OF Cons.prems(1,2), of f]] by (auto split: if_splits prod.splits)
qed simp

lemma spool_inv_loop_dropped:
  fixes seen body :: "('e + 't frame) list"
  assumes "spool_inv io paths m k disk seen s" "unat m < 2 ^ 64 - 1"
    and "spool_loop io paths m k alive body s = (sent, False, s')"
  shows "(\<forall>q. q \<noteq> fst paths \<longrightarrow> fs_disk (sp_fs s') q = disk q) \<and>
         (removals_ok io \<longrightarrow> fs_disk (sp_fs s') (fst paths) = None)"
  using assms
proof (induction body arbitrary: alive s seen sent)
  case (Cons f body)
  show ?case
  proof (cases "alive = 0")
    case True
    then have s': "s' = abort_spill io s" using Cons.prems(3) by simp
    show ?thesis
      using spool_inv_abort [OF Cons.prems(1)] Cons.prems(1) unfolding s'
      by (cases "sp_cacheable s") (auto simp: spool_inv_def abort_spill_def)
  next
    case False
    then show ?thesis
      using Cons.IH [OF spool_inv_frame [OF Cons.prems(1,2), of f]] Cons.prems(2,3) by (auto split: prod.splits)
  qed
qed simp

lemma stored_object_aux:
  fixes m k :: usize and body :: "('e + 't frame) list"
  assumes m: "unat m < 2 ^ 64 - 1" and paths: "fst paths \<noteq> snd paths" "fs_disk fs (fst paths) = None"
    and run: "spool_and_store D io paths m k alive body fs = (sent, Some (target, hash), fs')"
  shows "sent = body \<and> error_free body \<and> length (body_data body) \<le> unat m \<and> hash = digest_sha256 D (body_data body) \<and>
         (if length (body_data body) \<le> unat k
          then target = OnMemory (body_data body) \<and> fs_disk fs' = fs_disk fs
          else target = TargetFile (snd paths) \<and> fs_disk fs' = (fs_disk fs)(snd paths \<mapsto> body_data body))"
proof -
  obtain c s where l: "spool_loop io paths m k alive body (spool_init fs) = (sent, c, s)"
    using run by (auto simp: spool_and_store_def split: prod.splits if_splits)
  have c: "c" using run l by (cases c) (simp_all add: spool_and_store_def)
  have fin: "spool_finish D io s = (Some (target, hash), fs')"
    using run l c by (auto simp: spool_and_store_def split: prod.splits)
  have inv: "spool_inv io paths m k (fs_disk fs) body s"
    using spool_inv_loop [OF spool_inv_init [OF paths(2)] m] l c by simp
  have sent: "sent = body"
    using spool_loop_sent [of io paths m k alive body "spool_init fs"]
      spool_loop_complete [of io paths m k alive body "spool_init fs"] l c by simp
  have ca: "sp_cacheable s" using fin by (cases "sp_cacheable s") (simp_all add: spool_finish_def)
  have i: "error_free body" "sp_hashed s = body_data body" "length (body_data body) \<le> unat m"
      "\<forall>q. q \<noteq> fst paths \<longrightarrow> fs_disk (sp_fs s) q = fs_disk fs q"
    using inv ca unfolding spool_inv_def by auto
  show ?thesis
  proof (cases "sp_spill s")
    case None
    have "sp_buf s = body_data body" "length (body_data body) \<le> unat k" "fs_disk (sp_fs s) (fst paths) = None"
      using inv ca None unfolding spool_inv_def by auto
    moreover have "fs_disk (sp_fs s) = fs_disk fs" using i(4) calculation(3) paths(2) by (metis ext)
    ultimately show ?thesis using fin ca None sent i by (simp add: spool_finish_def)
  next
    case (Some f)
    have f: "f = paths" "unat k < length (body_data body)" "fs_disk (sp_fs s) (fst paths) = Some (body_data body)"
      using inv ca Some unfolding spool_inv_def by auto
    obtain fp where com: "spill_commit io paths (sp_fs s) = (Inr fp, fs')"
      and t: "target = TargetFile fp" "hash = digest_sha256 D (sp_hashed s)"
      using fin ca Some f(1) by (auto simp: spool_finish_def Let_def split: prod.splits sum.splits)
    have "fp = snd paths" "fs_disk fs' = (fs_disk (sp_fs s))(fst paths := None, snd paths := Some (body_data body))"
      using commit_disk(1) [OF com] f(3) by auto
    moreover have "(fs_disk (sp_fs s))(fst paths := None, snd paths := Some (body_data body)) =
        (fs_disk fs)(snd paths \<mapsto> body_data body)"
      using i(4) paths by auto
    ultimately show ?thesis using sent i f(2) t by simp
  qed
qed

text \<open>
  C25: What is stored is the response.  If the object is reported stored, the client was still there
  at the end, the upstream sent no error, the object is the whole body and within the size limit, and
  the hash is its digest; it is kept on memory exactly up to the on-memory limit, and otherwise the
  committed file holds it, no temporary file is left, and no other file was touched.
\<close>

theorem stored_object_exact:
  fixes m k :: usize and body :: "('e + 't frame) list"
  assumes m: "unat m < 2 ^ 64 - 1" and paths: "fst paths \<noteq> snd paths" "fs_disk fs (fst paths) = None"
    and run: "spool_and_store D io paths m k alive body fs = (sent, Some (target, hash), fs')"
  shows "sent = body \<and> error_free body \<and> length (body_data body) \<le> unat m \<and> hash = digest_sha256 D (body_data body) \<and>
         (if length (body_data body) \<le> unat k
          then target = OnMemory (body_data body) \<and> fs_disk fs' = fs_disk fs
          else target = TargetFile (snd paths) \<and> fs_disk fs' = (fs_disk fs)(snd paths \<mapsto> body_data body))"
  using assms by (rule stored_object_aux)

text \<open>Fault-free I/O.\<close>

definition io_ok :: io where "io_ok = (\<lambda>_ _. IoOk)"

lemma spool_frame_cacheable:
  assumes inv: "spool_inv io_ok paths m k disk seen s" and m: "unat m < 2 ^ 64 - 1"
    and c: "sp_cacheable s" "\<not> isl frame" "length (body_data (seen @ [frame])) \<le> unat m"
  shows "sp_cacheable (spool_frame io_ok paths m k frame s)"
proof (cases frame rule: frame_data.cases)
  case (1 d)
  have size: "unat (sp_size s) = length (body_data seen)" using inv c(1) unfolding spool_inv_def by auto
  then have nlt: "\<not> m < saturating_add (sp_size s) (length d)"
    using 1 c(3) m by (simp add: word_less_nat_alt unat_saturating_add)
  have none: "fs_disk (sp_fs s) (fst paths) = None" if "sp_spill s = None"
    using inv c(1) that unfolding spool_inv_def by auto
  show ?thesis
    using 1 nlt none c(1)
    by (auto simp: spool_frame_def Let_def spill_over_def spill_create_def spill_write_def fs_create_new_def fs_write_all_def
        fs_outcome_def io_ok_def split: option.splits)
qed (use c in \<open>simp_all add: spool_frame_def\<close>)

lemma spool_loop_cacheable:
  assumes "spool_inv io_ok paths m k disk seen s" "unat m < 2 ^ 64 - 1" "sp_cacheable s"
    and "error_free body" "length (body_data (seen @ body)) \<le> unat m"
    and "spool_loop io_ok paths m k alive body s = (sent, True, s')"
  shows "sp_cacheable s'"
  using assms
proof (induction body arbitrary: alive s seen sent)
  case (Cons f body)
  have c: "sp_cacheable (spool_frame io_ok paths m k f s)"
    using spool_frame_cacheable [OF Cons.prems(1-3)] Cons.prems(4,5) by auto
  show ?case
    using Cons.IH [OF spool_inv_frame [OF Cons.prems(1,2), of f] Cons.prems(2) c] Cons.prems(4-6)
    by (auto split: if_splits prod.splits)
qed simp

lemma spool_residue_aux:
  fixes m k :: usize and body :: "('e + 't frame) list"
  assumes m: "unat m < 2 ^ 64 - 1" and paths: "fs_disk fs (fst paths) = None"
    and run: "spool_and_store D io paths m k alive body fs = (sent, result, fs')"
  shows "(removals_ok io \<and> result = None \<longrightarrow> fs_disk fs' = fs_disk fs) \<and>
         (io = io_ok \<and> error_free body \<and> length (body_data body) \<le> unat m \<and> length body \<le> alive \<longrightarrow> result \<noteq> None)"
proof -
  obtain c s where l: "spool_loop io paths m k alive body (spool_init fs) = (sent, c, s)"
    using run by (auto simp: spool_and_store_def split: prod.splits if_splits)
  note init = spool_inv_init [OF paths, of io m k]
  have eq: "d = fs_disk fs" if "\<forall>q. q \<noteq> fst paths \<longrightarrow> d q = fs_disk fs q" "d (fst paths) = None" for d
    using that paths by (metis ext)
  have residue: "fs_disk fs' = fs_disk fs" if r: "removals_ok io" "result = None"
  proof (cases c)
    case False
    then have s: "spool_loop io paths m k alive body (spool_init fs) = (sent, False, s)" "fs' = sp_fs s"
      using l run by (simp_all add: spool_and_store_def)
    show ?thesis unfolding s(2) by (rule eq) (use spool_inv_loop_dropped [OF init m s(1)] r(1) in auto)
  next
    case True
    have fin: "spool_finish D io s = (None, fs')" using run l True r(2) by (auto simp: spool_and_store_def split: prod.splits)
    have inv: "spool_inv io paths m k (fs_disk fs) body s" using spool_inv_loop [OF init m] l True by simp
    then have o: "\<forall>q. q \<noteq> fst paths \<longrightarrow> fs_disk (sp_fs s) q = fs_disk fs q" by (simp add: spool_inv_def)
    show ?thesis
    proof (cases "sp_cacheable s")
      case False
      then show ?thesis using inv fin r(1) o eq by (simp add: spool_inv_def spool_finish_def)
    next
      case True
      then obtain f e where f: "sp_spill s = Some f" "spill_commit io f (sp_fs s) = (Inl e, fs')"
        using fin by (auto simp: spool_finish_def Let_def split: option.splits prod.splits sum.splits)
      have "f = paths" using inv True f(1) by (simp add: spool_inv_def)
      then show ?thesis using commit_disk(2,3) [OF f(2)] o r(1) by (intro eq) auto
    qed
  qed
  have stored: "result \<noteq> None" if ok: "io = io_ok" "error_free body" "length (body_data body) \<le> unat m" "length body \<le> alive"
  proof -
    have c: "c" using spool_loop_complete [of io paths m k alive body "spool_init fs"] l ok(4) by simp
    have ca: "sp_cacheable s"
      using spool_loop_cacheable [OF init [unfolded ok(1)] m _ ok(2)] l c ok by (simp add: spool_init_def)
    have inv: "spool_inv io paths m k (fs_disk fs) body s" using spool_inv_loop [OF init m] l c by simp
    have "spool_finish D io s = (result, fs')" using run l c by (auto simp: spool_and_store_def split: prod.splits)
    then show ?thesis
      using ca inv ok(1)
      by (auto simp: spool_finish_def spool_inv_def spill_commit_def fs_flush_def fs_rename_def fs_outcome_def io_ok_def Let_def
          split: option.splits)
  qed
  show ?thesis using residue stored by blast
qed

lemma spool_no_residue_aux:
  fixes m k :: usize and body :: "('e + 't frame) list"
  assumes "unat m < 2 ^ 64 - 1" "fs_disk fs (fst paths) = None"
    and "spool_and_store D io_ok paths m k alive body fs = (sent, result, fs')"
    and "error_free body" "length (body_data body) \<le> unat m" "length body \<le> alive"
  shows "result \<noteq> None"
  using spool_residue_aux [OF assms(1-3)] assms(4-6) by blast

text \<open>
  Nothing is left behind and nothing is missed.  If the object is not stored and files can be
  removed, the disk is as before, whatever else failed; and without I/O faults an error-free body
  within the limit whose client stays is always stored.
\<close>

theorem spool_no_residue:
  fixes m k :: usize and body :: "('e + 't frame) list"
  assumes m: "unat m < 2 ^ 64 - 1" and paths: "fs_disk fs (fst paths) = None"
    and run: "spool_and_store D io paths m k alive body fs = (sent, result, fs')"
  shows "(removals_ok io \<and> result = None \<longrightarrow> fs_disk fs' = fs_disk fs) \<and>
         (io = io_ok \<and> error_free body \<and> length (body_data body) \<le> unat m \<and> length body \<le> alive \<longrightarrow> result \<noteq> None)"
  using assms by (rule spool_residue_aux)

definition sample_digest :: cache_digest where
  "sample_digest = \<lparr>digest_sha256 = (\<lambda>d. d), digest_base64 = (\<lambda>d. d)\<rparr>"

definition sample_body :: "(unit + unit frame) list" where
  "sample_body = [Inr (DataFrame ''ab''), Inr (DataFrame ''cd''), Inr (TrailersFrame ())]"

abbreviation sample_fs :: file_system where
  "sample_fs \<equiv> \<lparr>fs_disk = (\<lambda>_. None), fs_ops = 0\<rparr>"

lemma sample_spool:
  "spool_and_store sample_digest io_ok (''t'', ''f'') 9 3 5 sample_body sample_fs =
     (sample_body, Some (TargetFile ''f'', ''abcd''), \<lparr>fs_disk = [''f'' \<mapsto> ''abcd''], fs_ops = 5\<rparr>)"
proof -
  have sat: "saturating_add 0 (Suc (Suc 0)) = 2" "saturating_add 2 (Suc (Suc 0)) = 4"
    by (simp_all add: saturating_add_def)
  show ?thesis
    by (simp add: spool_and_store_def sample_body_def spool_init_def spool_frame_def spill_over_def spill_create_def
        fs_create_new_def fs_outcome_def io_ok_def spill_write_def fs_write_all_def spool_finish_def spill_commit_def
        fs_flush_def fs_rename_def Let_def sample_digest_def sat)
qed

theorem stored_object_exact_witness:
  "fs_disk (snd (snd (spool_and_store sample_digest io_ok (''t'', ''f'') 9 3 5 sample_body sample_fs))) ''f'' =
     Some (body_data sample_body)"
  using stored_object_exact [OF _ _ _ sample_spool] unfolding sample_spool by (simp add: sample_body_def)

theorem spool_no_residue_witness:
  "fst (snd (spool_and_store sample_digest io_ok (''t'', ''f'') 9 3 5 sample_body sample_fs)) \<noteq> None"
proof -
  obtain sent r fs' where run: "spool_and_store sample_digest io_ok (''t'', ''f'') 9 3 5 sample_body sample_fs = (sent, r, fs')"
    by (metis prod_cases3)
  show ?thesis using spool_no_residue [OF _ _ run] run by (simp add: sample_body_def)
qed

section \<open>Path names\<close>

lemma show_nat_inject: "show_nat a = show_nat b \<Longrightarrow> a = b"
  by (metis radix_val_show_nat option.inject)

lemma path_join_inject [simp]: "path_join dir a = path_join dir b \<longleftrightarrow> a = b"
  by (cases "dir = [] \<or> last dir = CHR ''/''") (simp_all only: path_join_def if_True if_False same_append_eq)

lemma path_pairs_disjoint:
  assumes "f \<noteq> g" "f @ t \<noteq> g" "g @ t \<noteq> f"
  shows "{path_join dir (f @ t), path_join dir f} \<inter> {path_join dir (g @ t), path_join dir g} = {}"
  using assms by (simp add: disjoint_insert)

lemma digit_ends: "last (show_nat n) \<noteq> CHR ''p''" "CHR ''-'' \<notin> set (show_nat n)"
proof -
  have "\<not> is_ascii_digit (CHR ''p'')" "\<not> is_ascii_digit (CHR ''-'')" by (simp_all add: rust_simps)
  then show "last (show_nat n) \<noteq> CHR ''p''" "CHR ''-'' \<notin> set (show_nat n)"
    using show_nat_digits [of _ n] last_in_set [OF show_nat_ne, of n] by metis+
qed

lemma suffix_number_inject:
  assumes "a @ ''-'' @ show_nat m = b @ ''-'' @ show_nat n"
  shows "m = n"
proof -
  have "rsplit_once (CHR ''-'') (a @ ''-'' @ show_nat m) = Some (a, show_nat m)"
    "rsplit_once (CHR ''-'') (b @ ''-'' @ show_nat n) = Some (b, show_nat n)"
    using rsplit_once_append [OF digit_ends(2)] by simp_all
  then have "show_nat m = show_nat n" unfolding assms by simp
  then show ?thesis by (rule show_nat_inject)
qed

text \<open>Each value of the counter has its own pair of paths, whatever the URI, the clock and the process.\<close>

lemma unique_cache_paths_temp: "fst (unique_cache_paths D U pid dir uri nanos seq) \<noteq> snd (unique_cache_paths D U pid dir uri nanos seq)"
  by (simp add: unique_cache_paths_def Let_def)

lemma unique_cache_paths_inject:
  assumes "seq \<noteq> seq'"
  shows "{fst (unique_cache_paths D U pid dir uri nanos seq), snd (unique_cache_paths D U pid dir uri nanos seq)} \<inter>
         {fst (unique_cache_paths D U pid' dir uri' nanos' seq'), snd (unique_cache_paths D U pid' dir uri' nanos' seq')} = {}"
proof -
  let ?u = "\<lambda>uri pid nanos seq. derive_filename_from_uri D U uri @ ''-'' @ show_nat pid @ ''-'' @ show_nat nanos @ ''-'' @ show_nat (unat seq)"
  have ff: "?u uri pid nanos seq \<noteq> ?u uri' pid' nanos' seq'"
  proof
    assume "?u uri pid nanos seq = ?u uri' pid' nanos' seq'"
    then have "unat seq = unat seq'"
      by (intro suffix_number_inject [of "derive_filename_from_uri D U uri @ ''-'' @ show_nat pid @ ''-'' @ show_nat nanos" _
          "derive_filename_from_uri D U uri' @ ''-'' @ show_nat pid' @ ''-'' @ show_nat nanos'"]) (simp only: append_assoc)
    then show False using assms by (simp add: word_unat_eq_iff)
  qed
  have l: "last (?u uri pid nanos seq) \<noteq> CHR ''p''" for uri pid nanos seq
    using digit_ends(1) by (simp only: last_appendR append_is_Nil_conv show_nat_ne not_Cons_self2 simp_thms list.distinct)
  have tf: "a @ ''.tmp'' \<noteq> b" if "last b \<noteq> CHR ''p''" for a b :: bytes using that by auto
  show ?thesis
    unfolding unique_cache_paths_def Let_def fst_conv snd_conv
    by (rule path_pairs_disjoint) (rule ff tf [OF l])+
qed

end
