(* ===== verification/Cache_Lru.thy ===== *)
theory Cache_Lru
  imports Cache_Spool Globals
begin

text \<open>
  The cache itself (\<open>forwarder/cache/cache_main.rs\<close>: \<open>RpxyCache\<close>, \<open>FileStore\<close>, \<open>CacheObject\<close>,
  \<open>LruCacheManager\<close>).  The \<open>lru\<close> crate is an argument with its documented laws (locale
  \<open>lru_laws\<close>), interpreted on an association list; \<open>http-cache-semantics\<close> is an argument too.
\<close>

section \<open>The LRU map\<close>

record ('c, 'v) lru_api =
  lru_new :: "nat \<Rightarrow> 'c"
  lru_cap :: "'c \<Rightarrow> nat"
  lru_len :: "'c \<Rightarrow> nat"
  lru_peek :: "'c \<Rightarrow> bytes \<Rightarrow> 'v option"
  lru_get :: "'c \<Rightarrow> bytes \<Rightarrow> 'v option \<times> 'c"
  lru_push :: "'c \<Rightarrow> bytes \<Rightarrow> 'v \<Rightarrow> (bytes \<times> 'v) option \<times> 'c"
  lru_pop_entry :: "'c \<Rightarrow> bytes \<Rightarrow> (bytes \<times> 'v) option \<times> 'c"

text \<open>The values held, with multiplicity.\<close>

definition lru_values :: "('c, 'v) lru_api \<Rightarrow> 'c \<Rightarrow> 'v multiset" where
  "lru_values L c = image_mset (\<lambda>k. the (lru_peek L c k)) (mset_set (dom (lru_peek L c)))"

definition displaced_values :: "(bytes \<times> 'v) option \<Rightarrow> 'v multiset" where
  "displaced_values d = (case d of None \<Rightarrow> {#} | Some (_, v) \<Rightarrow> {#v#})"

locale lru_laws =
  fixes L :: "('c, 'v) lru_api"
  assumes new_law: "lru_peek L (lru_new L n) = Map.empty" "lru_cap L (lru_new L n) = n"
    and finite_law: "finite (dom (lru_peek L c))"
    and len_law: "lru_len L c = card (dom (lru_peek L c))"
    and get_law: "fst (lru_get L c k) = lru_peek L c k" "lru_peek L (snd (lru_get L c k)) = lru_peek L c"
    and pop_law: "fst (lru_pop_entry L c k) = map_option (Pair k) (lru_peek L c k)"
      "lru_peek L (snd (lru_pop_entry L c k)) = (lru_peek L c)(k := None)"
    and push_update_law: "lru_peek L c k = Some old \<Longrightarrow> fst (lru_push L c k v) = Some (k, old)"
      "lru_peek L c k = Some old \<Longrightarrow> lru_peek L (snd (lru_push L c k v)) = (lru_peek L c)(k \<mapsto> v)"
    and push_room_law: "lru_peek L c k = None \<Longrightarrow> lru_len L c < lru_cap L c \<or> lru_len L c = 0 \<Longrightarrow> fst (lru_push L c k v) = None"
      "lru_peek L c k = None \<Longrightarrow> lru_len L c < lru_cap L c \<or> lru_len L c = 0 \<Longrightarrow>
         lru_peek L (snd (lru_push L c k v)) = (lru_peek L c)(k \<mapsto> v)"
    and push_full_law: "lru_peek L c k = None \<Longrightarrow> lru_cap L c \<le> lru_len L c \<Longrightarrow> 0 < lru_len L c \<Longrightarrow>
         \<exists>k' v'. fst (lru_push L c k v) = Some (k', v') \<and> lru_peek L c k' = Some v' \<and>
           lru_peek L (snd (lru_push L c k v)) = (lru_peek L c)(k' := None, k \<mapsto> v)"
begin

lemma values_new: "lru_values L (lru_new L n) = {#}"
  by (simp add: lru_values_def new_law)

lemma values_get: "lru_values L (snd (lru_get L c k)) = lru_values L c"
  by (simp add: lru_values_def get_law)

lemma values_upd:
  assumes "lru_peek L c' = (lru_peek L c)(k \<mapsto> v)"
  shows "lru_values L c' + (case lru_peek L c k of None \<Rightarrow> {#} | Some old \<Rightarrow> {#old#}) = add_mset v (lru_values L c)"
proof -
  let ?d = "dom (lru_peek L c) - {k}"
  have fin: "finite ?d" using finite_law by simp
  have eq: "image_mset (\<lambda>x. the (((lru_peek L c)(k \<mapsto> v)) x)) (mset_set ?d) = image_mset (\<lambda>x. the (lru_peek L c x)) (mset_set ?d)"
    using fin by (intro image_mset_cong) simp
  have "dom (lru_peek L c') = insert k ?d" using assms by auto
  then have "mset_set (dom (lru_peek L c')) = add_mset k (mset_set ?d)" using fin by (metis Diff_iff insertI1 mset_set.insert)
  then have new: "lru_values L c' = add_mset v (image_mset (\<lambda>x. the (lru_peek L c x)) (mset_set ?d))"
    using eq unfolding lru_values_def assms by simp
  show ?thesis
  proof (cases "lru_peek L c k")
    case None
    then have "?d = dom (lru_peek L c)" by auto
    then show ?thesis using new None by (simp add: lru_values_def)
  next
    case (Some old)
    then have "dom (lru_peek L c) = insert k ?d" by auto
    then have "mset_set (dom (lru_peek L c)) = add_mset k (mset_set ?d)" using fin by (metis Diff_iff insertI1 mset_set.insert)
    then show ?thesis using new Some by (simp add: lru_values_def)
  qed
qed

lemma values_delete:
  assumes "lru_peek L c' = (lru_peek L c)(k := None)"
  shows "lru_values L c' + (case lru_peek L c k of None \<Rightarrow> {#} | Some old \<Rightarrow> {#old#}) = lru_values L c"
proof -
  let ?d = "dom (lru_peek L c) - {k}"
  have fin: "finite ?d" using finite_law by simp
  have "image_mset (\<lambda>x. the (((lru_peek L c)(k := None)) x)) (mset_set ?d) = image_mset (\<lambda>x. the (lru_peek L c x)) (mset_set ?d)"
    using fin by (intro image_mset_cong) simp
  then have new: "lru_values L c' = image_mset (\<lambda>x. the (lru_peek L c x)) (mset_set ?d)"
    using assms by (simp add: lru_values_def)
  show ?thesis
  proof (cases "lru_peek L c k")
    case None
    then have "?d = dom (lru_peek L c)" by auto
    then show ?thesis using new None by (simp add: lru_values_def)
  next
    case (Some old)
    then have "dom (lru_peek L c) = insert k ?d" by auto
    then have "mset_set (dom (lru_peek L c)) = add_mset k (mset_set ?d)" using fin by (metis Diff_iff insertI1 mset_set.insert)
    then show ?thesis using new Some by (simp add: lru_values_def)
  qed
qed

text \<open>Nothing is lost and nothing is duplicated.\<close>

lemma values_push: "lru_values L (snd (lru_push L c k v)) + displaced_values (fst (lru_push L c k v)) = add_mset v (lru_values L c)"
proof (cases "lru_peek L c k")
  case (Some old)
  then show ?thesis using values_upd [OF push_update_law(2) [OF Some]] push_update_law(1) [OF Some, of v]
    by (simp add: displaced_values_def)
next
  case None
  show ?thesis
  proof (cases "lru_len L c < lru_cap L c \<or> lru_len L c = 0")
    case True
    then show ?thesis using values_upd [OF push_room_law(2) [OF None True]] push_room_law(1) [OF None True, of v] None
      by (simp add: displaced_values_def)
  next
    case False
    then obtain k' v' where f: "fst (lru_push L c k v) = Some (k', v')" "lru_peek L c k' = Some v'"
        "lru_peek L (snd (lru_push L c k v)) = (lru_peek L c)(k' := None, k \<mapsto> v)"
      using push_full_law [OF None, of v] by auto
    define c1 where "c1 = snd (lru_pop_entry L c k')"
    have p: "lru_peek L c1 = (lru_peek L c)(k' := None)" by (simp add: c1_def pop_law)
    then have "lru_values L (snd (lru_push L c k v)) = add_mset v (lru_values L c1)"
      using values_upd [of "snd (lru_push L c k v)" c1 k v] f None by (cases "k = k'") simp_all
    then show ?thesis using values_delete [OF p] f by (simp add: displaced_values_def)
  qed
qed

lemma values_pop: "lru_values L (snd (lru_pop_entry L c k)) + displaced_values (fst (lru_pop_entry L c k)) = lru_values L c"
  using values_delete [OF pop_law(2), of c k] by (simp add: pop_law displaced_values_def split: option.splits)

lemma peek_in_values: "lru_peek L c k = Some v \<Longrightarrow> v \<in># lru_values L c"
  using finite_law [of c] by (force simp: lru_values_def dom_def image_iff)

end

text \<open>The interpretation: an association list, most recently used first.\<close>

type_synonym 'v recency_list = "nat \<times> (bytes \<times> 'v) list"

definition recency_api :: "('v recency_list, 'v) lru_api" where
  "recency_api =
     \<lparr>lru_new = (\<lambda>n. (n, [])),
      lru_cap = fst,
      lru_len = (\<lambda>(n, xs). length (remdups (map fst xs))),
      lru_peek = (\<lambda>(n, xs). map_of xs),
      lru_get = (\<lambda>(n, xs) k. case map_of xs k of None \<Rightarrow> (None, (n, xs)) | Some v \<Rightarrow> (Some v, (n, (k, v) # AList.delete k xs))),
      lru_push =
        (\<lambda>(n, xs) k v.
           case map_of xs k of
             Some old \<Rightarrow> (Some (k, old), (n, (k, v) # AList.delete k xs))
           | None \<Rightarrow>
               if length (remdups (map fst xs)) < n \<or> xs = [] then (None, (n, (k, v) # xs))
               else let k' = fst (last xs) in (Some (k', the (map_of xs k')), (n, (k, v) # AList.delete k' xs))),
      lru_pop_entry = (\<lambda>(n, xs) k. (map_option (Pair k) (map_of xs k), (n, AList.delete k xs)))\<rparr>"

lemma length_remdups_dom: "length (remdups (map fst xs)) = card (dom (map_of xs))"
  by (simp add: length_remdups_card_conv dom_map_of_conv_image_fst)

interpretation lru_recency: lru_laws recency_api
proof
  fix c :: "'v recency_list" and k v
  obtain n xs where c: "c = (n, xs)" by fastforce
  assume "lru_peek recency_api c k = None" "lru_cap recency_api c \<le> lru_len recency_api c" "0 < lru_len recency_api c"
  then have n: "map_of xs k = None" "\<not> length (remdups (map fst xs)) < n" "xs \<noteq> []" by (auto simp: c recency_api_def)
  let ?k = "fst (last xs)"
  have "?k \<in> dom (map_of xs)" using n(3) by (simp add: dom_map_of_conv_image_fst)
  then obtain v' where "map_of xs ?k = Some v'" by blast
  then show "\<exists>k' v'. fst (lru_push recency_api c k v) = Some (k', v') \<and> lru_peek recency_api c k' = Some v' \<and>
      lru_peek recency_api (snd (lru_push recency_api c k v)) = (lru_peek recency_api c)(k' := None, k \<mapsto> v)"
    using n by (intro exI [of _ ?k] exI [of _ v']) (simp add: c recency_api_def Let_def delete_conv')
qed (auto simp: recency_api_def length_remdups_dom finite_dom_map_of delete_conv' fun_upd_idem split: option.splits)

section \<open>Objects and the manager\<close>

record 'p cache_object =
  co_policy :: 'p
  co_target :: cache_target
  co_hash :: bytes
  co_generation :: u64

text \<open>\<open>CacheObject::new\<close> takes the next generation from the global counter.\<close>

definition cache_object_new :: "u64 \<Rightarrow> 'p \<Rightarrow> cache_target \<Rightarrow> bytes \<Rightarrow> 'p cache_object \<times> u64" where
  "cache_object_new gen policy target hash =
     (\<lparr>co_policy = policy, co_target = target, co_hash = hash, co_generation = gen\<rparr>, gen + 1)"

text \<open>The map under its mutex, which may be poisoned, and the entry counter.\<close>

record 'c lru_manager =
  lm_inner :: 'c
  lm_cnt :: usize
  lm_poisoned :: bool

text \<open>\<open>NonZeroUsize::new(..).unwrap()\<close> panics on a capacity of 0.\<close>

definition lru_manager_new :: "('c, 'v) lru_api \<Rightarrow> usize \<Rightarrow> 'c lru_manager option" where
  "lru_manager_new L max_entry =
     (if max_entry = 0 then None
      else Some \<lparr>lm_inner = lru_new L (unat max_entry), lm_cnt = 0, lm_poisoned = False\<rparr>)"

definition evict_if_generation :: "('c, 'p cache_object) lru_api \<Rightarrow> 'c lru_manager \<Rightarrow> bytes \<Rightarrow> u64 \<Rightarrow>
    (bytes \<times> 'p cache_object) option \<times> 'c lru_manager" where
  "evict_if_generation L lm cache_key generation =
     (if lm_poisoned lm then (None, lm)
      else if map_option co_generation (lru_peek L (lm_inner lm) cache_key) \<noteq> Some generation then (None, lm)
      else case lru_pop_entry L (lm_inner lm) cache_key of
        (res, c) \<Rightarrow> (res, lm\<lparr>lm_inner := c, lm_cnt := of_nat (lru_len L c)\<rparr>))"

definition lru_manager_push :: "('c, 'p cache_object) lru_api \<Rightarrow> 'c lru_manager \<Rightarrow> bytes \<Rightarrow> 'p cache_object \<Rightarrow>
    (cache_error + (bytes \<times> 'p cache_object) option) \<times> 'c lru_manager" where
  "lru_manager_push L lm cache_key cache_object =
     (if lm_poisoned lm then (Inl FailedToAcquiredMutexLockForCache, lm)
      else case lru_push L (lm_inner lm) cache_key cache_object of
        (res, c) \<Rightarrow> (Inr res, lm\<lparr>lm_inner := c, lm_cnt := of_nat (lru_len L c)\<rparr>))"

definition lru_manager_get :: "('c, 'p cache_object) lru_api \<Rightarrow> 'c lru_manager \<Rightarrow> bytes \<Rightarrow>
    (cache_error + 'p cache_object option) \<times> 'c lru_manager" where
  "lru_manager_get L lm cache_key =
     (if lm_poisoned lm then (Inl FailedToAcquiredMutexLockForCheck, lm)
      else case lru_get L (lm_inner lm) cache_key of (res, c) \<Rightarrow> (Inr res, lm\<lparr>lm_inner := c\<rparr>))"

definition derive_cache_key_from_effective_uri :: "'u uri_api \<Rightarrow> 'u \<Rightarrow> bytes" where
  "derive_cache_key_from_effective_uri U uri = uri_display U uri"

section \<open>The cache\<close>

record 'c rpxy_cache =
  rc_inner :: "'c lru_manager"
  rc_file_cnt :: usize
  rc_fs :: file_system
  rc_generation :: u64
  rc_max_each_size :: usize
  rc_max_each_size_on_memory :: usize
  rc_cache_dir :: path

text \<open>
  \<open>RpxyCache::new\<close>: \<open>None\<close> is the panic of the LRU constructor, \<open>Some None\<close> no cache.  The directory is
  emptied; creating it may fail.
\<close>

definition rpxy_cache_new :: "('c, 'v) lru_api \<Rightarrow> 'n proxy_config \<Rightarrow> bool \<Rightarrow> 'c rpxy_cache option option" where
  "rpxy_cache_new L cfg create_dir_ok =
     (if \<not> cache_enabled cfg then Some None
      else case cache_dir cfg of
        None \<Rightarrow> Some None
      | Some dir \<Rightarrow>
          (case lru_manager_new L (cache_max_entry cfg) of
             None \<Rightarrow> None
           | Some inner \<Rightarrow>
               let max_each_size = cache_max_each_size cfg;
                   on_memory = cache_max_each_size_on_memory cfg;
                   on_memory = (if max_each_size < on_memory then max_each_size else on_memory)
               in if \<not> create_dir_ok then Some None
                  else Some (Some \<lparr>rc_inner = inner, rc_file_cnt = 0, rc_fs = \<lparr>fs_disk = (\<lambda>_. None), fs_ops = 0\<rparr>, rc_generation = 0,
                                   rc_max_each_size = max_each_size, rc_max_each_size_on_memory = on_memory, rc_cache_dir = dir\<rparr>)))"

definition cache_count :: "'c rpxy_cache \<Rightarrow> usize \<times> usize \<times> usize" where
  "cache_count s =
     (let total = lm_cnt (rc_inner s); file = rc_file_cnt s
      in (total, if total < file then 0 else total - file, file))"

subsection \<open>The file store\<close>

definition incr_count :: "'c rpxy_cache \<Rightarrow> 'c rpxy_cache" where
  "incr_count s = s\<lparr>rc_file_cnt := rc_file_cnt s + 1\<rparr>"

definition file_store_remove :: "io \<Rightarrow> path \<Rightarrow> 'c rpxy_cache \<Rightarrow> (cache_error + unit) \<times> 'c rpxy_cache" where
  "file_store_remove io p s =
     (let s = s\<lparr>rc_file_cnt := saturating_dec (rc_file_cnt s)\<rparr>
      in case fs_remove_file io p (rc_fs s) of
           (r, fs) \<Rightarrow> (if r = RemovalFailed then Inl FailedToRemoveCacheFile else Inr (), s\<lparr>rc_fs := fs\<rparr>))"

definition file_store_evict :: "io \<Rightarrow> path \<Rightarrow> 'c rpxy_cache \<Rightarrow> 'c rpxy_cache" where
  "file_store_evict io p s = snd (file_store_remove io p s)"

text \<open>
  The task of \<open>FileStore::read\<close>: the reads give chunks of the file (a read error ends the loop),
  \<open>alive\<close> sends succeed.  The result is what the client gets and the error the task ends with.
\<close>

fun read_loop :: "nat \<Rightarrow> (unit + bytes) list \<Rightarrow> bytes \<Rightarrow> bytes list \<times> (cache_error + bytes)" where
  "read_loop alive [] hashed = ([], Inr hashed)"
| "read_loop alive (Inl _ # reads) hashed = ([], Inr hashed)"
| "read_loop alive (Inr chunk # reads) hashed =
     (if alive = 0 then ([], Inl FailedToSendFrameFromCache)
      else case read_loop (alive - 1) reads (hashed @ chunk) of (sent, r) \<Rightarrow> (chunk # sent, r))"

definition file_store_read_task :: "cache_digest \<Rightarrow> io \<Rightarrow> path \<Rightarrow> bytes \<Rightarrow> nat \<Rightarrow> (unit + bytes) list \<Rightarrow> file_system \<Rightarrow>
    bytes list \<times> (cache_error + unit) \<times> file_system" where
  "file_store_read_task D io p hash alive reads fs =
     (case read_loop alive reads [] of
        (sent, Inl e) \<Rightarrow> (sent, Inl e, fs)
      | (sent, Inr hashed) \<Rightarrow>
          if digest_sha256 D hashed \<noteq> hash then (sent, Inl HashMismatchedInCacheFile, remove_uncounted_file io p fs)
          else (sent, Inr (), fs))"

subsection \<open>Publishing and looking up\<close>

definition target_file :: "cache_target \<Rightarrow> path option" where
  "target_file t = (case t of TargetFile p \<Rightarrow> Some p | OnMemory _ \<Rightarrow> None)"

definition publish_cache_object :: "('c, 'p cache_object) lru_api \<Rightarrow> io \<Rightarrow> bytes \<Rightarrow> 'p cache_object \<Rightarrow> 'c rpxy_cache \<Rightarrow> 'c rpxy_cache" where
  "publish_cache_object L io cache_key cache_object s =
     (let new_file_path = target_file (co_target cache_object);
          s = (if new_file_path \<noteq> None then incr_count s else s)
      in case lru_manager_push L (rc_inner s) cache_key cache_object of
           (Inl e, lm) \<Rightarrow>
             (let s = s\<lparr>rc_inner := lm\<rparr>
              in case new_file_path of None \<Rightarrow> s | Some p \<Rightarrow> file_store_evict io p s)
         | (Inr displaced, lm) \<Rightarrow>
             (let s = s\<lparr>rc_inner := lm\<rparr>
              in case displaced of
                   None \<Rightarrow> s
                 | Some (_, v) \<Rightarrow>
                     (case target_file (co_target v) of
                        None \<Rightarrow> s
                      | Some old_path \<Rightarrow> if Some old_path \<noteq> new_file_path then file_store_evict io old_path s else s)))"

datatype cached_body = FileBody path bytes | MemoryBody bytes

text \<open>
  \<open>RpxyCache::get\<close> for the key of a request; \<open>before_request\<close> is the policy's verdict (\<open>Some\<close> the
  headers to use when fresh) and \<open>can_open\<close> the outcome of opening an existing file.
\<close>

definition cache_get :: "('c, 'p cache_object) lru_api \<Rightarrow> io \<Rightarrow> ('p \<Rightarrow> 'r option) \<Rightarrow> bool \<Rightarrow> bytes \<Rightarrow> 'c rpxy_cache \<Rightarrow>
    ('r \<times> cached_body) option \<times> 'c rpxy_cache" where
  "cache_get L io before_request can_open cache_key s =
     (case lru_manager_get L (rc_inner s) cache_key of
        (Inl _, lm) \<Rightarrow> (None, s\<lparr>rc_inner := lm\<rparr>)
      | (Inr None, lm) \<Rightarrow> (None, s\<lparr>rc_inner := lm\<rparr>)
      | (Inr (Some cached_object), lm) \<Rightarrow>
          (let evict = (\<lambda>s. case evict_if_generation L (rc_inner s) cache_key (co_generation cached_object) of
                              (None, lm) \<Rightarrow> s\<lparr>rc_inner := lm\<rparr>
                            | (Some _, lm) \<Rightarrow>
                                (let s = s\<lparr>rc_inner := lm\<rparr>
                                 in case target_file (co_target cached_object) of
                                      None \<Rightarrow> s | Some p \<Rightarrow> file_store_evict io p s));
               s = s\<lparr>rc_inner := lm\<rparr>
           in case before_request (co_policy cached_object) of
                None \<Rightarrow> (None, evict s)
              | Some res_parts \<Rightarrow>
                  (case co_target cached_object of
                     TargetFile p \<Rightarrow>
                       if can_open \<and> fs_disk (rc_fs s) p \<noteq> None then (Some (res_parts, FileBody p (co_hash cached_object)), s)
                       else (None, evict s)
                   | OnMemory object \<Rightarrow> (Some (res_parts, MemoryBody object), s))))"

text \<open>\<open>get_policy_if_cacheable\<close> on the policy of the request and the response.\<close>

definition get_policy_if_cacheable :: "('q \<Rightarrow> 'a \<Rightarrow> 'p) \<Rightarrow> ('p \<Rightarrow> bool) \<Rightarrow> 'q option \<Rightarrow> 'a option \<Rightarrow> cache_error + 'p option" where
  "get_policy_if_cacheable policy_new is_storable req res =
     (case (req, res) of
        (Some req, Some res) \<Rightarrow> let p = policy_new req res in if is_storable p then Inr (Some p) else Inr None
      | _ \<Rightarrow> Inl NullRequestOrResponse)"

text \<open>The task that \<open>RpxyCache::put\<close> spawns, from the body of the response to the published object.\<close>

definition cache_put_task :: "('c, 'p cache_object) lru_api \<Rightarrow> cache_digest \<Rightarrow> 'u uri_api \<Rightarrow> io \<Rightarrow> nat \<Rightarrow> nat \<Rightarrow> u64 \<Rightarrow> 'u \<Rightarrow>
    nat \<Rightarrow> ('e + 't frame) list \<Rightarrow> 'p \<Rightarrow> 'c rpxy_cache \<Rightarrow> ('e + 't frame) list \<times> 'c rpxy_cache" where
  "cache_put_task L D U io pid nanos seq uri alive body policy s =
     (case spool_and_store D io (unique_cache_paths D U pid (rc_cache_dir s) uri nanos seq)
             (rc_max_each_size s) (rc_max_each_size_on_memory s) alive body (rc_fs s) of
        (sent, None, fs) \<Rightarrow> (sent, s\<lparr>rc_fs := fs\<rparr>)
      | (sent, Some (target, hash), fs) \<Rightarrow>
          (case cache_object_new (rc_generation s) policy target hash of
             (obj, gen) \<Rightarrow>
               (sent, publish_cache_object L io (derive_cache_key_from_effective_uri U uri) obj
                        (s\<lparr>rc_fs := fs, rc_generation := gen\<rparr>))))"

section \<open>Round trip\<close>

context lru_laws
begin

lemma push_peek: "lru_peek L (snd (lru_push L c k v)) k = Some v"
proof (cases "lru_peek L c k")
  case (Some old)
  then show ?thesis using push_update_law(2) by simp
next
  case None
  show ?thesis
  proof (cases "lru_len L c < lru_cap L c \<or> lru_len L c = 0")
    case True
    then show ?thesis using push_room_law(2) [OF None] by simp
  next
    case False
    then show ?thesis using push_full_law [OF None, of v] by auto
  qed
qed

end

lemma evict_fields:
  "rc_inner (file_store_evict io p s) = rc_inner s"
  "q \<noteq> p \<Longrightarrow> fs_disk (rc_fs (file_store_evict io p s)) q = fs_disk (rc_fs s) q"
  by (auto simp: file_store_evict_def file_store_remove_def fs_remove_file_def fs_outcome_def Let_def split: prod.splits)

lemma incr_fields: "rc_inner (incr_count s) = rc_inner s" "rc_fs (incr_count s) = rc_fs s"
  by (simp_all add: incr_count_def)

lemma publish_visible:
  assumes laws: "lru_laws L" and ok: "\<not> lm_poisoned (rc_inner s)"
    and p: "publish_cache_object L io key obj s = s'"
  shows "lru_peek L (lm_inner (rc_inner s')) key = Some obj \<and> \<not> lm_poisoned (rc_inner s') \<and>
         (\<forall>q. target_file (co_target obj) = Some q \<longrightarrow> fs_disk (rc_fs s') q = fs_disk (rc_fs s) q)"
proof -
  obtain d c where push: "lru_push L (lm_inner (rc_inner s)) key obj = (d, c)" by fastforce
  have peek: "lru_peek L c key = Some obj" using lru_laws.push_peek [OF laws, of "lm_inner (rc_inner s)" key obj] push by simp
  define t where "t = (if target_file (co_target obj) \<noteq> None then incr_count s else s)"
  have t: "rc_inner t = rc_inner s" "rc_fs t = rc_fs s" by (simp_all add: t_def incr_fields)
  define u where "u = t\<lparr>rc_inner := (rc_inner s)\<lparr>lm_inner := c, lm_cnt := of_nat (lru_len L c)\<rparr>\<rparr>"
  have s': "s' = (case d of None \<Rightarrow> u | Some (_, v) \<Rightarrow> (case target_file (co_target v) of None \<Rightarrow> u
      | Some old_path \<Rightarrow> if Some old_path \<noteq> target_file (co_target obj) then file_store_evict io old_path u else u))"
    using p unfolding publish_cache_object_def lru_manager_push_def Let_def t_def [symmetric] t
    using ok push by (cases d) (auto simp: u_def split: option.splits)
  have u: "lru_peek L (lm_inner (rc_inner u)) key = Some obj" "\<not> lm_poisoned (rc_inner u)" "rc_fs u = rc_fs s"
    using peek ok t by (simp_all add: u_def)
  show ?thesis unfolding s' using u by (auto simp: evict_fields split: option.splits)
qed

text \<open>The bytes behind a cached body.\<close>

definition cached_bytes :: "file_system \<Rightarrow> cached_body \<Rightarrow> bytes option" where
  "cached_bytes fs b = (case b of MemoryBody d \<Rightarrow> Some d | FileBody p _ \<Rightarrow> fs_disk fs p)"

lemma read_loop_all:
  "length chunks \<le> alive \<Longrightarrow> read_loop alive (map Inr chunks) hashed = (chunks, Inr (hashed @ concat chunks))"
  by (induction chunks arbitrary: alive hashed) auto

lemma read_task_all:
  assumes "length chunks \<le> alive" "digest_sha256 D (concat chunks) = hash"
  shows "file_store_read_task D io p hash alive (map Inr chunks) fs = (chunks, Inr (), fs)"
  using assms by (simp add: file_store_read_task_def read_loop_all)

text \<open>
  C13: What was put is what is got.  After an error-free response within the limits was relayed and
  stored, a lookup under its effective URI with a fresh policy hits: the bytes behind the cached
  body are the response body, and for a file, whatever chunks the reads return, the client gets all
  of them and the integrity check passes.
\<close>

theorem cache_put_get:
  fixes body :: "('e + 't frame) list" and U :: "'u uri_api" and uri :: 'u
  defines "key \<equiv> derive_cache_key_from_effective_uri U uri"
  assumes laws: "lru_laws L" and cache: "\<not> lm_poisoned (rc_inner s)" "unat (rc_max_each_size s) < 2 ^ 64 - 1"
    and fresh: "fs_disk (rc_fs s) (fst (unique_cache_paths D U pid (rc_cache_dir s) uri nanos seq)) = None"
    and body: "error_free body" "length (body_data body) \<le> unat (rc_max_each_size s)" "length body \<le> alive"
    and put: "cache_put_task L D U io_ok pid nanos seq uri alive body policy s = (sent, s')"
    and policy: "before_request policy = Some parts"
  shows "sent = body \<and>
         (\<exists>b s''. cache_get L io before_request True key s' = (Some (parts, b), s'') \<and>
            cached_bytes (rc_fs s'') b = Some (body_data body) \<and>
            (\<forall>p h chunks. b = FileBody p h \<and> concat chunks = body_data body \<longrightarrow>
               file_store_read_task D io p h (length chunks) (map Inr chunks) (rc_fs s'') = (chunks, Inr (), rc_fs s'')))"
proof -
  let ?paths = "unique_cache_paths D U pid (rc_cache_dir s) uri nanos seq"
  obtain sent0 result fs where run: "spool_and_store D io_ok ?paths (rc_max_each_size s) (rc_max_each_size_on_memory s)
      alive body (rc_fs s) = (sent0, result, fs)"
    by (metis prod_cases3)
  then obtain target hash where result: "result = Some (target, hash)"
    using spool_no_residue_aux [OF cache(2) fresh run body] by auto
  note st = stored_object_aux [OF cache(2) unique_cache_paths_temp fresh run [unfolded result]]
  define obj where "obj = \<lparr>co_policy = policy, co_target = target, co_hash = hash, co_generation = rc_generation s\<rparr>"
  define s1 where "s1 = s\<lparr>rc_fs := fs, rc_generation := rc_generation s + 1\<rparr>"
  have s': "publish_cache_object L io_ok key obj s1 = s'" and sent: "sent = body"
    using put st unfolding run result cache_put_task_def s1_def obj_def key_def by (auto simp: cache_object_new_def run result)
  have vis: "lru_peek L (lm_inner (rc_inner s')) key = Some obj" "\<not> lm_poisoned (rc_inner s')"
      "\<And>q. target_file target = Some q \<Longrightarrow> fs_disk (rc_fs s') q = fs_disk fs q"
    using publish_visible [OF laws _ s'] cache(1) by (auto simp: s1_def obj_def)
  obtain o1 c where get: "lru_get L (lm_inner (rc_inner s')) key = (o1, c)" by fastforce
  have o1: "o1 = Some obj" using lru_laws.get_law(1) [OF laws, of "lm_inner (rc_inner s')" key] get vis(1) by simp
  define s'' where "s'' = s'\<lparr>rc_inner := (rc_inner s')\<lparr>lm_inner := c\<rparr>\<rparr>"
  show ?thesis
  proof (cases "length (body_data body) \<le> unat (rc_max_each_size_on_memory s)")
    case True
    then have "target = OnMemory (body_data body)" using st by simp
    then have "cache_get L io before_request True key s' = (Some (parts, MemoryBody (body_data body)), s'')"
      using get o1 vis(2) policy by (simp add: cache_get_def lru_manager_get_def s''_def obj_def)
    then show ?thesis using sent by (auto simp: cached_bytes_def)
  next
    case False
    then have t: "target = TargetFile (snd ?paths)" "fs_disk fs (snd ?paths) = Some (body_data body)" using st by simp_all
    have d: "fs_disk (rc_fs s') (snd ?paths) = Some (body_data body)" using vis(3) t by (simp add: target_file_def)
    have "cache_get L io before_request True key s' = (Some (parts, FileBody (snd ?paths) hash), s'')"
      using get o1 vis(2) policy t(1) d by (simp add: cache_get_def lru_manager_get_def s''_def obj_def)
    moreover have "hash = digest_sha256 D (body_data body)" using st by simp
    ultimately show ?thesis
      using sent d read_task_all [where D = D and io = io] by (auto simp: cached_bytes_def s''_def)
  qed
qed

definition sample_cache :: "unit cache_object recency_list rpxy_cache" where
  "sample_cache = \<lparr>rc_inner = \<lparr>lm_inner = (2, []), lm_cnt = 0, lm_poisoned = False\<rparr>, rc_file_cnt = 0, rc_fs = sample_fs,
     rc_generation = 0, rc_max_each_size = 9, rc_max_each_size_on_memory = 3, rc_cache_dir = ''c''\<rparr>"

definition sample_cache_uri :: uri_parts where
  "sample_cache_uri = \<lparr>ur_scheme = Some ''https'', ur_authority = Some ''a.b'', ur_pq = Some ''/''\<rparr>"

abbreviation sample_put :: "(unit + unit frame) list \<times> unit cache_object recency_list rpxy_cache" where
  "sample_put \<equiv> cache_put_task recency_api sample_digest parts_api io_ok 1 0 0 sample_cache_uri 5 sample_body () sample_cache"

theorem cache_put_get_witness:
  "fst sample_put = sample_body \<and>
   (\<exists>b s''. cache_get recency_api io_ok (\<lambda>_. Some ()) True (derive_cache_key_from_effective_uri parts_api sample_cache_uri)
      (snd sample_put) = (Some ((), b), s'') \<and> cached_bytes (rc_fs s'') b = Some ''abcd'')"
proof -
  obtain sent s' where put: "sample_put = (sent, s')" by fastforce
  have "body_data sample_body = ''abcd''" "error_free sample_body" "length sample_body = 3" by (simp_all add: sample_body_def)
  then show ?thesis
    using cache_put_get [OF lru_recency.lru_laws_axioms _ _ _ _ _ _ put, of "\<lambda>_. Some ()" "()" io_ok] put
    by (auto simp: sample_cache_def)
qed

end
