(* ===== verification/Trusted_Proxies.thy ===== *)
theory Trusted_Proxies
  imports Forwarding "HOL-Library.Char_ord" "HOL-Library.List_Lexorder"
begin

text \<open>
  The trusted proxy lists (\<open>rpxy-trusted-proxies\<close>): the providers known by name with the address lists
  compiled in (\<open>snapshots.rs\<close>), the resolution of the configured entries (\<open>lib.rs\<close>), and the tool that
  refreshes the lists (\<open>bin/update-snapshots.rs\<close>).  Parsing, comparing and printing a network is the
  \<open>ipnet\<close> crate's; the answers of the providers and the date are arguments of the updater.
\<close>

section \<open>The providers\<close>

datatype builtin_alias = Cloudflare | Cloudfront | Fastly

text \<open>The derived order, in which the updater's map is iterated.\<close>

fun alias_rank :: "builtin_alias \<Rightarrow> nat" where
  "alias_rank Cloudflare = 0"
| "alias_rank Cloudfront = 1"
| "alias_rank Fastly = 2"

instantiation builtin_alias :: linorder
begin

definition less_eq_builtin_alias :: "builtin_alias \<Rightarrow> builtin_alias \<Rightarrow> bool" where
  "less_eq_builtin_alias a b \<longleftrightarrow> alias_rank a \<le> alias_rank b"

definition less_builtin_alias :: "builtin_alias \<Rightarrow> builtin_alias \<Rightarrow> bool" where
  "less_builtin_alias a b \<longleftrightarrow> alias_rank a < alias_rank b"

instance
proof
  fix a b :: builtin_alias
  show "a \<le> b \<Longrightarrow> b \<le> a \<Longrightarrow> a = b"
    by (cases a; cases b) (simp_all add: less_eq_builtin_alias_def)
qed (auto simp: less_eq_builtin_alias_def less_builtin_alias_def)

end

definition BUILTIN_ALIASES :: "builtin_alias list" where
  "BUILTIN_ALIASES = [Cloudflare, Cloudfront, Fastly]"

fun as_str :: "builtin_alias \<Rightarrow> bytes" where
  "as_str Cloudflare = ''cloudflare''"
| "as_str Cloudfront = ''cloudfront''"
| "as_str Fastly = ''fastly''"

section \<open>The compiled lists\<close>

definition CLOUDFLARE_SOURCE_URL :: bytes where
  "CLOUDFLARE_SOURCE_URL = ''https://api.cloudflare.com/client/v4/ips''"

definition CLOUDFLARE_FETCHED_AT :: bytes where
  "CLOUDFLARE_FETCHED_AT = ''2026-04-16''"

definition CLOUDFLARE_CIDRS :: "bytes list" where
  "CLOUDFLARE_CIDRS = [
     ''103.21.244.0/22'', ''103.22.200.0/22'', ''103.31.4.0/22'', ''104.16.0.0/13'', ''104.24.0.0/14'',
      ''108.162.192.0/18'', ''131.0.72.0/22'', ''141.101.64.0/18'', ''162.158.0.0/15'', ''172.64.0.0/13'',
      ''173.245.48.0/20'', ''188.114.96.0/20'', ''190.93.240.0/20'', ''197.234.240.0/22'', ''198.41.128.0/17'',
      ''2400:cb00::/32'', ''2405:8100::/32'', ''2405:b500::/32'', ''2606:4700::/32'', ''2803:f800::/32'',
      ''2a06:98c0::/29'', ''2c0f:f248::/32'']"

definition CLOUDFRONT_SOURCE_URL :: bytes where
  "CLOUDFRONT_SOURCE_URL = ''https://d7uri8nf7uskq.cloudfront.net/tools/list-cloudfront-ips''"

definition CLOUDFRONT_FETCHED_AT :: bytes where
  "CLOUDFRONT_FETCHED_AT = ''2026-07-01''"

definition CLOUDFRONT_CIDRS :: "bytes list" where
  "CLOUDFRONT_CIDRS = [
     ''108.138.0.0/15'', ''108.156.0.0/14'', ''111.13.171.128/26'', ''111.13.171.192/26'', ''111.13.185.32/27'',
      ''111.13.185.64/27'', ''116.129.226.0/25'', ''116.129.226.128/26'', ''118.193.97.128/25'',
      ''118.193.97.64/26'', ''119.147.182.0/25'', ''119.147.182.128/26'', ''120.232.236.0/25'',
      ''120.232.236.128/26'', ''120.253.240.192/26'', ''120.253.241.160/27'', ''120.253.245.128/26'',
      ''120.253.245.192/27'', ''120.52.12.64/26'', ''120.52.153.192/26'', ''120.52.22.96/27'', ''120.52.39.128/27'',
      ''13.224.0.0/14'', ''13.249.0.0/16'', ''13.32.0.0/15'', ''13.35.0.0/16'', ''130.176.0.0/17'',
      ''130.176.128.0/18'', ''130.176.192.0/19'', ''130.176.224.0/20'', ''143.204.0.0/16'', ''144.220.0.0/16'',
      ''15.158.0.0/16'', ''18.154.0.0/15'', ''18.160.0.0/15'', ''18.164.0.0/15'', ''18.172.0.0/15'',
      ''18.238.0.0/15'', ''18.244.0.0/15'', ''18.64.0.0/14'', ''18.68.0.0/16'', ''180.163.57.0/25'',
      ''180.163.57.128/26'', ''204.246.164.0/22'', ''204.246.168.0/22'', ''204.246.172.0/24'', ''204.246.173.0/24'',
      ''204.246.174.0/23'', ''204.246.176.0/20'', ''205.251.202.0/23'', ''205.251.204.0/23'', ''205.251.206.0/23'',
      ''205.251.208.0/20'', ''205.251.249.0/24'', ''205.251.250.0/23'', ''205.251.252.0/23'', ''205.251.254.0/24'',
      ''216.137.32.0/19'', ''23.228.212.0/24'', ''23.228.213.0/24'', ''23.228.214.0/24'', ''23.228.220.0/24'',
      ''23.228.221.0/24'', ''23.228.222.0/24'', ''23.228.223.0/24'', ''23.228.244.0/24'', ''23.228.248.0/24'',
      ''23.228.249.0/24'', ''23.228.250.0/24'', ''23.228.251.0/24'', ''23.234.192.0/18'', ''23.91.0.0/19'',
      ''24.110.128.0/17'', ''24.110.32.0/19'', ''3.160.0.0/14'', ''3.164.0.0/18'', ''3.164.128.0/17'',
      ''3.164.64.0/18'', ''3.165.0.0/16'', ''3.166.0.0/15'', ''3.168.0.0/14'', ''3.172.0.0/18'', ''3.172.64.0/18'',
      ''3.173.0.0/17'', ''3.173.128.0/18'', ''3.173.192.0/18'', ''3.174.0.0/15'', ''36.103.232.0/25'',
      ''36.103.232.128/26'', ''51.74.192.0/18'', ''52.124.128.0/17'', ''52.222.128.0/17'', ''52.46.0.0/18'',
      ''52.82.128.0/19'', ''52.84.0.0/15'', ''54.182.0.0/16'', ''54.192.0.0/16'', ''54.230.0.0/17'',
      ''54.230.128.0/18'', ''54.230.200.0/21'', ''54.230.208.0/20'', ''54.230.224.0/19'', ''54.239.128.0/18'',
      ''54.239.192.0/19'', ''54.240.128.0/18'', ''58.254.138.0/25'', ''58.254.138.128/26'', ''64.252.128.0/18'',
      ''64.252.64.0/18'', ''65.8.0.0/16'', ''65.9.0.0/17'', ''65.9.128.0/18'', ''70.132.0.0/18'', ''71.152.0.0/17'',
      ''99.84.0.0/16'', ''99.86.0.0/16'']"

definition FASTLY_SOURCE_URL :: bytes where
  "FASTLY_SOURCE_URL = ''https://api.fastly.com/public-ip-list''"

definition FASTLY_FETCHED_AT :: bytes where
  "FASTLY_FETCHED_AT = ''2026-04-16''"

definition FASTLY_CIDRS :: "bytes list" where
  "FASTLY_CIDRS = [
     ''103.244.50.0/24'', ''103.245.222.0/23'', ''103.245.224.0/24'', ''104.156.80.0/20'', ''140.248.128.0/17'',
      ''140.248.64.0/18'', ''146.75.0.0/17'', ''151.101.0.0/16'', ''157.52.64.0/18'', ''167.82.0.0/17'',
      ''167.82.128.0/20'', ''167.82.160.0/20'', ''167.82.224.0/20'', ''172.111.64.0/18'', ''185.31.16.0/22'',
      ''199.232.0.0/16'', ''199.27.72.0/21'', ''23.235.32.0/20'', ''2a04:4e40::/32'', ''2a04:4e42::/32'',
      ''43.249.72.0/22'']"

fun source_url :: "builtin_alias \<Rightarrow> bytes" where
  "source_url Cloudflare = CLOUDFLARE_SOURCE_URL"
| "source_url Cloudfront = CLOUDFRONT_SOURCE_URL"
| "source_url Fastly = FASTLY_SOURCE_URL"

fun fetched_at :: "builtin_alias \<Rightarrow> bytes" where
  "fetched_at Cloudflare = CLOUDFLARE_FETCHED_AT"
| "fetched_at Cloudfront = CLOUDFRONT_FETCHED_AT"
| "fetched_at Fastly = FASTLY_FETCHED_AT"

fun cidr_strings :: "builtin_alias \<Rightarrow> bytes list" where
  "cidr_strings Cloudflare = CLOUDFLARE_CIDRS"
| "cidr_strings Cloudfront = CLOUDFRONT_CIDRS"
| "cidr_strings Fastly = FASTLY_CIDRS"

section \<open>Resolving the configured entries\<close>

datatype trusted_proxy_error = UnknownAlias bytes | InvalidTrustedProxy bytes | InvalidBuiltinCidr builtin_alias bytes

datatype 'n trusted_proxy_entry = Cidr 'n | Alias builtin_alias

definition alias_from_str :: "bytes \<Rightarrow> trusted_proxy_error + builtin_alias" where
  "alias_from_str value =
     (let v = to_ascii_lowercase (trim value)
      in if v = ''cloudflare'' then Inr Cloudflare
         else if v = ''cloudfront'' then Inr Cloudfront
         else if v = ''fastly'' then Inr Fastly
         else Inl (UnknownAlias value))"

definition trusted_proxy_entry_from_str :: "'n net_api \<Rightarrow> bytes \<Rightarrow> trusted_proxy_error + 'n trusted_proxy_entry" where
  "trusted_proxy_entry_from_str N value =
     (case alias_from_str value of
        Inr alias \<Rightarrow> Inr (Alias alias)
      | Inl _ \<Rightarrow> rbind (ok_or (net_from_str N value) (InvalidTrustedProxy value)) (\<lambda>cidr. Inr (Cidr cidr)))"

definition parse_alias_cidrs :: "'n net_api \<Rightarrow> builtin_alias \<Rightarrow> trusted_proxy_error + 'n list" where
  "parse_alias_cidrs N alias =
     try_map (\<lambda>cidr. ok_or (net_from_str N cidr) (InvalidBuiltinCidr alias cidr)) (cidr_strings alias)"

text \<open>The loop body for one network: the set \<open>seen\<close> holds exactly the networks pushed so far.\<close>

fun push_new :: "'a list \<Rightarrow> 'a list \<Rightarrow> 'a list" where
  "push_new cidrs [] = cidrs"
| "push_new cidrs (c # cs) = push_new (if c \<in> set cidrs then cidrs else cidrs @ [c]) cs"

fun resolve_entries :: "'n net_api \<Rightarrow> bytes list \<Rightarrow> 'n list \<Rightarrow> builtin_alias list \<Rightarrow>
    trusted_proxy_error + 'n list \<times> builtin_alias list" where
  "resolve_entries N [] cidrs aliases = Inr (cidrs, aliases)"
| "resolve_entries N (raw # entries) cidrs aliases =
     rbind (trusted_proxy_entry_from_str N raw) (\<lambda>entry.
     case entry of
       Cidr cidr \<Rightarrow> resolve_entries N entries (push_new cidrs [cidr]) aliases
     | Alias alias \<Rightarrow>
         (let aliases = (if alias \<in> set aliases then aliases else aliases @ [alias])
          in rbind (parse_alias_cidrs N alias) (\<lambda>cs. resolve_entries N entries (push_new cidrs cs) aliases)))"

definition resolve_trusted_proxy_entries :: "'n net_api \<Rightarrow> bytes list \<Rightarrow> trusted_proxy_error + 'n list \<times> builtin_alias list" where
  "resolve_trusted_proxy_entries N entries = resolve_entries N entries [] []"

section \<open>Refreshing the lists\<close>

datatype update_error =
    MissingValue bytes | BadAlias trusted_proxy_error | InvalidTimeout bytes | UnknownArgument bytes
  | FetchFailed builtin_alias | UnsuccessfulResponse | InvalidProviderCidr bytes | MissingSnapshot builtin_alias
  | SnapshotOutdated | WriteFailed

record update_args =
  ua_providers :: "builtin_alias list"
  ua_check :: bool
  ua_timeout_seconds :: nat

text \<open>The loop over the command line; \<open>None\<close> is the exit after the usage text.\<close>

fun parse_args_loop :: "bytes list \<Rightarrow> builtin_alias list \<Rightarrow> bool \<Rightarrow> nat \<Rightarrow> update_error + update_args option" where
  "parse_args_loop [] providers check timeout =
     Inr (Some \<lparr>ua_providers = (if providers = [] then BUILTIN_ALIASES else providers), ua_check = check,
                ua_timeout_seconds = timeout\<rparr>)"
| "parse_args_loop (arg # args) providers check timeout =
     (if arg = ''--provider'' then
        (case args of
           [] \<Rightarrow> Inl (MissingValue arg)
         | raw # args' \<Rightarrow>
             if eq_ignore_ascii_case raw ''all'' then parse_args_loop args' BUILTIN_ALIASES check timeout
             else (case alias_from_str raw of
                     Inl e \<Rightarrow> Inl (BadAlias e)
                   | Inr alias \<Rightarrow>
                       parse_args_loop args' (if alias \<in> set providers then providers else providers @ [alias]) check timeout))
      else if arg = ''--check'' then parse_args_loop args providers True timeout
      else if arg = ''--timeout-seconds'' then
        (case args of
           [] \<Rightarrow> Inl (MissingValue arg)
         | raw # args' \<Rightarrow>
             (case parse_uint (2 ^ 64 - 1) raw of
                None \<Rightarrow> Inl (InvalidTimeout raw)
              | Some n \<Rightarrow> parse_args_loop args' providers check n))
      else if arg = ''--help'' \<or> arg = ''-h'' then Inr None
      else Inl (UnknownArgument arg))"

definition parse_args :: "bytes list \<Rightarrow> update_error + update_args option" where
  "parse_args args = parse_args_loop args [] False 10"

record snapshot_data =
  sd_source_url :: bytes
  sd_fetched_at :: bytes
  sd_cidrs :: "bytes list"

text \<open>
  What the updater was compiled with is an argument \<open>compiled\<close>; \<open>compiled_snapshot\<close> is the repository's
  own.  The environment gives \<open>Display\<close> of a network, today's date, and the decoded answer of each
  provider: for Cloudflare its \<open>success\<close> flag and two lists, for CloudFront one list, for Fastly two.
\<close>

definition compiled_snapshot :: "builtin_alias \<Rightarrow> snapshot_data" where
  "compiled_snapshot alias =
     \<lparr>sd_source_url = source_url alias, sd_fetched_at = fetched_at alias, sd_cidrs = cidr_strings alias\<rparr>"

record 'n update_env =
  ue_net :: "'n net_api"
  ue_net_to_string :: "'n \<Rightarrow> bytes"
  ue_current_date :: bytes
  ue_cloudflare :: "(bool \<times> bytes list \<times> bytes list) option"
  ue_cloudfront :: "bytes list option"
  ue_fastly :: "(bytes list \<times> bytes list) option"

definition normalize_cidrs :: "'n update_env \<Rightarrow> bytes list \<Rightarrow> update_error + bytes list" where
  "normalize_cidrs E cidrs =
     rbind (try_map (\<lambda>cidr. ok_or (net_from_str (ue_net E) cidr) (InvalidProviderCidr cidr)) cidrs) (\<lambda>parsed.
     Inr (map (ue_net_to_string E) (remdups_adj (sort_key (ue_net_to_string E) parsed))))"

fun fetch_cidrs :: "'n update_env \<Rightarrow> builtin_alias \<Rightarrow> update_error + bytes list" where
  "fetch_cidrs E Cloudflare =
     rbind (ok_or (ue_cloudflare E) (FetchFailed Cloudflare)) (\<lambda>(success, ipv4_cidrs, ipv6_cidrs).
     if \<not> success then Inl UnsuccessfulResponse else normalize_cidrs E (ipv4_cidrs @ ipv6_cidrs))"
| "fetch_cidrs E Cloudfront =
     rbind (ok_or (ue_cloudfront E) (FetchFailed Cloudfront)) (\<lambda>ip_list. normalize_cidrs E ip_list)"
| "fetch_cidrs E Fastly =
     rbind (ok_or (ue_fastly E) (FetchFailed Fastly)) (\<lambda>(addresses, ipv6_addresses). normalize_cidrs E (addresses @ ipv6_addresses))"

definition fetch_snapshot :: "'n update_env \<Rightarrow> (builtin_alias \<Rightarrow> snapshot_data) \<Rightarrow> builtin_alias \<Rightarrow> bytes \<Rightarrow> update_error + snapshot_data" where
  "fetch_snapshot E compiled alias date =
     rbind (fetch_cidrs E alias) (\<lambda>cidrs.
     Inr \<lparr>sd_source_url = sd_source_url (compiled alias), sd_fetched_at = date, sd_cidrs = cidrs\<rparr>)"

definition same_cidrs :: "bytes list \<Rightarrow> bytes list \<Rightarrow> bool" where
  "same_cidrs current fetched \<longleftrightarrow> set current = set fetched"

record update_status =
  us_alias :: builtin_alias
  us_changed :: bool
  us_cidr_count :: nat
  us_fetched_at :: bytes

text \<open>The data of one provider, with its status if it was asked.\<close>

definition update_alias :: "'n update_env \<Rightarrow> (builtin_alias \<Rightarrow> snapshot_data) \<Rightarrow> update_args \<Rightarrow> builtin_alias \<Rightarrow>
    update_error + snapshot_data \<times> update_status list" where
  "update_alias E compiled args alias =
     (if alias \<in> set (ua_providers args) then
        rbind (fetch_snapshot E compiled alias (ue_current_date E)) (\<lambda>fetched.
        let current = compiled alias;
            changed = (sd_source_url current \<noteq> sd_source_url fetched \<or> \<not> same_cidrs (sd_cidrs current) (sd_cidrs fetched));
            snapshot = (if changed then fetched else current)
        in Inr (snapshot, [\<lparr>us_alias = alias, us_changed = changed, us_cidr_count = length (sd_cidrs snapshot),
                            us_fetched_at = sd_fetched_at snapshot\<rparr>]))
      else Inr (compiled alias, []))"

fun update_aliases :: "'n update_env \<Rightarrow> (builtin_alias \<Rightarrow> snapshot_data) \<Rightarrow> update_args \<Rightarrow> builtin_alias list \<Rightarrow>
    update_error + (builtin_alias \<times> snapshot_data) list \<times> update_status list" where
  "update_aliases E compiled args [] = Inr ([], [])"
| "update_aliases E compiled args (alias # aliases) =
     rbind (update_alias E compiled args alias) (\<lambda>(snapshot, status).
     rbind (update_aliases E compiled args aliases) (\<lambda>(snapshots, statuses).
     Inr ((alias, snapshot) # snapshots, status @ statuses)))"

text \<open>\<open>Debug\<close> of a \<open>str\<close>, exact on ASCII text.\<close>

definition debug_char :: "char \<Rightarrow> bytes" where
  "debug_char c =
     (if c = CHR 0x22 then [CHR 0x5C, CHR 0x22]
      else if c = CHR 0x5C then [CHR 0x5C, CHR 0x5C]
      else if c = CHR 0x09 then [CHR 0x5C, CHR ''t'']
      else if c = CHR 0x0A then [CHR 0x5C, CHR ''n'']
      else if c = CHR 0x0D then [CHR 0x5C, CHR ''r'']
      else if c = CHR 0x00 then [CHR 0x5C, CHR ''0'']
      else if byte c < 32 \<or> byte c = 127 then [CHR 0x5C] @ ''u{'' @ show_hex (byte c) @ ''}''
      else [c])"

definition debug_str :: "bytes \<Rightarrow> bytes" where
  "debug_str s = [CHR 0x22] @ concat (map debug_char s) @ [CHR 0x22]"

abbreviation nl :: bytes where "nl \<equiv> [CHR 0x0A]"

fun constant_prefix :: "builtin_alias \<Rightarrow> bytes" where
  "constant_prefix Cloudflare = ''CLOUDFLARE''"
| "constant_prefix Cloudfront = ''CLOUDFRONT''"
| "constant_prefix Fastly = ''FASTLY''"

fun rust_variant_name :: "builtin_alias \<Rightarrow> bytes" where
  "rust_variant_name Cloudflare = ''Cloudflare''"
| "rust_variant_name Cloudfront = ''Cloudfront''"
| "rust_variant_name Fastly = ''Fastly''"

definition render_alias :: "(builtin_alias \<times> snapshot_data) list \<Rightarrow> builtin_alias \<Rightarrow> update_error + bytes" where
  "render_alias snapshots alias =
     rbind (ok_or (map_of snapshots alias) (MissingSnapshot alias)) (\<lambda>snapshot.
     let prefix = constant_prefix alias
     in Inr (''pub const '' @ prefix @ ''_SOURCE_URL: &str = '' @ debug_str (sd_source_url snapshot) @ '';'' @ nl @
             ''pub const '' @ prefix @ ''_FETCHED_AT: &str = '' @ debug_str (sd_fetched_at snapshot) @ '';'' @ nl @ nl @
             ''pub const '' @ prefix @ ''_CIDRS: &[&str] = &['' @ nl @
             concat (map (\<lambda>cidr. ''  '' @ debug_str cidr @ '','' @ nl) (sd_cidrs snapshot)) @ ''];'' @ nl @ nl))"

definition render_header :: bytes where
  "render_header =
     ''use super::BuiltinTrustedProxyAlias;'' @ nl @ nl @
     ''// Generated by `cargo run -p rpxy-trusted-proxies --features update-snapshots --bin update-snapshots`.'' @ nl @
     ''// Do not edit by hand unless you are intentionally adjusting a snapshot.'' @ nl @ nl @
     ''pub const BUILTIN_ALIASES: &[BuiltinTrustedProxyAlias] = &['' @ nl @
     concat (map (\<lambda>alias. ''  BuiltinTrustedProxyAlias::'' @ rust_variant_name alias @ '','' @ nl) BUILTIN_ALIASES) @
     ''];'' @ nl @ nl"

definition render_snapshots_module :: "(builtin_alias \<times> snapshot_data) list \<Rightarrow> update_error + bytes" where
  "render_snapshots_module snapshots =
     rbind (try_map (render_alias snapshots) BUILTIN_ALIASES) (\<lambda>blocks. Inr (render_header @ concat blocks))"

definition trim_end :: "bytes \<Rightarrow> bytes" where
  "trim_end s = rev (dropWhile is_whitespace (rev s))"

datatype update_outcome = UpToDate | NoChanges | Written bytes "update_status list" | Usage

text \<open>
  \<open>main\<close>: \<open>existing\<close> is the content of the file, empty if it cannot be read, and \<open>write_ok\<close> the
  outcome of writing it.
\<close>

definition update_main :: "'n update_env \<Rightarrow> (builtin_alias \<Rightarrow> snapshot_data) \<Rightarrow> bytes list \<Rightarrow> bytes \<Rightarrow> bool \<Rightarrow>
    update_error + update_outcome" where
  "update_main E compiled argv existing write_ok =
     rbind (parse_args argv) (\<lambda>parsed.
     case parsed of
       None \<Rightarrow> Inr Usage
     | Some args \<Rightarrow>
         rbind (update_aliases E compiled args BUILTIN_ALIASES) (\<lambda>(snapshots, statuses).
         rbind (render_snapshots_module snapshots) (\<lambda>rendered.
         if ua_check args then (if trim_end existing = trim_end rendered then Inr UpToDate else Inl SnapshotOutdated)
         else if trim_end existing = trim_end rendered then Inr NoChanges
         else if write_ok then Inr (Written rendered statuses) else Inl WriteFailed)))"

section \<open>Lemmas\<close>

text \<open>The elements of a list in the order of their first occurrence.\<close>

definition first_occurrences :: "'a list \<Rightarrow> 'a list" where
  "first_occurrences xs = rev (remdups (rev xs))"

lemma first_occurrences_simps [simp]:
  "first_occurrences [] = []"
  "set (first_occurrences xs) = set xs"
  "distinct (first_occurrences xs)"
  "first_occurrences (xs @ [x]) = (if x \<in> set xs then first_occurrences xs else first_occurrences xs @ [x])"
  by (simp_all add: first_occurrences_def)

lemma push_new_first_occurrences: "push_new (first_occurrences xs) ys = first_occurrences (xs @ ys)"
proof (induction ys arbitrary: xs)
  case (Cons y ys)
  have "push_new (first_occurrences xs) (y # ys) = push_new (first_occurrences (xs @ [y])) ys" by simp
  also have "\<dots> = first_occurrences ((xs @ [y]) @ ys)" by (rule Cons.IH)
  finally show ?case by simp
qed simp

definition entry_networks :: "'n net_api \<Rightarrow> bytes \<Rightarrow> trusted_proxy_error + 'n list \<times> builtin_alias list" where
  "entry_networks N raw =
     rbind (trusted_proxy_entry_from_str N raw) (\<lambda>entry.
     case entry of
       Cidr cidr \<Rightarrow> Inr ([cidr], [])
     | Alias alias \<Rightarrow> rbind (parse_alias_cidrs N alias) (\<lambda>cs. Inr (cs, [alias])))"

lemma resolve_entries_reference:
  "resolve_entries N entries (first_occurrences xs) (first_occurrences as) =
     rbind (try_map (entry_networks N) entries) (\<lambda>rs.
     Inr (first_occurrences (xs @ concat (map fst rs)), first_occurrences (as @ concat (map snd rs))))"
proof (induction entries arbitrary: xs as)
  case (Cons raw entries)
  show ?case
  proof (cases "trusted_proxy_entry_from_str N raw")
    case (Inr entry)
    note entry = Inr
    have push: "push_new (first_occurrences xs) cs = first_occurrences (xs @ cs)" for cs :: "'a list"
      by (rule push_new_first_occurrences)
    show ?thesis
    proof (cases entry)
      case (Cidr cidr)
      then have "resolve_entries N (raw # entries) (first_occurrences xs) (first_occurrences as) =
          resolve_entries N entries (first_occurrences (xs @ [cidr])) (first_occurrences as)"
        using entry push [of "[cidr]"] by simp
      moreover have "entry_networks N raw = Inr ([cidr], [])" using entry Cidr by (simp add: entry_networks_def)
      ultimately show ?thesis unfolding Cons.IH by (cases "try_map (entry_networks N) entries") simp_all
    next
      case (Alias al)
      then have "resolve_entries N (raw # entries) (first_occurrences xs) (first_occurrences as) =
          rbind (parse_alias_cidrs N al) (\<lambda>cs.
          resolve_entries N entries (first_occurrences (xs @ cs)) (first_occurrences (as @ [al])))"
        using entry by (simp add: push Let_def)
      moreover have "entry_networks N raw = rbind (parse_alias_cidrs N al) (\<lambda>cs. Inr (cs, [al]))"
        using entry Alias by (simp add: entry_networks_def)
      ultimately show ?thesis unfolding Cons.IH
        by (cases "parse_alias_cidrs N al"; cases "try_map (entry_networks N) entries") simp_all
    qed
  qed (simp add: entry_networks_def)
qed simp

lemma resolve_reference:
  "resolve_trusted_proxy_entries N entries =
     rbind (try_map (entry_networks N) entries) (\<lambda>rs.
     Inr (first_occurrences (concat (map fst rs)), first_occurrences (concat (map snd rs))))"
  using resolve_entries_reference [of N entries "[]" "[]"] by (simp add: resolve_trusted_proxy_entries_def)

subsection \<open>Normalised lists\<close>

lemma distinct_remdups_adj_sorted: "sorted xs \<Longrightarrow> distinct (remdups_adj xs)"
  for xs :: "'a :: linorder list"
  by (induction xs rule: remdups_adj.induct) (auto simp: le_less_trans order.strict_iff_order)

definition net_text_law :: "'n update_env \<Rightarrow> bool" where
  "net_text_law E \<longleftrightarrow> (\<forall>n. net_from_str (ue_net E) (ue_net_to_string E n) = Some n)"

lemma net_text_inj: "net_text_law E \<Longrightarrow> inj (ue_net_to_string E)"
  by (rule injI) (metis net_text_law_def option.inject)

lemma normalize_parsed:
  assumes law: "net_text_law E" and n: "normalize_cidrs E cidrs = Inr out"
  obtains parsed where "out = remdups_adj (map (ue_net_to_string E) (sort_key (ue_net_to_string E) parsed))"
    and "list_all2 (\<lambda>c n. net_from_str (ue_net E) c = Some n) cidrs parsed"
  using n net_text_inj [OF law]
  by (auto simp: normalize_cidrs_def try_map_Inr_iff remdups_adj_map_injective)

lemma try_map_texts:
  assumes "net_text_law E"
  shows "try_map (\<lambda>cidr. ok_or (net_from_str (ue_net E) cidr) (e cidr)) (map (ue_net_to_string E) ns) = Inr ns"
  using assms by (induction ns) (simp_all add: net_text_law_def)

lemma normalize_again:
  assumes law: "net_text_law E" and n: "normalize_cidrs E cidrs = Inr out"
  shows "normalize_cidrs E out = Inr out"
proof -
  let ?t = "ue_net_to_string E"
  obtain parsed where o: "out = remdups_adj (map ?t (sort_key ?t parsed))"
    using normalize_parsed [OF law n] by blast
  define ns where "ns = remdups_adj (sort_key ?t parsed)"
  have out: "out = map ?t ns" by (simp add: o ns_def remdups_adj_map_injective [OF net_text_inj [OF law]])
  have srt: "sorted (map ?t ns)" unfolding out [symmetric] o by (intro sorted_remdups_adj sorted_sort_key)
  have "distinct out" unfolding o by (intro distinct_remdups_adj_sorted sorted_sort_key)
  then have "distinct ns" by (simp add: out distinct_map)
  then have "map ?t (remdups_adj (sort_key ?t ns)) = out"
    using srt by (simp add: sort_key_id_if_sorted remdups_adj_distinct out)
  then show ?thesis unfolding normalize_cidrs_def by (simp only: out try_map_texts [OF law] rbind_simps)
qed

subsection \<open>A second run of the updater\<close>

lemma parse_args_check:
  "parse_args_loop argv ps chk t = Inr (Some args) \<Longrightarrow>
     parse_args_loop (argv @ [''--check'']) ps chk t = Inr (Some (args\<lparr>ua_check := True\<rparr>))"
proof (induction argv ps chk t rule: parse_args_loop.induct)
  case (2 arg argv ps chk t)
  consider (provider) "arg = ''--provider''" | (check) "arg = ''--check''" | (timeout) "arg = ''--timeout-seconds''"
    | (other) "arg \<noteq> ''--provider''" "arg \<noteq> ''--check''" "arg \<noteq> ''--timeout-seconds''" by blast
  then show ?case
  proof cases
    case provider
    then obtain raw argv' where a: "argv = raw # argv'" using "2.prems" by (cases argv) simp_all
    show ?thesis using "2.prems" "2.IH"(1,2) provider a
      by (cases "eq_ignore_ascii_case raw ''all''"; cases "alias_from_str raw") (simp_all del: parse_args_loop.simps add: parse_args_loop.simps(2))
  next
    case timeout
    then obtain raw argv' where a: "argv = raw # argv'" using "2.prems" by (cases argv) simp_all
    show ?thesis using "2.prems" "2.IH"(4) timeout a
      by (cases "parse_uint (2 ^ 64 - 1) raw") (simp_all del: parse_args_loop.simps add: parse_args_loop.simps(2))
  qed (use "2.prems" "2.IH"(3) in \<open>simp_all split: if_splits\<close>)
qed auto

lemma fetch_snapshot_date: "fetch_cidrs (E\<lparr>ue_current_date := d\<rparr>) a = fetch_cidrs E a"
proof -
  have "normalize_cidrs (E\<lparr>ue_current_date := d\<rparr>) = normalize_cidrs E" by (rule ext) (simp add: normalize_cidrs_def)
  then show ?thesis by (cases a) (simp_all cong: if_cong)
qed

lemma update_alias_result:
  assumes "update_alias E compiled args a = Inr (snapshot, status)" and "a \<in> set (ua_providers args)"
  shows "\<exists>cidrs. fetch_cidrs E a = Inr cidrs \<and> set (sd_cidrs snapshot) = set cidrs"
proof (cases "fetch_cidrs E a")
  case (Inr cidrs)
  let ?fetched = "\<lparr>sd_source_url = sd_source_url (compiled a), sd_fetched_at = ue_current_date E, sd_cidrs = cidrs\<rparr>"
  have "fetch_snapshot E compiled a (ue_current_date E) = Inr ?fetched" using Inr by (simp add: fetch_snapshot_def)
  then have "snapshot = (if \<not> same_cidrs (sd_cidrs (compiled a)) cidrs then ?fetched else compiled a)"
    using assms by (simp add: update_alias_def Let_def)
  then show ?thesis using Inr by (cases "same_cidrs (sd_cidrs (compiled a)) cidrs") (simp_all add: same_cidrs_def)
qed (use assms in \<open>simp add: update_alias_def fetch_snapshot_def\<close>)

lemma update_alias_again:
  assumes u: "update_alias E compiled args a = Inr (compiled' a, status)" and p: "ua_providers args' = ua_providers args"
  shows "\<exists>status'. update_alias (E\<lparr>ue_current_date := d\<rparr>) compiled' args' a = Inr (compiled' a, status')"
proof (cases "a \<in> set (ua_providers args)")
  case True
  from update_alias_result [OF u True] obtain cidrs where f: "fetch_cidrs E a = Inr cidrs"
    and c: "set (sd_cidrs (compiled' a)) = set cidrs" by blast
  have "fetch_snapshot (E\<lparr>ue_current_date := d\<rparr>) compiled' a d =
      Inr \<lparr>sd_source_url = sd_source_url (compiled' a), sd_fetched_at = d, sd_cidrs = cidrs\<rparr>"
    using f by (simp add: fetch_snapshot_def fetch_snapshot_date)
  then show ?thesis using True p c by (simp add: update_alias_def same_cidrs_def Let_def)
qed (simp add: update_alias_def p)

lemma update_aliases_again:
  assumes "update_aliases E compiled args as = Inr (snapshots, statuses)" and "distinct as"
    and "\<And>a. a \<in> set as \<Longrightarrow> map_of snapshots a = Some (compiled' a)" and "ua_providers args' = ua_providers args"
  shows "\<exists>statuses'. update_aliases (E\<lparr>ue_current_date := d\<rparr>) compiled' args' as = Inr (snapshots, statuses')"
  using assms(1-3)
proof (induction "as" arbitrary: snapshots statuses)
  case (Cons a "as")
  obtain snap st rest sts where u: "update_alias E compiled args a = Inr (snap, st)"
    and r: "update_aliases E compiled args as = Inr (rest, sts)" and s: "snapshots = (a, snap) # rest"
    using Cons.prems(1) by auto
  have c: "snap = compiled' a" using Cons.prems(3) [of a] s by simp
  from update_alias_again [where compiled' = compiled', OF u [unfolded c] assms(4)]
  obtain st' where u': "update_alias (E\<lparr>ue_current_date := d\<rparr>) compiled' args' a = Inr (snap, st')" using c by blast
  have "map_of rest b = Some (compiled' b)" if "b \<in> set as" for b
    using Cons.prems(2) Cons.prems(3) [of b] that s by (auto split: if_splits)
  then obtain sts' where "update_aliases (E\<lparr>ue_current_date := d\<rparr>) compiled' args' as = Inr (rest, sts')"
    using Cons.IH [OF r] Cons.prems(2) by auto
  then show ?case using u' s by simp
qed simp

lemma update_aliases_keys:
  "update_aliases E compiled args as = Inr (snapshots, statuses) \<Longrightarrow> map fst snapshots = as"
  by (induction "as" arbitrary: snapshots statuses) auto

lemma update_aliases_lookup:
  "update_aliases E compiled args as = Inr (snapshots, statuses) \<Longrightarrow> a \<in> set as \<Longrightarrow> \<exists>x. map_of snapshots a = Some x"
  by (metis list.set_map map_of_eq_None_iff not_None_eq update_aliases_keys)

text \<open>The file after a run that ended well, and the lists the tool is compiled with from then on.\<close>

definition file_after :: "bytes \<Rightarrow> update_outcome \<Rightarrow> bytes" where
  "file_after existing outcome = (case outcome of Written rendered _ \<Rightarrow> rendered | _ \<Rightarrow> existing)"

definition recompiled :: "(builtin_alias \<times> snapshot_data) list \<Rightarrow> builtin_alias \<Rightarrow> snapshot_data" where
  "recompiled snapshots a = the (map_of snapshots a)"

lemma try_map_total: "(\<And>x. x \<in> set xs \<Longrightarrow> \<exists>y. f x = Inr y) \<Longrightarrow> \<exists>ys. try_map f xs = Inr ys"
  by (induction xs) fastforce+

lemma render_total:
  assumes "update_aliases E compiled args BUILTIN_ALIASES = Inr (snapshots, statuses)"
  shows "\<exists>rendered. render_snapshots_module snapshots = Inr rendered"
proof -
  have "\<exists>b. render_alias snapshots a = Inr b" if "a \<in> set BUILTIN_ALIASES" for a
    using update_aliases_lookup [OF assms that] by (auto simp: render_alias_def Let_def)
  from try_map_total [OF this] show ?thesis by (auto simp: render_snapshots_module_def)
qed

lemma update_main_rendered:
  assumes "parse_args argv = Inr (Some args)" and "update_aliases E compiled args BUILTIN_ALIASES = Inr (snapshots, statuses)"
    and "update_main E compiled argv existing w = Inr outcome"
  obtains rendered where "render_snapshots_module snapshots = Inr rendered"
    and "trim_end (file_after existing outcome) = trim_end rendered"
  using assms by (auto simp: update_main_def file_after_def split: if_splits)

section \<open>Properties\<close>

text \<open>C33: The configured trusted proxies.  The single pass over the entries gives what the two-stage
  reference gives, the networks of all entries in the order of their first occurrence, or the error of the
  first bad entry; so no network occurs twice, and an address is trusted exactly if it lies in a network
  that some entry names, directly or through a provider.\<close>

theorem trusted_entries_resolved:
  "resolve_trusted_proxy_entries N entries =
     rbind (try_map (entry_networks N) entries) (\<lambda>rs.
     Inr (first_occurrences (concat (map fst rs)), first_occurrences (concat (map snd rs)))) \<and>
   (\<forall>cidrs aliases ip. resolve_trusted_proxy_entries N entries = Inr (cidrs, aliases) \<longrightarrow>
      distinct cidrs \<and>
      (is_trusted_proxy N cidrs ip \<longleftrightarrow>
        (\<exists>raw ns as. raw \<in> set entries \<and> entry_networks N raw = Inr (ns, as) \<and> is_trusted_proxy N ns ip)))"
proof (intro conjI allI impI)
  fix cidrs aliases ip assume r: "resolve_trusted_proxy_entries N entries = Inr (cidrs, aliases)"
  then obtain rs where rs: "try_map (entry_networks N) entries = Inr rs" and c: "cidrs = first_occurrences (concat (map fst rs))"
    by (auto simp: resolve_reference)
  have l: "list_all2 (\<lambda>raw r. entry_networks N raw = Inr r) entries rs" using rs by (simp add: try_map_Inr_iff)
  show "distinct cidrs" by (simp add: c)
  have "is_trusted_proxy N cidrs ip \<longleftrightarrow> (\<exists>r\<in>set rs. is_trusted_proxy N (fst r) ip)"
    by (auto simp: c is_trusted_proxy_def list_ex_iff)
  also have "\<dots> \<longleftrightarrow> (\<exists>raw\<in>set entries. \<exists>r. entry_networks N raw = Inr r \<and> is_trusted_proxy N (fst r) ip)"
    using l by (induction rule: list_all2_induct) auto
  finally show "is_trusted_proxy N cidrs ip \<longleftrightarrow>
      (\<exists>raw ns as. raw \<in> set entries \<and> entry_networks N raw = Inr (ns, as) \<and> is_trusted_proxy N ns ip)"
    by auto
qed (rule resolve_reference)

definition text_net_api :: "bytes net_api" where
  "text_net_api = \<lparr>net_contains = (\<lambda>net ip. net = display_ip ip), net_from_str = Some, itoa_u8 = (\<lambda>b. show_nat (unat b))\<rparr>"

theorem trusted_entries_resolved_witness:
  "resolve_trusted_proxy_entries text_net_api [''10.0.0.1'', '' Fastly '', ''10.0.0.1''] =
     Inr (''10.0.0.1'' # FASTLY_CIDRS, [Fastly]) \<and> distinct (''10.0.0.1'' # FASTLY_CIDRS)"
proof -
  have t: "entry_networks text_net_api ''10.0.0.1'' = Inr ([''10.0.0.1''], [])"
    by (simp add: entry_networks_def trusted_proxy_entry_from_str_def alias_from_str_def text_net_api_def
        to_ascii_lowercase_def lower_char_def trim_def rust_simps)
  have "to_ascii_lowercase (trim '' Fastly '') = ''fastly''"
    by code_simp
  then have a: "entry_networks text_net_api '' Fastly '' = Inr (FASTLY_CIDRS, [Fastly])"
    by (simp add: entry_networks_def trusted_proxy_entry_from_str_def alias_from_str_def parse_alias_cidrs_def Let_def
        try_map_all_Inr text_net_api_def)
  have "resolve_trusted_proxy_entries text_net_api [''10.0.0.1'', '' Fastly '', ''10.0.0.1''] =
      Inr (first_occurrences ([''10.0.0.1''] @ FASTLY_CIDRS @ [''10.0.0.1'']), [Fastly])"
    using trusted_entries_resolved [of text_net_api "[''10.0.0.1'', '' Fastly '', ''10.0.0.1'']"] t a
    by (simp add: first_occurrences_def)
  moreover have "first_occurrences ([''10.0.0.1''] @ FASTLY_CIDRS @ [''10.0.0.1'']) = ''10.0.0.1'' # FASTLY_CIDRS"
    by (simp add: first_occurrences_def FASTLY_CIDRS_def)
  ultimately have r: "resolve_trusted_proxy_entries text_net_api [''10.0.0.1'', '' Fastly '', ''10.0.0.1''] =
      Inr (''10.0.0.1'' # FASTLY_CIDRS, [Fastly])" by simp
  then show ?thesis using trusted_entries_resolved [of text_net_api "[''10.0.0.1'', '' Fastly '', ''10.0.0.1'']"] by blast
qed

text \<open>The updater is idempotent.  After a run that ended well, a check with the new lists compiled in
  finds the file up to date, whatever the date is, as long as the providers still answer the same.\<close>

theorem updater_idempotent:
  assumes "parse_args argv = Inr (Some args)"
    and "update_aliases E compiled args BUILTIN_ALIASES = Inr (snapshots, statuses)"
    and "update_main E compiled argv existing w = Inr outcome"
  shows "update_main (E\<lparr>ue_current_date := date\<rparr>) (recompiled snapshots) (argv @ [''--check'']) (file_after existing outcome) w' =
    Inr UpToDate"
proof -
  obtain rendered where r: "render_snapshots_module snapshots = Inr rendered"
    and f: "trim_end (file_after existing outcome) = trim_end rendered"
    using update_main_rendered [OF assms] .
  have d: "distinct BUILTIN_ALIASES" by (simp add: BUILTIN_ALIASES_def)
  have "map_of snapshots a = Some (recompiled snapshots a)" if "a \<in> set BUILTIN_ALIASES" for a
    using update_aliases_lookup [OF assms(2) that] by (auto simp: recompiled_def)
  from update_aliases_again [where compiled' = "recompiled snapshots" and args' = "args\<lparr>ua_check := True\<rparr>", OF assms(2) d this]
  obtain statuses' where u: "update_aliases (E\<lparr>ue_current_date := date\<rparr>) (recompiled snapshots) (args\<lparr>ua_check := True\<rparr>) BUILTIN_ALIASES =
      Inr (snapshots, statuses')" by auto
  have "parse_args (argv @ [''--check'']) = Inr (Some (args\<lparr>ua_check := True\<rparr>))"
    using assms(1) parse_args_check by (simp add: parse_args_def)
  then show ?thesis using u r f by (simp add: update_main_def)
qed

theorem updater_idempotent_witness:
  "\<exists>snapshots file. update_main \<lparr>ue_net = text_net_api, ue_net_to_string = (\<lambda>n. n), ue_current_date = ''2026-12-01'',
      ue_cloudflare = None, ue_cloudfront = None, ue_fastly = Some ([''1.2.3.4/32''], [])\<rparr> (recompiled snapshots)
      [''--provider'', ''fastly'', ''--check''] file True = Inr UpToDate"
proof -
  let ?E = "\<lparr>ue_net = text_net_api, ue_net_to_string = (\<lambda>n. n), ue_current_date = ''2026-11-01'',
      ue_cloudflare = None, ue_cloudfront = None, ue_fastly = Some ([''1.2.3.4/32''], [])\<rparr>"
  let ?argv = "[''--provider'', ''fastly'']"
  let ?args = "\<lparr>ua_providers = [Fastly], ua_check = False, ua_timeout_seconds = 10\<rparr>"
  have p: "parse_args ?argv = Inr (Some ?args)"
    by (simp add: parse_args_def alias_from_str_def eq_ignore_ascii_case_def to_ascii_lowercase_def lower_char_def trim_def rust_simps)
  have "fetch_cidrs ?E Fastly = Inr [''1.2.3.4/32'']" by (simp add: normalize_cidrs_def text_net_api_def)
  then have "\<exists>x. update_alias ?E compiled_snapshot ?args Fastly = Inr x"
    by (simp add: update_alias_def fetch_snapshot_def Let_def)
  then have "\<exists>x. update_aliases ?E compiled_snapshot ?args BUILTIN_ALIASES = Inr x"
    by (auto simp: BUILTIN_ALIASES_def update_alias_def [of _ _ _ Cloudflare] update_alias_def [of _ _ _ Cloudfront])
  then obtain snapshots statuses where u: "update_aliases ?E compiled_snapshot ?args BUILTIN_ALIASES = Inr (snapshots, statuses)"
    by auto
  obtain outcome where "update_main ?E compiled_snapshot ?argv [] True = Inr outcome"
    using p u render_total [OF u] by (cases "trim_end [] = trim_end (projr (render_snapshots_module snapshots))") (auto simp: update_main_def)
  from updater_idempotent [OF p u this, of "''2026-12-01''" True] show ?thesis by auto
qed

end
