(* ===== verification/Acme_Cache.thy ===== *)
theory Acme_Cache
  imports Cache_Spool
begin

text \<open>
  The ACME crate (\<open>rpxy-acme\<close>): the directory cache in which account keys and certificates are kept
  (\<open>dir_cache.rs\<close>) and the set-up of the manager (\<open>manager.rs\<close>).  The file tree is explicit, with the modes
  of its entries; every operation on it can fail.  SHA-256 and base64, the parsing of a URL and the ACME
  protocol itself (\<open>rustls-acme\<close>, which calls the cache) are outside.
\<close>

unbundle bit_operations_syntax

section \<open>The file tree\<close>

text \<open>
  A path names an entry by whether it is absolute and by its components, here from the last to the first;
  empty components and \<open>.\<close> do not count.  The empty list is the root or the working directory.  Links
  and \<open>..\<close> are not resolved.
\<close>

type_synonym node = "bool \<times> bytes list"

definition resolve_path :: "path \<Rightarrow> node" where
  "resolve_path p = (prefix ''/'' p, rev (filter (\<lambda>c. c \<noteq> [] \<and> c \<noteq> ''.'') (split_on (CHR ''/'') p)))"

record dir_tree =
  dt_dirs :: "node \<Rightarrow> u32 option"
  dt_files :: "node \<Rightarrow> (u32 \<times> bytes) option"

datatype fs_error = EntryNotFound | EntryExists | EntryDenied | EntryOther

text \<open>The process's umask, and for every operation on an entry the failure it meets, if any; a failing write
  has written the given number of bytes.\<close>

record dir_io =
  io_umask :: u32
  io_mkdir :: "node \<Rightarrow> fs_error option"
  io_open :: "node \<Rightarrow> fs_error option"
  io_write :: "node \<Rightarrow> nat option"
  io_read :: "node \<Rightarrow> fs_error option"
  io_unlink :: "node \<Rightarrow> fs_error option"

definition is_dir :: "dir_tree \<Rightarrow> node \<Rightarrow> bool" where
  "is_dir t n \<longleftrightarrow> snd n = [] \<or> dt_dirs t n \<noteq> None"

definition path_exists :: "dir_tree \<Rightarrow> node \<Rightarrow> bool" where
  "path_exists t n \<longleftrightarrow> is_dir t n \<or> dt_files t n \<noteq> None"

definition parent_error :: "dir_tree \<Rightarrow> node \<Rightarrow> fs_error option" where
  "parent_error t n =
     (let p = (fst n, tl (snd n))
      in if is_dir t p then None else if dt_files t p \<noteq> None then Some EntryOther else Some EntryNotFound)"

text \<open>\<open>mkdir(2)\<close>, and \<open>DirBuilder::create\<close> with \<open>recursive\<close>.\<close>

definition mkdir :: "dir_io \<Rightarrow> u32 \<Rightarrow> node \<Rightarrow> dir_tree \<Rightarrow> (fs_error + unit) \<times> dir_tree" where
  "mkdir io mode n t =
     (case io_mkdir io n of
        Some e \<Rightarrow> (Inl e, t)
      | None \<Rightarrow>
          (case parent_error t n of
             Some e \<Rightarrow> (Inl e, t)
           | None \<Rightarrow>
               if path_exists t n then (Inl EntryExists, t)
               else (Inr (), t\<lparr>dt_dirs := (dt_dirs t)(n \<mapsto> mode AND NOT (io_umask io))\<rparr>)))"

fun create_dir_all :: "dir_io \<Rightarrow> u32 \<Rightarrow> bool \<Rightarrow> bytes list \<Rightarrow> dir_tree \<Rightarrow> (fs_error + unit) \<times> dir_tree" where
  "create_dir_all io mode b [] t = (Inr (), t)"
| "create_dir_all io mode b (c # cs) t =
     (case mkdir io mode (b, c # cs) t of
        (Inr u, t') \<Rightarrow> (Inr u, t')
      | (Inl e, _) \<Rightarrow>
          if e \<noteq> EntryNotFound then (if is_dir t (b, c # cs) then Inr () else Inl e, t)
          else
            (case create_dir_all io mode b cs t of
               (Inl e, t') \<Rightarrow> (Inl e, t')
             | (Inr _, t') \<Rightarrow>
                 (case mkdir io mode (b, c # cs) t' of
                    (Inr u, t'') \<Rightarrow> (Inr u, t'')
                  | (Inl e, _) \<Rightarrow> (if is_dir t' (b, c # cs) then Inr () else Inl e, t'))))"

section \<open>The directory cache\<close>

definition ACME_DIR_URL :: bytes where
  "ACME_DIR_URL = ''https://acme-v02.api.letsencrypt.org/directory''"

definition ACME_REGISTRY_PATH :: path where
  "ACME_REGISTRY_PATH = ''./acme_registry''"

definition ACME_ACCOUNT_SUBDIR :: bytes where
  "ACME_ACCOUNT_SUBDIR = ''accounts''"

definition DIR_MODE :: u32 where "DIR_MODE = 0x1C0"
definition FILE_MODE :: u32 where "FILE_MODE = 0x180"

definition create_dir_secure :: "dir_io \<Rightarrow> path \<Rightarrow> dir_tree \<Rightarrow> (fs_error + unit) \<times> dir_tree" where
  "create_dir_secure io dir t = (case resolve_path dir of (b, cs) \<Rightarrow> create_dir_all io DIR_MODE b cs t)"

text \<open>Opening with \<open>create\<close> and \<open>truncate\<close>, then \<open>write_all\<close>.\<close>

definition write_file_secure :: "dir_io \<Rightarrow> path \<Rightarrow> bytes \<Rightarrow> dir_tree \<Rightarrow> (fs_error + unit) \<times> dir_tree" where
  "write_file_secure io p contents t =
     (let n = resolve_path p
      in case io_open io n of
           Some e \<Rightarrow> (Inl e, t)
         | None \<Rightarrow>
             if is_dir t n then (Inl EntryOther, t)
             else case parent_error t n of
                    Some e \<Rightarrow> (Inl e, t)
                  | None \<Rightarrow>
                      (let mode = (case dt_files t n of Some (m, _) \<Rightarrow> m | None \<Rightarrow> FILE_MODE AND NOT (io_umask io))
                       in case io_write io n of
                            Some k \<Rightarrow> (Inl EntryOther, t\<lparr>dt_files := (dt_files t)(n \<mapsto> (mode, take k contents))\<rparr>)
                          | None \<Rightarrow> (Inr (), t\<lparr>dt_files := (dt_files t)(n \<mapsto> (mode, contents))\<rparr>)))"

text \<open>\<open>std::fs::read\<close> and \<open>remove_file\<close>.\<close>

definition fs_read :: "dir_io \<Rightarrow> path \<Rightarrow> dir_tree \<Rightarrow> fs_error + bytes" where
  "fs_read io p t =
     (let n = resolve_path p
      in case io_read io n of
           Some e \<Rightarrow> Inl e
         | None \<Rightarrow>
             (case dt_files t n of
                Some (_, content) \<Rightarrow> Inr content
              | None \<Rightarrow> if is_dir t n then Inl EntryOther else Inl EntryNotFound))"

definition fs_unlink :: "dir_io \<Rightarrow> path \<Rightarrow> dir_tree \<Rightarrow> (fs_error + unit) \<times> dir_tree" where
  "fs_unlink io p t =
     (let n = resolve_path p
      in case io_unlink io n of
           Some e \<Rightarrow> (Inl e, t)
         | None \<Rightarrow>
             if dt_files t n = None then (Inl (if is_dir t n then EntryOther else EntryNotFound), t)
             else (Inr (), t\<lparr>dt_files := (dt_files t)(n := None)\<rparr>))"

datatype file_type = Account | Cert

record dir_cache =
  account_dir :: path
  cert_dir :: path

definition dir_cache_new :: "path \<Rightarrow> bytes \<Rightarrow> dir_cache" where
  "dir_cache_new dir server_name =
     \<lparr>account_dir = path_join dir ACME_ACCOUNT_SUBDIR, cert_dir = path_join dir server_name\<rparr>"

fun cache_subdir :: "dir_cache \<Rightarrow> file_type \<Rightarrow> path" where
  "cache_subdir dc Account = account_dir dc"
| "cache_subdir dc Cert = cert_dir dc"

definition read_if_exist :: "dir_io \<Rightarrow> dir_cache \<Rightarrow> bytes \<Rightarrow> file_type \<Rightarrow> dir_tree \<Rightarrow> fs_error + bytes option" where
  "read_if_exist io dc f ft t =
     (case fs_read io (path_join (cache_subdir dc ft) f) t of
        Inr content \<Rightarrow> Inr (Some content)
      | Inl e \<Rightarrow> if e = EntryNotFound then Inr None else Inl e)"

definition dir_cache_write :: "dir_io \<Rightarrow> dir_cache \<Rightarrow> bytes \<Rightarrow> bytes \<Rightarrow> file_type \<Rightarrow> dir_tree \<Rightarrow> (fs_error + unit) \<times> dir_tree" where
  "dir_cache_write io dc f contents ft t =
     (case create_dir_secure io (cache_subdir dc ft) t of
        (Inl e, t) \<Rightarrow> (Inl e, t)
      | (Inr _, t) \<Rightarrow> write_file_secure io (path_join (cache_subdir dc ft) f) contents t)"

text \<open>The hash over the elements, each followed by a NUL byte, and the directory URL.\<close>

definition cached_hash :: "cache_digest \<Rightarrow> bytes list \<Rightarrow> bytes \<Rightarrow> bytes" where
  "cached_hash D elems directory_url =
     digest_base64 D (digest_sha256 D (concat (map (\<lambda>e. e @ [CHR 0x00]) elems) @ directory_url))"

definition cached_account_file_name :: "cache_digest \<Rightarrow> bytes list \<Rightarrow> bytes \<Rightarrow> bytes" where
  "cached_account_file_name D contact directory_url = ''cached_account_'' @ cached_hash D contact directory_url"

definition cached_cert_file_name :: "cache_digest \<Rightarrow> bytes list \<Rightarrow> bytes \<Rightarrow> bytes" where
  "cached_cert_file_name D domains directory_url = ''cached_cert_'' @ cached_hash D domains directory_url"

definition load_cert :: "cache_digest \<Rightarrow> dir_io \<Rightarrow> dir_cache \<Rightarrow> bytes list \<Rightarrow> bytes \<Rightarrow> dir_tree \<Rightarrow> fs_error + bytes option" where
  "load_cert D io dc domains directory_url t = read_if_exist io dc (cached_cert_file_name D domains directory_url) Cert t"

definition store_cert :: "cache_digest \<Rightarrow> dir_io \<Rightarrow> dir_cache \<Rightarrow> bytes list \<Rightarrow> bytes \<Rightarrow> bytes \<Rightarrow> dir_tree \<Rightarrow>
    (fs_error + unit) \<times> dir_tree" where
  "store_cert D io dc domains directory_url cert t =
     dir_cache_write io dc (cached_cert_file_name D domains directory_url) cert Cert t"

definition load_account :: "cache_digest \<Rightarrow> dir_io \<Rightarrow> dir_cache \<Rightarrow> bytes list \<Rightarrow> bytes \<Rightarrow> dir_tree \<Rightarrow> fs_error + bytes option" where
  "load_account D io dc contact directory_url t = read_if_exist io dc (cached_account_file_name D contact directory_url) Account t"

definition store_account :: "cache_digest \<Rightarrow> dir_io \<Rightarrow> dir_cache \<Rightarrow> bytes list \<Rightarrow> bytes \<Rightarrow> bytes \<Rightarrow> dir_tree \<Rightarrow>
    (fs_error + unit) \<times> dir_tree" where
  "store_account D io dc contact directory_url account t =
     dir_cache_write io dc (cached_account_file_name D contact directory_url) account Account t"

text \<open>The write test, with a file named by process and time.\<close>

definition probe_name :: "nat \<Rightarrow> nat \<Rightarrow> bytes" where
  "probe_name pid nanos = ''.write_test_'' @ show_nat pid @ ''_'' @ show_nat nanos"

definition verify_dir_writable :: "dir_io \<Rightarrow> nat \<Rightarrow> nat \<Rightarrow> path \<Rightarrow> dir_tree \<Rightarrow> (fs_error + unit) \<times> dir_tree" where
  "verify_dir_writable io pid nanos dir t =
     (case create_dir_secure io dir t of
        (Inl e, t) \<Rightarrow> (Inl e, t)
      | (Inr _, t) \<Rightarrow>
          (let test_file = path_join dir (probe_name pid nanos)
           in case write_file_secure io test_file ''test'' t of
                (Inl e, t) \<Rightarrow> (Inl e, t)
              | (Inr _, t) \<Rightarrow> fs_unlink io test_file t))"

definition verify_write_permissions :: "dir_io \<Rightarrow> nat \<Rightarrow> nat \<times> nat \<Rightarrow> dir_cache \<Rightarrow> dir_tree \<Rightarrow> (fs_error + unit) \<times> dir_tree" where
  "verify_write_permissions io pid clock dc t =
     (case verify_dir_writable io pid (fst clock) (account_dir dc) t of
        (Inl e, t) \<Rightarrow> (Inl e, t)
      | (Inr _, t) \<Rightarrow> verify_dir_writable io pid (snd clock) (cert_dir dc) t)"

section \<open>The manager\<close>

datatype acme_error = InvalidAcmeRegistryPath | InvalidUrl bytes | WritePermissionDenied bytes path fs_error

record acme_manager =
  acme_dir_url :: bytes
  acme_contacts :: "bytes list"
  acme_inner :: "(bytes \<times> dir_cache) list"

text \<open>
  The checks of the domains run concurrently in the program; here they run one after the other, in
  the order of the map.  \<open>clock\<close> gives the clock readings of each domain's checks.
\<close>

fun verify_all :: "dir_io \<Rightarrow> nat \<Rightarrow> (bytes \<Rightarrow> nat \<times> nat) \<Rightarrow> path \<Rightarrow> (bytes \<times> dir_cache) list \<Rightarrow> dir_tree \<Rightarrow>
    (acme_error + unit) \<times> dir_tree" where
  "verify_all io pid clock p [] t = (Inr (), t)"
| "verify_all io pid clock p ((domain, dc) # inner) t =
     (case verify_write_permissions io pid (clock domain) dc t of
        (Inl e, t) \<Rightarrow> (Inl (WritePermissionDenied domain p e), t)
      | (Inr _, t) \<Rightarrow> verify_all io pid clock p inner t)"

text \<open>\<open>url_parse\<close> is \<open>Url::parse\<close> followed by \<open>as_str\<close>: the serialised URL.\<close>

definition acme_registry_dir :: "path option \<Rightarrow> path" where
  "acme_registry_dir registry = (case registry of None \<Rightarrow> ACME_REGISTRY_PATH | Some p \<Rightarrow> to_ascii_lowercase p)"

definition acme_inner_map :: "path \<Rightarrow> bytes list \<Rightarrow> (bytes \<times> dir_cache) list" where
  "acme_inner_map dir domains =
     foldl (\<lambda>m domain. AList.update (to_ascii_lowercase domain) (dir_cache_new dir (to_ascii_lowercase domain)) m) [] domains"

definition acme_try_new :: "(bytes \<Rightarrow> bytes option) \<Rightarrow> dir_io \<Rightarrow> nat \<Rightarrow> (bytes \<Rightarrow> nat \<times> nat) \<Rightarrow> bytes option \<Rightarrow> path option \<Rightarrow>
    bytes list \<Rightarrow> bytes list \<Rightarrow> dir_tree \<Rightarrow> (acme_error + acme_manager) \<times> dir_tree" where
  "acme_try_new url_parse io pid clock dir_url registry contacts domains t =
     (let dir = acme_registry_dir registry; n = resolve_path dir
      in if path_exists t n \<and> \<not> is_dir t n then (Inl InvalidAcmeRegistryPath, t)
         else
           let url = (case dir_url of None \<Rightarrow> ACME_DIR_URL | Some u \<Rightarrow> to_ascii_lowercase u)
           in case url_parse url of
                None \<Rightarrow> (Inl (InvalidUrl url), t)
              | Some parsed \<Rightarrow>
                  (let inner = acme_inner_map dir domains
                   in case verify_all io pid clock dir inner t of
                        (Inl e, t) \<Rightarrow> (Inl e, t)
                      | (Inr _, t) \<Rightarrow>
                          (Inr \<lparr>acme_dir_url = parsed, acme_contacts = map (\<lambda>email. ''mailto:'' @ email) contacts, acme_inner = inner\<rparr>, t)))"

text \<open>The challenge configurations \<open>spawn_manager_tasks\<close> hands to the listeners; \<open>challenge\<close> is the ACME
  state's \<open>challenge_rustls_config\<close>.\<close>

definition server_configs_for_challenge :: "(bytes \<Rightarrow> 'c) \<Rightarrow> acme_manager \<Rightarrow> (bytes \<times> 'c) list" where
  "server_configs_for_challenge challenge am =
     foldl (\<lambda>m (domain, _). AList.update (to_ascii_lowercase domain) (challenge domain) m) [] (acme_inner am)"

section \<open>Lemmas\<close>

definition component :: "bytes \<Rightarrow> bool" where
  "component c \<longleftrightarrow> CHR ''/'' \<notin> set c \<and> c \<noteq> [] \<and> c \<noteq> ''.''"

lemma resolve_slash:
  assumes "component name"
  shows "resolve_path (dir @ ''/'' @ name) = (dir = [] \<or> fst (resolve_path dir), name # snd (resolve_path dir))"
proof -
  have "split_on (CHR ''/'') (dir @ ''/'' @ name) = split_on (CHR ''/'') dir @ [name]"
    using assms by (simp add: split_on_append_sep split_on_no_sep component_def)
  moreover have "prefix ''/'' (dir @ ''/'' @ name) \<longleftrightarrow> dir = [] \<or> prefix ''/'' dir"
    by (cases dir) simp_all
  ultimately show ?thesis using assms by (simp add: resolve_path_def component_def)
qed

lemma resolve_join:
  assumes "component name"
  shows "resolve_path (path_join dir name) = (fst (resolve_path dir), name # snd (resolve_path dir))"
proof (cases "dir = [] \<or> last dir = CHR ''/''")
  case True
  show ?thesis
  proof (cases "dir = []")
    case True
    then show ?thesis using assms
      by (cases name) (auto simp: path_join_def resolve_path_def split_on_no_sep component_def)
  next
    case False
    with True obtain d where d: "dir = d @ ''/''" by (metis append_butlast_last_id)
    have "path_join dir name = d @ ''/'' @ name" by (simp add: path_join_def d)
    moreover have "resolve_path dir = (d = [] \<or> fst (resolve_path d), snd (resolve_path d))"
    proof -
      have "split_on (CHR ''/'') (d @ ''/'') = split_on (CHR ''/'') d @ [[]]"
        using split_on_append_sep [of "CHR ''/''" d "[]"] by (simp add: split_on_def)
      then show ?thesis unfolding d resolve_path_def by (cases d) simp_all
    qed
    ultimately show ?thesis using resolve_slash [OF assms, of d] by simp
  qed
next
  case False
  then show ?thesis using resolve_slash [OF assms, of dir] by (simp add: path_join_def)
qed

subsection \<open>What the operations change\<close>

text \<open>Making directories keeps files and existing directories; new ones are on the way and have the mode.\<close>

definition dirs_made :: "u32 \<Rightarrow> bool \<Rightarrow> bytes list \<Rightarrow> dir_tree \<Rightarrow> dir_tree \<Rightarrow> bool" where
  "dirs_made mode b cs t t' \<longleftrightarrow>
     dt_files t' = dt_files t \<and>
     (\<forall>n. dt_dirs t' n = dt_dirs t n \<or>
        (dt_dirs t n = None \<and> dt_dirs t' n = Some mode \<and> (\<exists>k. n = (b, drop k cs) \<and> k < length cs)))"

lemma dirs_made_refl [simp]: "dirs_made mode b cs t t"
  by (simp add: dirs_made_def)

lemma dirs_made_Cons: "dirs_made mode b cs t t' \<Longrightarrow> dirs_made mode b (c # cs) t t'"
  unfolding dirs_made_def by (metis drop_Suc_Cons length_Cons not_less_eq)

lemma dirs_made_trans: "dirs_made mode b cs t t' \<Longrightarrow> dirs_made mode b cs t' t'' \<Longrightarrow> dirs_made mode b cs t t''"
  unfolding dirs_made_def by (metis option.distinct(1))

lemma mkdir_made:
  assumes "mkdir io mode (b, c # cs) t = (r, t')"
  shows "dirs_made (mode AND NOT (io_umask io)) b (c # cs) t t'" and "r = Inr () \<Longrightarrow> is_dir t' (b, c # cs)"
proof -
  have "t' = t \<or> t' = t\<lparr>dt_dirs := (dt_dirs t)((b, c # cs) \<mapsto> mode AND NOT (io_umask io))\<rparr> \<and> dt_dirs t (b, c # cs) = None"
    using assms by (auto simp: mkdir_def path_exists_def is_dir_def split: option.splits if_splits)
  then show "dirs_made (mode AND NOT (io_umask io)) b (c # cs) t t'"
  proof (elim disjE conjE)
    assume t': "t' = t\<lparr>dt_dirs := (dt_dirs t)((b, c # cs) \<mapsto> mode AND NOT (io_umask io))\<rparr>" and n: "dt_dirs t (b, c # cs) = None"
    have "\<exists>k. (b, c # cs) = (b, drop k (c # cs)) \<and> k < length (c # cs)" by (intro exI [of _ 0]) simp
    then show ?thesis unfolding dirs_made_def t' using n by (auto simp del: split_paired_All)
  qed simp
  show "r = Inr () \<Longrightarrow> is_dir t' (b, c # cs)"
    using assms by (auto simp: mkdir_def is_dir_def split: option.splits if_splits)
qed

lemma create_dir_all_made:
  "create_dir_all io mode b cs t = (r, t') \<Longrightarrow>
     dirs_made (mode AND NOT (io_umask io)) b cs t t' \<and> (r = Inr () \<longrightarrow> is_dir t' (b, cs))"
proof (induction cs arbitrary: t t' r)
  case (Cons c cs)
  let ?m = "mode AND NOT (io_umask io)"
  obtain r1 t1 where m: "mkdir io mode (b, c # cs) t = (r1, t1)" by fastforce
  show ?case
  proof (cases r1)
    case (Inr u)
    then show ?thesis using Cons.prems m mkdir_made [OF m] by auto
  next
    case (Inl e)
    note e = Inl
    show ?thesis
    proof (cases "e = EntryNotFound")
      case False
      then show ?thesis using Cons.prems m e by (auto split: if_splits)
    next
      case True
      obtain r2 t2 where c: "create_dir_all io mode b cs t = (r2, t2)" by fastforce
      have made: "dirs_made ?m b (c # cs) t t2" using Cons.IH [OF c] dirs_made_Cons by blast
      show ?thesis
      proof (cases r2)
        case (Inl e2)
        then show ?thesis using Cons.prems m e True c made by auto
      next
        case (Inr u)
        obtain r3 t3 where m3: "mkdir io mode (b, c # cs) t2 = (r3, t3)" by fastforce
        show ?thesis
          using Cons.prems m e True c Inr m3 made mkdir_made [OF m3] dirs_made_trans [OF made]
          by (cases r3) (auto split: if_splits)
      qed
    qed
  qed
qed (simp add: is_dir_def)

lemma create_dir_secure_made:
  assumes "create_dir_secure io dir t = (r, t')"
  shows "dirs_made (DIR_MODE AND NOT (io_umask io)) (fst (resolve_path dir)) (snd (resolve_path dir)) t t'"
    and "r = Inr () \<Longrightarrow> is_dir t' (resolve_path dir)"
  using assms create_dir_all_made [of io DIR_MODE "fst (resolve_path dir)" "snd (resolve_path dir)" t r t']
  by (auto simp: create_dir_secure_def split: prod.splits)

definition written_mode :: "dir_io \<Rightarrow> dir_tree \<Rightarrow> node \<Rightarrow> u32" where
  "written_mode io t n = (case dt_files t n of Some (m, _) \<Rightarrow> m | None \<Rightarrow> FILE_MODE AND NOT (io_umask io))"

lemma write_file_result:
  assumes "write_file_secure io p contents t = (r, t')"
  shows "r = Inr () \<Longrightarrow> t' = t\<lparr>dt_files := (dt_files t)(resolve_path p \<mapsto> (written_mode io t (resolve_path p), contents))\<rparr>"
    and "r = Inl e \<Longrightarrow> t' = t \<or> (\<exists>k. t' = t\<lparr>dt_files := (dt_files t)(resolve_path p \<mapsto> (written_mode io t (resolve_path p), take k contents))\<rparr>)"
  using assms by (auto simp: write_file_secure_def written_mode_def Let_def split: option.splits if_splits)

lemma private_modes: "(DIR_MODE AND NOT u) AND 0x3F = 0" "(FILE_MODE AND NOT u) AND 0x3F = 0"
proof -
  have "(DIR_MODE AND NOT u) AND 0x3F = (DIR_MODE AND 0x3F) AND NOT u"
    "(FILE_MODE AND NOT u) AND 0x3F = (FILE_MODE AND 0x3F) AND NOT u"
    by (simp_all add: and.assoc and.commute and.left_commute)
  moreover have "DIR_MODE AND 0x3F = 0" "FILE_MODE AND 0x3F = 0" by (simp_all add: DIR_MODE_def FILE_MODE_def)
  ultimately show "(DIR_MODE AND NOT u) AND 0x3F = 0" "(FILE_MODE AND NOT u) AND 0x3F = 0" by simp_all
qed

lemma dir_cache_write_ok:
  assumes "dir_cache_write io dc f contents ft t = (Inr (), t')"
  shows "dt_files t' = (dt_files t)(resolve_path (path_join (cache_subdir dc ft) f) \<mapsto>
      (written_mode io t (resolve_path (path_join (cache_subdir dc ft) f)), contents))"
    and "\<exists>t1. dirs_made (DIR_MODE AND NOT (io_umask io)) (fst (resolve_path (cache_subdir dc ft)))
      (snd (resolve_path (cache_subdir dc ft))) t t1 \<and> dt_dirs t' = dt_dirs t1"
proof -
  obtain t1 where c: "create_dir_secure io (cache_subdir dc ft) t = (Inr (), t1)"
    and w: "write_file_secure io (path_join (cache_subdir dc ft) f) contents t1 = (Inr (), t')"
    using assms by (auto simp: dir_cache_write_def split: prod.splits sum.splits)
  note made = create_dir_secure_made(1) [OF c]
  note res = write_file_result(1) [OF w refl]
  have f: "dt_files t1 = dt_files t" using made by (simp add: dirs_made_def)
  then have "written_mode io t1 n = written_mode io t n" for n by (simp add: written_mode_def)
  then show "dt_files t' = (dt_files t)(resolve_path (path_join (cache_subdir dc ft) f) \<mapsto>
      (written_mode io t (resolve_path (path_join (cache_subdir dc ft) f)), contents))" using res f by simp
  show "\<exists>t1. dirs_made (DIR_MODE AND NOT (io_umask io)) (fst (resolve_path (cache_subdir dc ft)))
      (snd (resolve_path (cache_subdir dc ft))) t t1 \<and> dt_dirs t' = dt_dirs t1"
    using made res by (intro exI [of _ t1]) simp
qed

lemma dirs_made_dirs:
  assumes "dirs_made mode b cs t t1"
  shows "dt_dirs t1 n = dt_dirs t n \<or> dt_dirs t n = None \<and> dt_dirs t1 n = Some mode"
    and "length cs < length (snd n) \<Longrightarrow> dt_dirs t1 n = dt_dirs t n"
  using assms unfolding dirs_made_def by (blast, fastforce)

lemma fs_read_cong:
  "dt_files t' (resolve_path p) = dt_files t (resolve_path p) \<Longrightarrow> dt_dirs t' (resolve_path p) = dt_dirs t (resolve_path p) \<Longrightarrow>
    fs_read io p t' = fs_read io p t"
  by (cases "io_read io (resolve_path p)") (auto simp: fs_read_def is_dir_def Let_def)

text \<open>The certificates' files and the accounts' files of a cache.\<close>

definition b64_law :: "cache_digest \<Rightarrow> bool" where
  "b64_law D \<longleftrightarrow> (\<forall>x. CHR ''/'' \<notin> set (digest_base64 D x))"

lemma cached_names:
  assumes "b64_law D"
  shows "component (cached_cert_file_name D domains url)" "component (cached_account_file_name D contact url)"
    and "cached_cert_file_name D domains url \<noteq> cached_account_file_name D contact url'"
  using assms by (simp_all add: b64_law_def component_def cached_cert_file_name_def cached_account_file_name_def cached_hash_def)

lemma cache_nodes:
  assumes "b64_law D" and "component server_name" and "dc = dir_cache_new registry server_name"
  shows "resolve_path (path_join (cert_dir dc) (cached_cert_file_name D domains url)) =
      (fst (resolve_path registry), cached_cert_file_name D domains url # server_name # snd (resolve_path registry))"
    and "resolve_path (path_join (account_dir dc) (cached_account_file_name D contact url)) =
      (fst (resolve_path registry), cached_account_file_name D contact url # ACME_ACCOUNT_SUBDIR # snd (resolve_path registry))"
    and "resolve_path (cert_dir dc) = (fst (resolve_path registry), server_name # snd (resolve_path registry))"
    and "resolve_path (account_dir dc) = (fst (resolve_path registry), ACME_ACCOUNT_SUBDIR # snd (resolve_path registry))"
proof -
  have "component ACME_ACCOUNT_SUBDIR" by (simp add: component_def ACME_ACCOUNT_SUBDIR_def)
  then show "resolve_path (cert_dir dc) = (fst (resolve_path registry), server_name # snd (resolve_path registry))"
    and "resolve_path (account_dir dc) = (fst (resolve_path registry), ACME_ACCOUNT_SUBDIR # snd (resolve_path registry))"
    using assms(2,3) by (simp_all add: dir_cache_new_def resolve_join)
  then show "resolve_path (path_join (cert_dir dc) (cached_cert_file_name D domains url)) =
      (fst (resolve_path registry), cached_cert_file_name D domains url # server_name # snd (resolve_path registry))"
    and "resolve_path (path_join (account_dir dc) (cached_account_file_name D contact url)) =
      (fst (resolve_path registry), cached_account_file_name D contact url # ACME_ACCOUNT_SUBDIR # snd (resolve_path registry))"
    using cached_names [OF assms(1)] by (simp_all add: resolve_join)
qed

lemma is_dir_mono: "is_dir t n \<Longrightarrow> dirs_made mode b cs t t1 \<Longrightarrow> dt_dirs t' = dt_dirs t1 \<Longrightarrow> is_dir t' n"
  using dirs_made_dirs(1) [of mode b cs t t1 n] by (auto simp: is_dir_def)

lemma verify_dir_ok:
  assumes "verify_dir_writable io pid nanos dir t = (Inr (), t')"
  shows "dt_files t' = (dt_files t)(resolve_path (path_join dir (probe_name pid nanos)) := None)"
    and "is_dir t' (resolve_path dir)" and "is_dir t n \<Longrightarrow> is_dir t' n"
proof -
  obtain t1 t2 where c: "create_dir_secure io dir t = (Inr (), t1)"
    and w: "write_file_secure io (path_join dir (probe_name pid nanos)) ''test'' t1 = (Inr (), t2)"
    and u: "fs_unlink io (path_join dir (probe_name pid nanos)) t2 = (Inr (), t')"
    using assms by (auto simp: verify_dir_writable_def Let_def split: prod.splits sum.splits)
  note made = create_dir_secure_made [OF c]
  note res = write_file_result(1) [OF w refl]
  have t': "t' = t2\<lparr>dt_files := (dt_files t2)(resolve_path (path_join dir (probe_name pid nanos)) := None)\<rparr>"
    using u by (auto simp: fs_unlink_def Let_def split: option.splits if_splits)
  have d: "dt_dirs t' = dt_dirs t1" using res t' by simp
  show "dt_files t' = (dt_files t)(resolve_path (path_join dir (probe_name pid nanos)) := None)"
    using res t' made(1) by (simp add: dirs_made_def)
  show "is_dir t' (resolve_path dir)" using made(2) d by (simp add: is_dir_def)
  show "is_dir t n \<Longrightarrow> is_dir t' n" by (rule is_dir_mono [OF _ made(1) d])
qed

definition probe_node :: "nat \<Rightarrow> (bytes \<times> dir_cache) list \<Rightarrow> node \<Rightarrow> bool" where
  "probe_node pid inner n \<longleftrightarrow>
     (\<exists>nanos. \<exists>dc\<in>snd ` set inner. \<exists>dir\<in>{account_dir dc, cert_dir dc}. n = resolve_path (path_join dir (probe_name pid nanos)))"

lemma verify_all_ok:
  assumes "verify_all io pid clock p inner t = (Inr (), t')"
  shows "(\<forall>n. dt_files t' n = dt_files t n \<or> dt_files t' n = None \<and> probe_node pid inner n) \<and>
    (\<forall>dc\<in>snd ` set inner. is_dir t' (resolve_path (account_dir dc)) \<and> is_dir t' (resolve_path (cert_dir dc))) \<and>
    (\<forall>n. is_dir t n \<longrightarrow> is_dir t' n)"
  using assms
proof (induction inner arbitrary: t)
  case (Cons x inner)
  obtain domain dc where x: "x = (domain, dc)" by fastforce
  obtain t1 t2 where a: "verify_dir_writable io pid (fst (clock domain)) (account_dir dc) t = (Inr (), t1)"
    and c: "verify_dir_writable io pid (snd (clock domain)) (cert_dir dc) t1 = (Inr (), t2)"
    and r: "verify_all io pid clock p inner t2 = (Inr (), t')"
    using Cons.prems by (auto simp: x verify_write_permissions_def split: prod.splits sum.splits)
  note A = verify_dir_ok [OF a] and C = verify_dir_ok [OF c] and I = Cons.IH [OF r]
  have probes: "probe_node pid (x # inner) (resolve_path (path_join (account_dir dc) (probe_name pid k)))"
    "probe_node pid (x # inner) (resolve_path (path_join (cert_dir dc) (probe_name pid k)))" for k
    by (auto simp: probe_node_def x)
  have sub: "probe_node pid inner n \<Longrightarrow> probe_node pid (x # inner) n" for n by (auto simp: probe_node_def)
  have files: "dt_files t2 n = dt_files t n \<or> dt_files t2 n = None \<and> probe_node pid (x # inner) n" for n
    using probes by (auto simp: A(1) C(1))
  show ?case
  proof (intro conjI allI ballI impI)
    show "dt_files t' n = dt_files t n \<or> dt_files t' n = None \<and> probe_node pid (x # inner) n" for n
      using I files [of n] sub [of n] by metis
    fix dc' assume "dc' \<in> snd ` set (x # inner)"
    moreover have "is_dir t' (resolve_path (account_dir dc))" "is_dir t' (resolve_path (cert_dir dc))"
      using I A(2) C(2,3) by blast+
    ultimately show "is_dir t' (resolve_path (account_dir dc'))" "is_dir t' (resolve_path (cert_dir dc'))"
      using I x by auto
  next
    show "is_dir t n \<Longrightarrow> is_dir t' n" for n using I A(3) C(3) by blast
  qed
qed simp

lemma acme_inner_map_lookup:
  "map_of (acme_inner_map dir domains) k =
     (if k \<in> to_ascii_lowercase ` set domains then Some (dir_cache_new dir k) else None)"
proof (induction domains rule: rev_induct)
  case (snoc d ds)
  have "acme_inner_map dir (ds @ [d]) =
      AList.update (to_ascii_lowercase d) (dir_cache_new dir (to_ascii_lowercase d)) (acme_inner_map dir ds)"
    by (simp add: acme_inner_map_def)
  then show ?case using snoc by (auto simp: update_conv')
qed (simp add: acme_inner_map_def)

lemma acme_try_new_manager:
  assumes "acme_try_new url_parse io pid clock dir_url registry contacts domains t = (Inr am, t')"
  shows "acme_inner am = acme_inner_map (acme_registry_dir registry) domains"
    and "url_parse (case dir_url of None \<Rightarrow> ACME_DIR_URL | Some u \<Rightarrow> to_ascii_lowercase u) = Some (acme_dir_url am)"
  using assms by (auto simp: acme_try_new_def Let_def split: if_splits option.splits prod.splits sum.splits)

section \<open>Properties\<close>

text \<open>C34: A stored certificate is loaded back, and nothing else changes.  After a certificate was stored,
  loading it gives the stored bytes; every other file is as before, the account keys of the same cache
  included, even for a server named as the account directory; an existing file keeps its mode, and a
  new file and every new directory is closed to group and others, whatever the umask is.\<close>

theorem acme_store_load:
  assumes "b64_law D" and "component server_name" and "dc = dir_cache_new registry server_name"
    and "store_cert D io dc domains url cert t = (Inr (), t')"
    and "n = resolve_path (path_join (cert_dir dc) (cached_cert_file_name D domains url))"
    and "io_read io n = None"
  shows "load_cert D io dc domains url t' = Inr (Some cert) \<and>
    (\<forall>m. m \<noteq> n \<longrightarrow> dt_files t' m = dt_files t m) \<and>
    load_account D io dc contact url' t' = load_account D io dc contact url' t \<and>
    (case dt_files t n of
       Some (mode, _) \<Rightarrow> dt_files t' n = Some (mode, cert)
     | None \<Rightarrow> \<exists>mode. dt_files t' n = Some (mode, cert) \<and> mode AND 0x3F = 0) \<and>
    (\<forall>d. dt_dirs t' d = dt_dirs t d \<or> dt_dirs t d = None \<and> (\<exists>mode. dt_dirs t' d = Some mode \<and> mode AND 0x3F = 0))"
proof -
  note nodes = cache_nodes [OF assms(1-3)]
  have w: "dir_cache_write io dc (cached_cert_file_name D domains url) cert Cert t = (Inr (), t')"
    using assms(4) by (simp add: store_cert_def)
  have files: "dt_files t' = (dt_files t)(n \<mapsto> (written_mode io t n, cert))"
    using dir_cache_write_ok(1) [OF w] assms(5) by simp
  obtain t1 where t1: "dirs_made (DIR_MODE AND NOT (io_umask io)) (fst (resolve_path (cert_dir dc)))
      (snd (resolve_path (cert_dir dc))) t t1" "dt_dirs t' = dt_dirs t1"
    using dir_cache_write_ok(2) [OF w] by auto
  let ?a = "resolve_path (path_join (account_dir dc) (cached_account_file_name D contact url'))"
  have "?a \<noteq> n" using cached_names(3) [OF assms(1)] by (simp add: nodes assms(5)) metis
  moreover have "dt_dirs t' ?a = dt_dirs t ?a"
    unfolding t1(2) by (rule dirs_made_dirs(2) [OF t1(1)]) (simp add: nodes)
  ultimately have "fs_read io (path_join (account_dir dc) (cached_account_file_name D contact url')) t' =
      fs_read io (path_join (account_dir dc) (cached_account_file_name D contact url')) t"
    by (intro fs_read_cong) (simp_all add: files)
  then have "load_account D io dc contact url' t' = load_account D io dc contact url' t"
    by (simp add: load_account_def read_if_exist_def)
  moreover have "load_cert D io dc domains url t' = Inr (Some cert)"
    using assms(6) by (simp add: load_cert_def read_if_exist_def fs_read_def Let_def files flip: assms(5))
  ultimately show ?thesis
    using dirs_made_dirs(1) [OF t1(1)] private_modes files t1(2)
    by (auto simp: written_mode_def split: option.splits)
qed

definition plain_digest :: cache_digest where
  "plain_digest = \<lparr>digest_sha256 = (\<lambda>x. x), digest_base64 = (\<lambda>x. if CHR ''/'' \<in> set x then ''u'' else ''h'')\<rparr>"

definition quiet_io :: dir_io where
  "quiet_io = \<lparr>io_umask = 0x12, io_mkdir = (\<lambda>_. None), io_open = (\<lambda>_. None), io_write = (\<lambda>_. None),
     io_read = (\<lambda>_. None), io_unlink = (\<lambda>_. None)\<rparr>"

abbreviation empty_tree :: dir_tree where
  "empty_tree \<equiv> \<lparr>dt_dirs = (\<lambda>_. None), dt_files = (\<lambda>_. None)\<rparr>"

theorem acme_store_load_witness:
  "\<exists>t'. store_cert plain_digest quiet_io (dir_cache_new ''reg'' ''a.b'') [''a.b''] ''u'' ''PEM'' empty_tree = (Inr (), t') \<and>
     load_cert plain_digest quiet_io (dir_cache_new ''reg'' ''a.b'') [''a.b''] ''u'' t' = Inr (Some ''PEM'')"
proof -
  have l: "b64_law plain_digest" by (simp add: b64_law_def plain_digest_def)
  have c: "component ''a.b''" by (simp add: component_def)
  let ?dc = "dir_cache_new ''reg'' ''a.b''"
  have "component ''reg''" by (simp add: component_def)
  then have reg: "resolve_path ''reg'' = (False, [''reg''])"
    by (simp add: resolve_path_def split_on_no_sep component_def)
  note nodes = cache_nodes [OF l c refl, of "''reg''", unfolded reg, simplified]
  have "\<exists>t'. store_cert plain_digest quiet_io ?dc [''a.b''] ''u'' ''PEM'' empty_tree = (Inr (), t')"
    by (simp add: store_cert_def dir_cache_write_def create_dir_secure_def write_file_secure_def nodes mkdir_def parent_error_def
        is_dir_def path_exists_def quiet_io_def Let_def)
  then obtain t' where s: "store_cert plain_digest quiet_io ?dc [''a.b''] ''u'' ''PEM'' empty_tree = (Inr (), t')" by blast
  have "io_read quiet_io x = None" for x by (simp add: quiet_io_def)
  from acme_store_load [OF l c refl s refl this] s show ?thesis by blast
qed

text \<open>The start of the ACME manager.  If it succeeds, both directories of every domain's cache exist, and
  no file of the disk has changed, except that no probe file of this process is left in them.\<close>

theorem acme_start_clean:
  assumes "acme_try_new url_parse io pid clock dir_url registry contacts domains t = (Inr am, t')"
  shows "(\<forall>n. dt_files t' n = dt_files t n \<or> dt_files t' n = None \<and> probe_node pid (acme_inner am) n) \<and>
    (\<forall>domain dc. (domain, dc) \<in> set (acme_inner am) \<longrightarrow>
       is_dir t' (resolve_path (account_dir dc)) \<and> is_dir t' (resolve_path (cert_dir dc)))"
proof -
  obtain p inner where "verify_all io pid clock p inner t = (Inr (), t')" and "acme_inner am = inner"
    using assms by (auto simp: acme_try_new_def Let_def split: if_splits option.splits prod.splits sum.splits)
  then show ?thesis using verify_all_ok by force
qed

lemma quiet_start:
  assumes r: "to_ascii_lowercase r = ''reg''"
  shows "\<exists>am t'. acme_try_new Some quiet_io 7 (\<lambda>_. (1, 2)) None (Some r) [''e''] [''a.b''] empty_tree = (Inr am, t') \<and>
    acme_inner am = [(''a.b'', dir_cache_new ''reg'' ''a.b'')]"
proof -
  let ?dc = "dir_cache_new ''reg'' ''a.b''"
  have "b64_law plain_digest" by (simp add: b64_law_def plain_digest_def)
  moreover have c: "component ''a.b''" by (simp add: component_def)
  moreover have reg: "resolve_path ''reg'' = (False, [''reg''])" by (simp add: resolve_path_def split_on_no_sep)
  ultimately have dirs: "resolve_path (cert_dir ?dc) = (False, [''a.b'', ''reg''])" "resolve_path (account_dir ?dc) = (False, [ACME_ACCOUNT_SUBDIR, ''reg''])"
    using cache_nodes(3,4) [of plain_digest "''a.b''" ?dc "''reg''"] by simp_all
  have "CHR ''/'' \<notin> set (show_nat m)" for m using show_nat_digits [of "CHR ''/''" m] by (auto simp: is_ascii_digit_def byte_def)
  then have "component (probe_name 7 k)" for k by (simp add: component_def probe_name_def)
  then have probes: "resolve_path (path_join d (probe_name 7 k)) = (fst (resolve_path d), probe_name 7 k # snd (resolve_path d))" for d k
    by (rule resolve_join)
  have low: "to_ascii_lowercase ''a.b'' = ''a.b''" by (simp add: to_ascii_lowercase_def lower_char_def rust_simps)
  have ne: "''a.b'' \<noteq> ACME_ACCOUNT_SUBDIR" by (simp add: ACME_ACCOUNT_SUBDIR_def)
  have "\<exists>t'. verify_all quiet_io 7 (\<lambda>_. (1, 2)) ''reg'' [(''a.b'', ?dc)] empty_tree = (Inr (), t')"
    using ne by (simp add: verify_write_permissions_def verify_dir_writable_def create_dir_secure_def write_file_secure_def fs_unlink_def
        mkdir_def parent_error_def is_dir_def path_exists_def quiet_io_def Let_def dirs probes)
  then obtain t' where v: "verify_all quiet_io 7 (\<lambda>_. (1, 2)) ''reg'' [(''a.b'', ?dc)] empty_tree = (Inr (), t')" by blast
  have i: "acme_inner_map ''reg'' [''a.b''] = [(''a.b'', ?dc)]" by (simp add: acme_inner_map_def low)
  show ?thesis using v i by (simp add: acme_try_new_def acme_registry_dir_def r reg path_exists_def is_dir_def Let_def)
qed

theorem acme_start_clean_witness:
  "\<exists>am t'. acme_try_new Some quiet_io 7 (\<lambda>_. (1, 2)) None (Some ''reg'') [''e''] [''a.b''] empty_tree = (Inr am, t') \<and>
     is_dir t' (resolve_path (path_join ''reg'' ''a.b''))"
proof -
  have "to_ascii_lowercase ''reg'' = ''reg''" by (simp add: to_ascii_lowercase_def lower_char_def rust_simps)
  from quiet_start [OF this] obtain am t'
    where a: "acme_try_new Some quiet_io 7 (\<lambda>_. (1, 2)) None (Some ''reg'') [''e''] [''a.b''] empty_tree = (Inr am, t')"
    and am: "acme_inner am = [(''a.b'', dir_cache_new ''reg'' ''a.b'')]" by blast
  then show ?thesis using acme_start_clean [OF a] by (auto simp: am dir_cache_new_def)
qed

end
