(* ===== verification/Config.thy ===== *)
theory Config
  imports Listener Cache_Lru Trusted_Proxies Acme_Cache
begin

text \<open>
  The configuration loader (\<open>rpxy-bin/src/config/toml.rs\<close>, \<open>parse.rs\<close>, and the trusted proxy lists of
  \<open>rpxy-trusted-proxies\<close>): from the deserialised TOML document to the settings of the library, the sticky
  cookie secret and the certificate sources.  Reading TOML is serde's; parsing a URI and a network is
  outside code; an error is named by its cause.
\<close>

datatype config_error =
    RedirectionPortRenamed | NoPortSpecified | SamePorts | PublicHttpsPortWithoutTls
  | EmptyListenAddress | InvalidListenAddress bytes | WildcardMixed
  | TrustedProxyInvalid trusted_proxy_error | EmptyTrustedProxies | InvalidTrustedProxyCidr bytes
  | NegativeBodySize | EmptyBodySize | InvalidBodySize | BodySizeOverflow
  | MissingApps | EmptyApps | PlaintextOnlyApps | RedirectionWithoutBothPorts
  | NoServerName | MissingReverseProxy | NoUpstream | InvalidUpstreamUri
  | HealthCheckPathMissing | HealthCheckPathInvalid | HealthCheckTypeUnknown | HealthCheckTimeout | HealthCheckThreshold
  | PrimaryBackupWithoutHealthCheck
  | ServerNameLength | ServerNameNotAscii | ServerNameLabelLength | ServerNameLabelEdge | ServerNameLabelChar
  | InconsistentTlsPaths
  | StickySecretMissing | StickyInvalid rpxy_error | AcmeFailed acme_error

definition cfg_ensure :: "bool \<Rightarrow> config_error \<Rightarrow> config_error + unit" where
  "cfg_ensure b e = (if b then Inr () else Inl e)"

lemma cfg_ensure_Inr [simp]: "cfg_ensure b e = Inr u \<longleftrightarrow> b"
  by (simp add: cfg_ensure_def)

section \<open>Sizes\<close>

datatype one_or_many = One bytes | Many "bytes list"

fun into_vec :: "one_or_many \<Rightarrow> bytes list" where
  "into_vec (One s) = [s]"
| "into_vec (Many v) = v"

datatype body_size_value = SizeInteger "64 word" | SizeString bytes

text \<open>The suffix of a size and its multiplier.\<close>

definition size_multiplier :: "char \<Rightarrow> nat option" where
  "size_multiplier c =
     (if c \<in> {CHR ''k'', CHR ''K''} then Some 1024
      else if c \<in> {CHR ''m'', CHR ''M''} then Some (1024 * 1024)
      else if c \<in> {CHR ''g'', CHR ''G''} then Some (1024 * 1024 * 1024)
      else None)"

definition split_size :: "bytes \<Rightarrow> bytes \<times> nat" where
  "split_size s =
     (case size_multiplier (last s) of
        Some multiplier \<Rightarrow> (trim (butlast s), multiplier)
      | None \<Rightarrow> (s, 1))"

definition parse_body_size_string :: "bytes \<Rightarrow> config_error + usize option" where
  "parse_body_size_string s =
     (let s = trim s
      in if s = [] then Inl EmptyBodySize
         else if eq_ignore_ascii_case s ''unlimited'' then Inr None
         else
           let (digits, multiplier) = split_size s
           in if digits = [] \<or> \<not> list_all is_ascii_digit digits then Inl InvalidBodySize
              else case parse_uint (2 ^ 64 - 1) digits of
                None \<Rightarrow> Inl InvalidBodySize
              | Some n \<Rightarrow>
                  if n = 0 then Inr None
                  else if 2 ^ 64 \<le> n * multiplier then Inl BodySizeOverflow
                  else Inr (Some (of_nat (n * multiplier))))"

fun parse_body_size :: "body_size_value \<Rightarrow> config_error + usize option" where
  "parse_body_size (SizeInteger n) =
     (if sint n < 0 then Inl NegativeBodySize
      else if n = 0 then Inr None else Inr (Some (of_int (sint n))))"
| "parse_body_size (SizeString s) = parse_body_size_string s"

section \<open>The document\<close>

record http3_option =
  h3o_alt_svc_max_age :: "u32 option"
  h3o_request_max_body_size :: "usize option"
  h3o_max_concurrent_connections :: "u32 option"
  h3o_max_concurrent_bidistream :: "u32 option"
  h3o_max_concurrent_unistream :: "u32 option"
  h3o_max_idle_timeout :: "u64 option"

record cache_option =
  co_cache_dir :: "bytes option"
  co_max_cache_entry :: "usize option"
  co_max_cache_each_size :: "usize option"
  co_max_cache_each_size_on_memory :: "usize option"

record acme_option =
  ao_dir_url :: "bytes option"
  ao_email :: bytes
  ao_registry_path :: "bytes option"

record tcp_recv_proxy_protocol_option =
  ppo_trusted_proxies :: "bytes list"
  ppo_timeout :: "u64 option"

record experimental =
  ex_h3 :: "http3_option option"
  ex_cache :: "cache_option option"
  ex_acme :: "acme_option option"
  ex_ignore_sni_consistency :: "bool option"
  ex_connection_handling_timeout :: "u64 option"
  ex_tcp_recv_proxy_protocol :: "tcp_recv_proxy_protocol_option option"

record health_check_detail =
  hcd_check_type :: "bytes option"
  hcd_interval :: "u64 option"
  hcd_timeout :: "u64 option"
  hcd_unhealthy_threshold :: "u32 option"
  hcd_healthy_threshold :: "u32 option"
  hcd_path :: "bytes option"
  hcd_expected_status :: "u16 option"

datatype health_check_option = HcEnabled bool | HcConfig health_check_detail

record upstream_params =
  up_location :: bytes
  up_tls :: "bool option"

record reverse_proxy_option =
  rpo_path :: "bytes option"
  rpo_replace_path :: "bytes option"
  rpo_upstream :: "upstream_params list"
  rpo_upstream_options :: "bytes list option"
  rpo_load_balance :: "bytes option"
  rpo_health_check :: "health_check_option option"

record tls_option =
  to_tls_cert_path :: "bytes option"
  to_tls_cert_key_path :: "bytes option"
  to_https_redirection :: "bool option"
  to_client_ca_cert_path :: "bytes option"
  to_acme :: "bool option"

record application =
  app_server_name :: "bytes option"
  app_reverse_proxy :: "reverse_proxy_option list option"
  app_tls :: "tls_option option"

record config_toml =
  ct_listen_port :: "u16 option"
  ct_listen_port_tls :: "u16 option"
  ct_listen_address_v4 :: "one_or_many option"
  ct_listen_address_v6 :: "one_or_many option"
  ct_listen_ipv6 :: "bool option"
  ct_public_https_port :: "u16 option"
  ct_https_redirection_port :: "u16 option"
  ct_tcp_listen_backlog :: "u32 option"
  ct_max_concurrent_streams :: "u32 option"
  ct_max_clients :: "u32 option"
  ct_max_clients_per_ip :: "u32 option"
  ct_sticky_cookie_secret :: "bytes option"
  ct_trusted_forwarded_proxies :: "one_or_many option"
  ct_redact_query_in_access_log :: "bool option"
  ct_request_max_body_size :: "body_size_value option"
  ct_apps :: "(bytes \<times> application) list option"
  ct_default_app :: "bytes option"
  ct_experimental :: "experimental option"

section \<open>Listen sockets\<close>

definition DEFAULT_LISTEN_ADDRESS_V4 :: ip_addr where "DEFAULT_LISTEN_ADDRESS_V4 = V4 (Ipv4Addr 0 0 0 0)"
definition DEFAULT_LISTEN_ADDRESS_V6 :: ip_addr where "DEFAULT_LISTEN_ADDRESS_V6 = V6 (Ipv6Addr 0 0 0 0 0 0 0 0)"
definition CACHE_DIR :: bytes where "CACHE_DIR = ''./cache''"
definition PP_TIMEOUT_MSEC :: nat where "PP_TIMEOUT_MSEC = 50"

definition strip_brackets :: "bytes \<Rightarrow> bytes" where
  "strip_brackets s =
     (case strip_prefix ''['' s of
        None \<Rightarrow> s
      | Some t \<Rightarrow> (case strip_suffix '']'' t of None \<Rightarrow> s | Some u \<Rightarrow> u))"

text \<open>
  The addresses of one family: parsed, without duplicates (a hash set, here in the order of first
  occurrence), and the wildcard only on its own.
\<close>

definition listen_ips :: "(bytes \<Rightarrow> 'a option) \<Rightarrow> 'a \<Rightarrow> bytes list \<Rightarrow> config_error + 'a list" where
  "listen_ips parse unspecified addrs =
     rbind (cfg_ensure (addrs \<noteq> []) EmptyListenAddress) (\<lambda>_.
     rbind (try_map (\<lambda>a. ok_or (parse a) (InvalidListenAddress a)) addrs) (\<lambda>ips.
     let ips = remdups ips
     in rbind (cfg_ensure (length ips \<le> 1 \<or> unspecified \<notin> set ips) WildcardMixed) (\<lambda>_. Inr ips)))"

definition build_listen_sockets :: "bytes list option \<Rightarrow> bytes list option \<Rightarrow> bool \<Rightarrow> u16 option \<Rightarrow> u16 option \<Rightarrow>
    config_error + socket_addr list" where
  "build_listen_sockets listen_addresses_v4 listen_addresses_v6 listen_ipv6 http https =
     rbind (case listen_addresses_v4 of
              Some addrs \<Rightarrow> rbind (listen_ips (parse_with read_ipv4_addr) (Ipv4Addr 0 0 0 0) addrs) (\<lambda>ips. Inr (map V4 ips))
            | None \<Rightarrow> Inr [DEFAULT_LISTEN_ADDRESS_V4]) (\<lambda>v4.
     rbind (case listen_addresses_v6 of
              Some addrs \<Rightarrow>
                rbind (listen_ips (\<lambda>a. parse_with read_ipv6_addr (strip_brackets a)) (Ipv6Addr 0 0 0 0 0 0 0 0) addrs) (\<lambda>ips. Inr (map V6 ips))
            | None \<Rightarrow> Inr (if listen_ipv6 then [DEFAULT_LISTEN_ADDRESS_V6] else [])) (\<lambda>v6.
     Inr (concat (map (\<lambda>ip.
            (case http of Some port \<Rightarrow> [SocketAddr ip port] | None \<Rightarrow> []) @
            (case https of Some port \<Rightarrow> [SocketAddr ip port] | None \<Rightarrow> [])) (v4 @ v6)))))"

section \<open>The proxy settings\<close>

text \<open>The overrides of the experimental section, one table after the other.\<close>

definition apply_h3_option :: "http3_option \<Rightarrow> 'n proxy_config \<Rightarrow> 'n proxy_config" where
  "apply_h3_option h cfg =
     cfg\<lparr>http3 := True,
         h3_alt_svc_max_age := (case h3o_alt_svc_max_age h of Some x \<Rightarrow> x | None \<Rightarrow> h3_alt_svc_max_age cfg),
         h3_request_max_body_size := (case h3o_request_max_body_size h of Some x \<Rightarrow> Some x | None \<Rightarrow> h3_request_max_body_size cfg),
         h3_max_concurrent_connections := (case h3o_max_concurrent_connections h of Some x \<Rightarrow> x | None \<Rightarrow> h3_max_concurrent_connections cfg),
         h3_max_concurrent_bidistream := (case h3o_max_concurrent_bidistream h of Some x \<Rightarrow> x | None \<Rightarrow> h3_max_concurrent_bidistream cfg),
         h3_max_concurrent_unistream := (case h3o_max_concurrent_unistream h of Some x \<Rightarrow> x | None \<Rightarrow> h3_max_concurrent_unistream cfg),
         h3_max_idle_timeout := (case h3o_max_idle_timeout h of
                                   Some x \<Rightarrow> if x = 0 then None else Some (from_secs (unat x))
                                 | None \<Rightarrow> h3_max_idle_timeout cfg)\<rparr>"

definition apply_cache_option :: "cache_option \<Rightarrow> 'n proxy_config \<Rightarrow> 'n proxy_config" where
  "apply_cache_option c cfg =
     cfg\<lparr>cache_enabled := True,
         cache_dir := Some (case co_cache_dir c of Some dir \<Rightarrow> dir | None \<Rightarrow> CACHE_DIR),
         cache_max_entry := (case co_max_cache_entry c of Some num \<Rightarrow> num | None \<Rightarrow> cache_max_entry cfg),
         cache_max_each_size := (case co_max_cache_each_size c of Some num \<Rightarrow> num | None \<Rightarrow> cache_max_each_size cfg),
         cache_max_each_size_on_memory := (case co_max_cache_each_size_on_memory c of Some num \<Rightarrow> num | None \<Rightarrow> cache_max_each_size_on_memory cfg)\<rparr>"

definition build_proxy_protocol :: "'n net_api \<Rightarrow> tcp_recv_proxy_protocol_option \<Rightarrow> config_error + 'n tcp_recv_proxy_protocol_config" where
  "build_proxy_protocol N pp =
     rbind (cfg_ensure (ppo_trusted_proxies pp \<noteq> []) EmptyTrustedProxies) (\<lambda>_.
     rbind (try_map (\<lambda>s. ok_or (net_from_str N s) (InvalidTrustedProxyCidr s)) (ppo_trusted_proxies pp)) (\<lambda>trusted_proxies.
     Inr \<lparr>pp_trusted_proxies = trusted_proxies,
          pp_timeout = (case ppo_timeout pp of None \<Rightarrow> PP_TIMEOUT_MSEC | Some ms \<Rightarrow> unat ms)\<rparr>))"

definition apply_experimental :: "'n net_api \<Rightarrow> experimental \<Rightarrow> 'n proxy_config \<Rightarrow> config_error + 'n proxy_config" where
  "apply_experimental N ex cfg =
     (let cfg = (case ex_h3 ex of Some h \<Rightarrow> apply_h3_option h cfg | None \<Rightarrow> cfg);
          cfg = (case ex_ignore_sni_consistency ex of Some ignore \<Rightarrow> cfg\<lparr>sni_consistency := \<not> ignore\<rparr> | None \<Rightarrow> cfg);
          cfg = (case ex_connection_handling_timeout ex of
                   Some timeout \<Rightarrow> cfg\<lparr>connection_handling_timeout := (if timeout = 0 then None else Some (from_secs (unat timeout)))\<rparr>
                 | None \<Rightarrow> cfg);
          cfg = (case ex_cache ex of Some c \<Rightarrow> apply_cache_option c cfg | None \<Rightarrow> cfg)
      in case ex_tcp_recv_proxy_protocol ex of
           None \<Rightarrow> Inr cfg
         | Some pp \<Rightarrow> rbind (build_proxy_protocol N pp) (\<lambda>p. Inr (cfg\<lparr>tcp_recv_proxy_protocol := Some p\<rparr>)))"

text \<open>The settings outside the experimental section, in the order of \<open>try_into\<close>, and the whole of it.\<close>

definition base_settings :: "config_toml \<Rightarrow> socket_addr list \<Rightarrow> 'n proxy_config" where
  "base_settings ct sockets =
     (let cfg = proxy_config_default
      in cfg\<lparr>http_port := ct_listen_port ct, https_port := ct_listen_port_tls ct,
             public_https_port := (case ct_public_https_port ct of Some p \<Rightarrow> Some p | None \<Rightarrow> ct_listen_port_tls ct),
             listen_sockets := sockets,
             tcp_listen_backlog := (case ct_tcp_listen_backlog ct of Some b \<Rightarrow> b | None \<Rightarrow> tcp_listen_backlog cfg),
             max_clients := (case ct_max_clients ct of Some c \<Rightarrow> ucast c | None \<Rightarrow> max_clients cfg),
             max_clients_per_ip := (case ct_max_clients_per_ip ct of Some c \<Rightarrow> ucast c | None \<Rightarrow> max_clients_per_ip cfg),
             max_concurrent_streams := (case ct_max_concurrent_streams ct of Some c \<Rightarrow> c | None \<Rightarrow> max_concurrent_streams cfg)\<rparr>)"

definition top_level_settings :: "'n net_api \<Rightarrow> config_toml \<Rightarrow> config_error + 'n proxy_config" where
  "top_level_settings N ct =
     rbind (cfg_ensure (ct_https_redirection_port ct = None) RedirectionPortRenamed) (\<lambda>_.
     let http = ct_listen_port ct; https = ct_listen_port_tls ct
     in rbind (cfg_ensure (http \<noteq> None \<or> https \<noteq> None) NoPortSpecified) (\<lambda>_.
        rbind (cfg_ensure (http = None \<or> https = None \<or> http \<noteq> https) SamePorts) (\<lambda>_.
        rbind (cfg_ensure (ct_public_https_port ct = None \<or> https \<noteq> None) PublicHttpsPortWithoutTls) (\<lambda>_.
        rbind (build_listen_sockets (map_option into_vec (ct_listen_address_v4 ct)) (map_option into_vec (ct_listen_address_v6 ct))
                 (ct_listen_ipv6 ct = Some True) http https) (\<lambda>sockets.
        let cfg = base_settings ct sockets
        in rbind (case ct_trusted_forwarded_proxies ct of
                    None \<Rightarrow> Inr cfg
                  | Some entries \<Rightarrow>
                      rbind (map_err TrustedProxyInvalid (resolve_trusted_proxy_entries N (into_vec entries))) (\<lambda>(cidrs, _).
                      Inr (cfg\<lparr>trusted_forwarded_proxies := cidrs\<rparr>))) (\<lambda>cfg.
        let cfg = (case ct_redact_query_in_access_log ct of Some redact \<Rightarrow> cfg\<lparr>redact_query_in_access_log := redact\<rparr> | None \<Rightarrow> cfg)
        in case ct_request_max_body_size ct of
             None \<Rightarrow> Inr cfg
           | Some v \<Rightarrow> rbind (parse_body_size v) (\<lambda>limit. Inr (cfg\<lparr>request_max_body_size := limit\<rparr>))))))))"

definition proxy_config_try_from :: "'n net_api \<Rightarrow> config_toml \<Rightarrow> config_error + 'n proxy_config" where
  "proxy_config_try_from N ct =
     rbind (top_level_settings N ct) (\<lambda>cfg.
     case ct_experimental ct of
       None \<Rightarrow> Inr cfg
     | Some ex \<Rightarrow> apply_experimental N ex cfg)"

section \<open>The applications\<close>

definition validate_label :: "bytes \<Rightarrow> config_error + unit" where
  "validate_label label =
     (if label = [] \<or> 63 < length label then Inl ServerNameLabelLength
      else if \<not> is_ascii_alphanumeric (hd label) \<or> \<not> is_ascii_alphanumeric (last label) then Inl ServerNameLabelEdge
      else if \<not> list_all (\<lambda>b. is_ascii_alphanumeric b \<or> b = CHR ''-'') label then Inl ServerNameLabelChar
      else Inr ())"

fun validate_labels :: "bytes list \<Rightarrow> config_error + unit" where
  "validate_labels [] = Inr ()"
| "validate_labels (label # labels) = rbind (validate_label label) (\<lambda>_. validate_labels labels)"

definition validate_server_name :: "bytes \<Rightarrow> config_error + unit" where
  "validate_server_name server_name =
     (if server_name = [] \<or> 253 < length server_name then Inl ServerNameLength
      else if \<not> list_all (\<lambda>c. byte c < 128) server_name then Inl ServerNameNotAscii
      else validate_labels (split_on (CHR ''.'') server_name))"

definition DEFAULT_INTERVAL_SEC :: nat where "DEFAULT_INTERVAL_SEC = 10"
definition DEFAULT_TIMEOUT_SEC :: nat where "DEFAULT_TIMEOUT_SEC = 5"
definition DEFAULT_UNHEALTHY_THRESHOLD :: u32 where "DEFAULT_UNHEALTHY_THRESHOLD = 3"
definition DEFAULT_HEALTHY_THRESHOLD :: u32 where "DEFAULT_HEALTHY_THRESHOLD = 2"
definition DEFAULT_EXPECTED_STATUS :: u16 where "DEFAULT_EXPECTED_STATUS = 200"

definition build_check_type :: "health_check_detail \<Rightarrow> config_error + check_type" where
  "build_check_type detail =
     (let t = (case hcd_check_type detail of Some t \<Rightarrow> t | None \<Rightarrow> ''tcp'')
      in if t = ''tcp'' then Inr Tcp
         else if t = ''http'' then
           (case hcd_path detail of
              None \<Rightarrow> Inl HealthCheckPathMissing
            | Some path \<Rightarrow>
                if \<not> starts_with ''/'' path then Inl HealthCheckPathInvalid
                else Inr (Http path (case hcd_expected_status detail of Some s \<Rightarrow> s | None \<Rightarrow> DEFAULT_EXPECTED_STATUS)))
         else Inl HealthCheckTypeUnknown)"

fun build_health_check_config :: "health_check_option \<Rightarrow> config_error + health_check_config option" where
  "build_health_check_config (HcEnabled False) = Inr None"
| "build_health_check_config (HcEnabled True) =
     Inr (Some \<lparr>hc_type = Tcp, hc_interval = from_secs DEFAULT_INTERVAL_SEC, hc_timeout = from_secs DEFAULT_TIMEOUT_SEC,
                hc_unhealthy_threshold = DEFAULT_UNHEALTHY_THRESHOLD, hc_healthy_threshold = DEFAULT_HEALTHY_THRESHOLD\<rparr>)"
| "build_health_check_config (HcConfig detail) =
     rbind (build_check_type detail) (\<lambda>check_type.
     let interval = from_secs (case hcd_interval detail of Some s \<Rightarrow> unat s | None \<Rightarrow> DEFAULT_INTERVAL_SEC);
         timeout = from_secs (case hcd_timeout detail of Some s \<Rightarrow> unat s | None \<Rightarrow> DEFAULT_TIMEOUT_SEC);
         unhealthy = (case hcd_unhealthy_threshold detail of Some n \<Rightarrow> n | None \<Rightarrow> DEFAULT_UNHEALTHY_THRESHOLD);
         healthy = (case hcd_healthy_threshold detail of Some n \<Rightarrow> n | None \<Rightarrow> DEFAULT_HEALTHY_THRESHOLD)
     in rbind (cfg_ensure (timeout < interval) HealthCheckTimeout) (\<lambda>_.
        rbind (cfg_ensure (1 \<le> unhealthy) HealthCheckThreshold) (\<lambda>_.
        rbind (cfg_ensure (1 \<le> healthy) HealthCheckThreshold) (\<lambda>_.
        Inr (Some \<lparr>hc_type = check_type, hc_interval = interval, hc_timeout = timeout,
                   hc_unhealthy_threshold = unhealthy, hc_healthy_threshold = healthy\<rparr>)))))"

definition validate_lb_health_check :: "bytes option \<Rightarrow> health_check_config option \<Rightarrow> config_error + unit" where
  "validate_lb_health_check load_balance health_check =
     (if load_balance = Some ''primary_backup'' \<and> health_check = None then Inl PrimaryBackupWithoutHealthCheck else Inr ())"

definition upstream_uri_try_from :: "'u uri_api \<Rightarrow> upstream_params \<Rightarrow> 'u option" where
  "upstream_uri_try_from U p =
     uri_parse U ((if up_tls p = Some True then ''https'' else ''http'') @ ''://'' @ up_location p)"

definition reverse_proxy_try_from :: "'u uri_api \<Rightarrow> reverse_proxy_option \<Rightarrow> config_error + 'u reverse_proxy_config" where
  "reverse_proxy_try_from U rpo =
     rbind (cfg_ensure (rpo_upstream rpo \<noteq> []) NoUpstream) (\<lambda>_.
     let upstream_res = map (upstream_uri_try_from U) (rpo_upstream rpo)
     in rbind (cfg_ensure (list_all (\<lambda>v. v \<noteq> None) upstream_res) InvalidUpstreamUri) (\<lambda>_.
        rbind (case rpo_health_check rpo of None \<Rightarrow> Inr None | Some hc \<Rightarrow> build_health_check_config hc) (\<lambda>health_check.
        Inr \<lparr>rp_path = rpo_path rpo, rp_replace_path = rpo_replace_path rpo, rp_upstream = map the upstream_res,
             rp_upstream_options = rpo_upstream_options rpo, rp_load_balance = rpo_load_balance rpo, rp_health_check = health_check\<rparr>)))"

definition build_tls_config :: "tls_option \<Rightarrow> config_error + tls_config" where
  "build_tls_config tls =
     rbind (cfg_ensure (if to_acme tls = Some True then to_tls_cert_key_path tls = None \<and> to_tls_cert_path tls = None
                        else to_tls_cert_key_path tls \<noteq> None \<and> to_tls_cert_path tls \<noteq> None) InconsistentTlsPaths) (\<lambda>_.
     Inr \<lparr>tls_mutual_tls = (to_client_ca_cert_path tls \<noteq> None),
          tls_https_redirection = (case to_https_redirection tls of Some b \<Rightarrow> b | None \<Rightarrow> True),
          tls_acme = (to_acme tls = Some True)\<rparr>)"

definition build_app_config :: "'u uri_api \<Rightarrow> application \<Rightarrow> bytes \<Rightarrow> config_error + 'u app_config" where
  "build_app_config U app app_name =
     rbind (ok_or (app_server_name app) NoServerName) (\<lambda>server_name.
     rbind (validate_server_name server_name) (\<lambda>_.
     rbind (ok_or (app_reverse_proxy app) MissingReverseProxy) (\<lambda>rp_settings.
     rbind (try_map (reverse_proxy_try_from U) rp_settings) (\<lambda>reverse_proxy.
     rbind (try_map (\<lambda>rpc. validate_lb_health_check (rp_load_balance rpc) (rp_health_check rpc)) reverse_proxy) (\<lambda>_.
     rbind (case app_tls app of None \<Rightarrow> Inr None | Some tls \<Rightarrow> rbind (build_tls_config tls) (\<lambda>t. Inr (Some t))) (\<lambda>tls.
     Inr \<lparr>ac_app_name = app_name, ac_server_name = server_name, ac_reverse_proxy = reverse_proxy, ac_tls = tls\<rparr>))))))"

definition validate_and_build_settings :: "'n net_api \<Rightarrow> 'u uri_api \<Rightarrow> config_toml \<Rightarrow>
    config_error + 'n proxy_config \<times> 'u app_config_list" where
  "validate_and_build_settings N U ct =
     rbind (proxy_config_try_from N ct) (\<lambda>cfg.
     rbind (ok_or (ct_apps ct) MissingApps) (\<lambda>apps.
     rbind (cfg_ensure (apps \<noteq> []) EmptyApps) (\<lambda>_.
     let all_apps_have_tls = list_all (\<lambda>(_, app). app_tls app \<noteq> None) apps;
         all_apps_no_https_redirection = list_all (\<lambda>(_, app).
           case app_tls app of Some tls \<Rightarrow> to_https_redirection tls = None | None \<Rightarrow> True) apps
     in rbind (cfg_ensure (http_port cfg \<noteq> None \<or> all_apps_have_tls) PlaintextOnlyApps) (\<lambda>_.
        rbind (cfg_ensure (public_https_port cfg = None \<or> https_port cfg \<noteq> None) PublicHttpsPortWithoutTls) (\<lambda>_.
        rbind (cfg_ensure ((https_port cfg \<noteq> None \<and> http_port cfg \<noteq> None) \<or> all_apps_no_https_redirection) RedirectionWithoutBothPorts) (\<lambda>_.
        rbind (try_map (\<lambda>(app_name, app).
                 rbind (ok_or (app_server_name app) NoServerName) (\<lambda>_. build_app_config U app (to_ascii_lowercase app_name))) apps) (\<lambda>inner.
        Inr (cfg, \<lparr>acl_inner = inner, acl_default_app = map_option to_ascii_lowercase (ct_default_app ct)\<rparr>))))))))"

section \<open>The sticky cookie secret\<close>

definition sticky_rpo_check :: "bytes \<Rightarrow> reverse_proxy_option \<Rightarrow> config_error + bool" where
  "sticky_rpo_check server_name rpo =
     (if rpo_load_balance rpo = Some ''sticky''
      then rbind (map_err StickyInvalid (validate_sticky_cookie_aad_component server_name)) (\<lambda>_.
           rbind (map_err StickyInvalid (validate_sticky_cookie_aad_component (case rpo_path rpo of Some p \<Rightarrow> p | None \<Rightarrow> ''/''))) (\<lambda>_.
           Inr True))
      else Inr False)"

definition sticky_app_check :: "bytes \<times> application \<Rightarrow> config_error + bool" where
  "sticky_app_check = (\<lambda>(_, app).
     rbind (ok_or (app_server_name app) NoServerName) (\<lambda>server_name.
     rbind (ok_or (app_reverse_proxy app) MissingReverseProxy) (\<lambda>reverse_proxy.
     rbind (try_map (sticky_rpo_check server_name) reverse_proxy) (\<lambda>used. Inr (list_ex id used)))))"

definition validate_and_build_sticky_cookie_secret :: "'k cookie_crypto \<Rightarrow> config_toml \<Rightarrow> config_error + bytes option" where
  "validate_and_build_sticky_cookie_secret K ct =
     rbind (ok_or (ct_apps ct) MissingApps) (\<lambda>apps.
     rbind (try_map sticky_app_check apps) (\<lambda>used.
     if \<not> list_ex id used then Inr None
     else case ct_sticky_cookie_secret ct of
       None \<Rightarrow> Inl StickySecretMissing
     | Some secret \<Rightarrow> rbind (map_err StickyInvalid (try_from_config_value K secret)) (\<lambda>s. Inr (Some s))))"

section \<open>The certificate sources\<close>

definition build_tls_for_app_acme :: "cache_digest \<Rightarrow> tls_option \<Rightarrow> acme_option option \<Rightarrow> bytes \<Rightarrow> bytes \<Rightarrow> bytes \<Rightarrow>
    config_error + tls_option" where
  "build_tls_for_app_acme D tls acme_option server_name registry_path dir_url =
     (if to_acme tls = Some True then
        rbind (cfg_ensure (acme_option \<noteq> None \<and> to_tls_cert_key_path tls = None \<and> to_tls_cert_path tls = None) InconsistentTlsPaths) (\<lambda>_.
        rbind (validate_server_name server_name) (\<lambda>_.
        let subdir = registry_path @ ''/'' @ to_ascii_lowercase server_name;
            file_name = cached_cert_file_name D [to_ascii_lowercase server_name] (to_ascii_lowercase dir_url);
            cert_path = subdir @ ''/'' @ file_name
        in Inr (tls\<lparr>to_tls_cert_key_path := Some cert_path, to_tls_cert_path := Some cert_path\<rparr>)))
      else Inr tls)"

definition cert_dir_url :: "acme_option option \<Rightarrow> bytes" where
  "cert_dir_url acme = (case Option.bind acme ao_dir_url of Some u \<Rightarrow> u | None \<Rightarrow> ACME_DIR_URL)"

definition cert_registry :: "acme_option option \<Rightarrow> path" where
  "cert_registry acme = (case Option.bind acme ao_registry_path of Some p \<Rightarrow> p | None \<Rightarrow> ACME_REGISTRY_PATH)"

text \<open>The loop over the applications; \<open>None\<close> is the panic on a missing path.\<close>

fun crypto_sources :: "cache_digest \<Rightarrow> acme_option option \<Rightarrow> (bytes \<times> application) list \<Rightarrow> (bytes \<times> crypto_file_source) list \<Rightarrow>
    (config_error + (bytes \<times> crypto_file_source) list) option" where
  "crypto_sources D acme [] m = Some (Inr m)"
| "crypto_sources D acme ((_, app) # apps) m =
     (case app_tls app of
        None \<Rightarrow> crypto_sources D acme apps m
      | Some tls \<Rightarrow>
          (case app_server_name app of
             None \<Rightarrow> Some (Inl NoServerName)
           | Some server_name \<Rightarrow>
               (case build_tls_for_app_acme D tls acme server_name (cert_registry acme) (cert_dir_url acme) of
                  Inl e \<Rightarrow> Some (Inl e)
                | Inr tls \<Rightarrow>
                    (case (to_tls_cert_path tls, to_tls_cert_key_path tls) of
                       (Some cert, Some key) \<Rightarrow>
                         crypto_sources D acme apps
                           (AList.update server_name
                              \<lparr>tls_cert_path = cert, tls_cert_key_path = key, client_ca_cert_path = to_client_ca_cert_path tls\<rparr> m)
                     | _ \<Rightarrow> None))))"

definition build_cert_manager :: "cache_digest \<Rightarrow> config_toml \<Rightarrow> (config_error + (bytes \<times> crypto_file_source) list option) option" where
  "build_cert_manager D ct =
     (case ct_apps ct of
        None \<Rightarrow> Some (Inl MissingApps)
      | Some apps \<Rightarrow>
          if ct_listen_port_tls ct = None then Some (Inr None)
          else
            (case crypto_sources D (Option.bind (ct_experimental ct) ex_acme) apps [] of
               None \<Rightarrow> None
             | Some (Inl e) \<Rightarrow> Some (Inl e)
             | Some (Inr m) \<Rightarrow> Some (Inr (Some m))))"

text \<open>
  \<open>build_acme_manager\<close>: the domains to request certificates for and the manager for them, none without an
  ACME section or without such a domain; \<open>None\<close> is the panic on a missing field.
\<close>

fun acme_domains :: "(bytes \<times> application) list \<Rightarrow> bytes list option" where
  "acme_domains [] = Some []"
| "acme_domains ((_, app) # apps) =
     (if (case app_tls app of Some tls \<Rightarrow> to_acme tls = Some True | None \<Rightarrow> False)
      then (case (app_server_name app, acme_domains apps) of (Some n, Some ds) \<Rightarrow> Some (n # ds) | _ \<Rightarrow> None)
      else acme_domains apps)"

definition build_acme_manager :: "(bytes \<Rightarrow> bytes option) \<Rightarrow> dir_io \<Rightarrow> nat \<Rightarrow> (bytes \<Rightarrow> nat \<times> nat) \<Rightarrow> config_toml \<Rightarrow> dir_tree \<Rightarrow>
    (config_error + acme_manager option) option \<times> dir_tree" where
  "build_acme_manager url_parse io pid clock ct t =
     (case Option.bind (ct_experimental ct) ex_acme of
        None \<Rightarrow> (Some (Inr None), t)
      | Some acme_option \<Rightarrow>
          (case Option.bind (ct_apps ct) acme_domains of
             None \<Rightarrow> (None, t)
           | Some domains \<Rightarrow>
               if domains = [] then (Some (Inr None), t)
               else case try_map validate_server_name domains of
                      Inl e \<Rightarrow> (Some (Inl e), t)
                    | Inr _ \<Rightarrow>
                        (case acme_try_new url_parse io pid clock (ao_dir_url acme_option) (ao_registry_path acme_option)
                                [ao_email acme_option] domains t of
                           (Inl e, t) \<Rightarrow> (Some (Inl (AcmeFailed e)), t)
                         | (Inr am, t) \<Rightarrow> (Some (Inr (Some am)), t))))"

section \<open>Accepted settings\<close>

lemma accepted_app:
  assumes "validate_and_build_settings N U ct = Inr (cfg, acl)"
  obtains apps where "ct_apps ct = Some apps"
    and "list_all2 (\<lambda>(name, app) ac. build_app_config U app (to_ascii_lowercase name) = Inr ac) apps (acl_inner acl)"
proof -
  obtain apps where a: "ct_apps ct = Some apps" and t: "try_map (\<lambda>(app_name, app). rbind (ok_or (app_server_name app) NoServerName)
      (\<lambda>_. build_app_config U app (to_ascii_lowercase app_name))) apps = Inr (acl_inner acl)"
    using assms by (cases "ct_apps ct") (auto simp: validate_and_build_settings_def Let_def)
  have "list_all2 (\<lambda>(name, app) ac. build_app_config U app (to_ascii_lowercase name) = Inr ac) apps (acl_inner acl)"
    using t unfolding try_map_Inr_iff by (rule list_all2_mono) auto
  then show ?thesis using a that by blast
qed

lemma list_all2_elem: "list_all2 P xs ys \<Longrightarrow> y \<in> set ys \<Longrightarrow> \<exists>x\<in>set xs. P x y"
  by (induction rule: list_all2_induct) auto

lemma list_all2_elem1: "list_all2 P xs ys \<Longrightarrow> x \<in> set xs \<Longrightarrow> \<exists>y\<in>set ys. P x y"
  by (induction rule: list_all2_induct) auto

lemma accepted_has_upstreams:
  assumes "validate_and_build_settings N U ct = Inr (cfg, acl)"
  shows "has_upstreams acl"
proof -
  have rp: "rp_upstream r \<noteq> []" if "reverse_proxy_try_from U rpo = Inr r" for rpo r
    using that by (auto simp: reverse_proxy_try_from_def Let_def)
  have app: "list_all (\<lambda>r. rp_upstream r \<noteq> []) (ac_reverse_proxy ac)" if ac: "build_app_config U app name = Inr ac" for app name ac
  proof -
    obtain rps where "try_map (reverse_proxy_try_from U) rps = Inr (ac_reverse_proxy ac)"
      using ac by (auto simp: build_app_config_def)
    then show ?thesis using try_map_elem rp by (fastforce simp: list_all_iff)
  qed
  obtain apps where "list_all2 (\<lambda>(name, app) ac. build_app_config U app (to_ascii_lowercase name) = Inr ac) apps (acl_inner acl)"
    using assms by (rule accepted_app)
  then have "\<forall>ac\<in>set (acl_inner acl). \<exists>app name. build_app_config U app name = Inr ac"
    by (fastforce dest: list_all2_elem)
  then show ?thesis using app by (auto simp: has_upstreams_def list_all_iff)
qed

text \<open>The server names of the applications with TLS.\<close>

definition tls_server_names :: "(bytes \<times> application) list \<Rightarrow> bytes list" where
  "tls_server_names apps = List.map_filter (\<lambda>(_, app). if app_tls app = None then None else app_server_name app) apps"

definition tls_paths_ok :: "tls_option \<Rightarrow> bool" where
  "tls_paths_ok tls = (if to_acme tls = Some True then to_tls_cert_key_path tls = None \<and> to_tls_cert_path tls = None
     else to_tls_cert_key_path tls \<noteq> None \<and> to_tls_cert_path tls \<noteq> None)"

lemma build_tls_for_app_acme_paths:
  assumes "tls_paths_ok tls" "build_tls_for_app_acme D tls acme sn registry url = Inr tls'"
  shows "to_tls_cert_path tls' \<noteq> None" "to_tls_cert_key_path tls' \<noteq> None" "to_client_ca_cert_path tls' = to_client_ca_cert_path tls"
  using assms by (auto simp: build_tls_for_app_acme_def tls_paths_ok_def Let_def split: if_splits)

lemma crypto_sources_no_panic:
  assumes "\<forall>(n, app)\<in>set apps. \<forall>tls. app_tls app = Some tls \<longrightarrow> tls_paths_ok tls"
  shows "crypto_sources D acme apps m \<noteq> None"
  using assms
proof (induction apps arbitrary: m)
  case (Cons x apps)
  obtain n app where x: "x = (n, app)" by (cases x) auto
  have IH: "crypto_sources D acme apps m \<noteq> None" for m using Cons by auto
  show ?case
  proof (cases "app_tls app")
    case None
    then show ?thesis using IH by (simp add: x del: not_None_eq)
  next
    case (Some tls)
    then have ok: "tls_paths_ok tls" using Cons.prems by (auto simp: x)
    show ?thesis using IH Some build_tls_for_app_acme_paths [OF ok]
      by (auto simp: x Let_def simp del: not_None_eq split: option.split sum.split)
  qed
qed simp

definition source_of :: "cache_digest \<Rightarrow> acme_option option \<Rightarrow> tls_option \<Rightarrow> bytes \<Rightarrow> crypto_file_source \<Rightarrow> bool" where
  "source_of D acme tls sn src \<longleftrightarrow>
     (\<exists>tls'. build_tls_for_app_acme D tls acme sn (cert_registry acme) (cert_dir_url acme) = Inr tls' \<and>
        to_tls_cert_path tls' = Some (tls_cert_path src) \<and> to_tls_cert_key_path tls' = Some (tls_cert_key_path src) \<and>
        client_ca_cert_path src = to_client_ca_cert_path tls)"

lemma crypto_sources_entries:
  assumes "crypto_sources D acme apps m0 = Some (Inr m)" "distinct (tls_server_names apps)" "distinct (map fst m0)"
  shows "distinct (map fst m) \<and> fst ` set m \<subseteq> fst ` set m0 \<union> set (tls_server_names apps) \<and>
    (\<forall>sn. sn \<notin> set (tls_server_names apps) \<longrightarrow> map_of m sn = map_of m0 sn) \<and>
    (\<forall>(n, app)\<in>set apps. \<forall>tls sn. app_tls app = Some tls \<longrightarrow> app_server_name app = Some sn \<longrightarrow>
       (\<exists>src. map_of m sn = Some src \<and> source_of D acme tls sn src))"
  using assms
proof (induction apps arbitrary: m0)
  case Nil
  then show ?case by (simp add: tls_server_names_def List.map_filter_def)
next
  case (Cons x apps)
  obtain n app where x: "x = (n, app)" by (cases x) auto
  show ?case
  proof (cases "app_tls app")
    case None
    then have "tls_server_names (x # apps) = tls_server_names apps" by (simp add: x tls_server_names_def List.map_filter_def)
    then show ?thesis using Cons None by (simp add: x del: map_of_eq_Some_iff)
  next
    case (Some tls)
    then obtain sn where sn: "app_server_name app = Some sn" using Cons.prems(1) by (cases "app_server_name app") (auto simp: x)
    have names: "tls_server_names (x # apps) = sn # tls_server_names apps"
      using Some sn by (simp add: x tls_server_names_def List.map_filter_def)
    obtain tls' cert key where t: "build_tls_for_app_acme D tls acme sn (cert_registry acme) (cert_dir_url acme) = Inr tls'"
        "to_tls_cert_path tls' = Some cert" "to_tls_cert_key_path tls' = Some key"
      and r: "crypto_sources D acme apps (AList.update sn \<lparr>tls_cert_path = cert, tls_cert_key_path = key,
          client_ca_cert_path = to_client_ca_cert_path tls'\<rparr> m0) = Some (Inr m)"
      using Cons.prems(1) Some sn by (auto simp: x Let_def split: sum.splits option.splits)
    have ca: "to_client_ca_cert_path tls' = to_client_ca_cert_path tls"
      using t(1) by (auto simp: build_tls_for_app_acme_def Let_def split: if_splits)
    have d: "distinct (tls_server_names apps)" "sn \<notin> set (tls_server_names apps)" using Cons.prems(2) names by auto
    note IH = Cons.IH [OF r d(1) distinct_update [OF Cons.prems(3)]]
    have self: "\<exists>src. map_of m sn = Some src \<and> source_of D acme tls sn src"
      using IH d(2) ca t by (simp add: update_conv' source_of_def)
    show ?thesis
    proof (intro conjI)
      show "fst ` set m \<subseteq> fst ` set m0 \<union> set (tls_server_names (x # apps))" using IH by (auto simp: names dom_update)
      show "\<forall>sn. sn \<notin> set (tls_server_names (x # apps)) \<longrightarrow> map_of m sn = map_of m0 sn" using IH by (simp add: names update_conv')
      show "\<forall>(n, app)\<in>set (x # apps). \<forall>tls sn. app_tls app = Some tls \<longrightarrow> app_server_name app = Some sn \<longrightarrow>
         (\<exists>src. map_of m sn = Some src \<and> source_of D acme tls sn src)"
        using IH self Some sn by (auto simp: x)
    qed (use IH in blast)
  qed
qed

lemma cert_manager_entry:
  assumes "build_cert_manager D ct = Some (Inr (Some m))" and "ct_apps ct = Some apps" and "distinct (tls_server_names apps)"
  shows "distinct (map fst m)" and "fst ` set m \<subseteq> set (tls_server_names apps)"
    and "(name, app) \<in> set apps \<Longrightarrow> app_tls app = Some tls \<Longrightarrow> app_server_name app = Some sn \<Longrightarrow>
      \<exists>src. map_of m sn = Some src \<and> source_of D (Option.bind (ct_experimental ct) ex_acme) tls sn src"
proof -
  have cs: "crypto_sources D (Option.bind (ct_experimental ct) ex_acme) apps [] = Some (Inr m)"
    using assms(1,2) by (auto simp: build_cert_manager_def split: if_splits option.splits sum.splits)
  show "distinct (map fst m)" and "fst ` set m \<subseteq> set (tls_server_names apps)"
    using crypto_sources_entries [OF cs assms(3)] by simp_all
  show "(name, app) \<in> set apps \<Longrightarrow> app_tls app = Some tls \<Longrightarrow> app_server_name app = Some sn \<Longrightarrow>
      \<exists>src. map_of m sn = Some src \<and> source_of D (Option.bind (ct_experimental ct) ex_acme) tls sn src"
    using crypto_sources_entries [OF cs assms(3)] by fastforce
qed

lemma reloader_entry:
  assumes "distinct (map fst m)" "inj_on to_ascii_lowercase (fst ` set m)" "map_of m sn = Some src"
  shows "map_of (cr_inner (build_cert_reloader m :: ('c, 'k) crypto_reloader)) (to_ascii_lowercase sn) = Some src"
proof -
  let ?l = "map (\<lambda>(k, v). (to_ascii_lowercase k, v)) m"
  have "distinct (map fst ?l)"
    using assms(1,2) by (simp add: comp_def case_prod_beta distinct_map [of to_ascii_lowercase "map fst m", unfolded map_map comp_def])
  moreover have "(to_ascii_lowercase sn, src) \<in> set ?l" using assms(3) by (force dest: map_of_SomeD)
  ultimately have "map_of (rev ?l) (to_ascii_lowercase sn) = Some src" by (intro map_of_is_SomeI) (auto simp: rev_map [symmetric])
  then show ?thesis by (simp add: build_cert_reloader_def reloader_new_def fold_update_map)
qed

lemma accepted_tls:
  assumes "build_app_config U app name = Inr ac"
  shows "app_server_name app = Some (ac_server_name ac)"
    and "app_tls app = Some tls \<Longrightarrow> tls_paths_ok tls"
    and "ac_tls ac = Some t \<Longrightarrow> \<exists>tls. app_tls app = Some tls \<and> tls_mutual_tls t = (to_client_ca_cert_path tls \<noteq> None)"
  using assms by (auto simp: build_app_config_def build_tls_config_def tls_paths_ok_def split: option.splits if_splits)

section \<open>Names and sizes\<close>

lemma validate_labels_Inr: "validate_labels ls = Inr u \<Longrightarrow> l \<in> set ls \<Longrightarrow> validate_label l = Inr ()"
  by (induction ls) auto

text \<open>A valid name has no slash and no dot at its start or end; in particular it is a proper path component.\<close>

lemma valid_label:
  assumes "validate_label l = Inr ()"
  shows "l \<noteq> []" and "CHR ''/'' \<notin> set l" and "CHR ''.'' \<notin> set l" and "CHR 0x00 \<notin> set l"
proof -
  have ne: "l \<noteq> []" and c: "list_all (\<lambda>b. is_ascii_alphanumeric b \<or> b = CHR ''-'') l"
    using assms by (auto simp: validate_label_def split: if_splits)
  show "l \<noteq> []" by (rule ne)
  show "CHR ''/'' \<notin> set l" "CHR ''.'' \<notin> set l" "CHR 0x00 \<notin> set l"
    using c by (auto simp: list_all_iff rust_simps)
qed

lemma split_by_covers: "c \<in> set s \<Longrightarrow> p c \<or> (\<exists>l\<in>set (split_by p s). c \<in> set l)"
  by (induction s) (auto split: list.splits)

definition name_char :: "char \<Rightarrow> bool" where
  "name_char c = (is_ascii_alphanumeric c \<or> c = CHR ''-'' \<or> c = CHR ''.'')"

lemma valid_name_chars:
  assumes "validate_server_name s = Inr ()" "c \<in> set s"
  shows "name_char c"
proof -
  have v: "validate_labels (split_on (CHR ''.'') s) = Inr ()"
    using assms(1) by (simp add: validate_server_name_def split: if_splits)
  have "c = CHR ''.'' \<or> (\<exists>l\<in>set (split_on (CHR ''.'') s). c \<in> set l)"
    using split_by_covers [OF assms(2), of "\<lambda>c. c = CHR ''.''"] by (simp add: split_on_def)
  then show ?thesis
    using validate_labels_Inr [OF v] by (fastforce simp: name_char_def validate_label_def list_all_iff split: if_splits)
qed

lemma name_char_lower: "name_char c \<Longrightarrow> name_char (lower_char c)"
  using byte_lower_char [of c] by (auto simp: name_char_def lower_char_def is_ascii_alphanumeric_def is_ascii_lowercase_def is_ascii_uppercase_def is_ascii_digit_def)

lemma valid_name_not_dots:
  assumes "validate_server_name s = Inr ()"
  shows "to_ascii_lowercase s \<noteq> []" "to_ascii_lowercase s \<noteq> ''.''" "to_ascii_lowercase s \<noteq> ''..''"
proof -
  have v: "validate_labels (split_on (CHR ''.'') s) = Inr ()" and ne: "s \<noteq> []"
    using assms(1) by (auto simp: validate_server_name_def split: if_splits)
  have first: "hd s \<noteq> CHR ''.''"
  proof
    assume "hd s = CHR ''.''"
    then have "[] \<in> set (split_on (CHR ''.'') s)" using ne by (cases s) (auto simp: split_on_def)
    from validate_labels_Inr [OF v this] show False by (simp add: validate_label_def)
  qed
  have low: "hd (to_ascii_lowercase s) \<noteq> CHR ''.''"
  proof
    assume "hd (to_ascii_lowercase s) = CHR ''.''"
    then have "byte (lower_char (hd s)) = 46" using ne by (cases s) (auto simp: to_ascii_lowercase_def byte_def)
    then have "byte (hd s) = 46" by (auto simp: byte_lower_char is_ascii_uppercase_def split: if_splits)
    then have "(of_char (hd s) :: nat) = of_char (CHR ''.'')" by (simp add: byte_def)
    then show False using first by (metis char_of_char)
  qed
  show "to_ascii_lowercase s \<noteq> []" using ne by (simp add: to_ascii_lowercase_def)
  show "to_ascii_lowercase s \<noteq> ''.''" "to_ascii_lowercase s \<noteq> ''..''" using low by auto
qed

lemma digit_char_facts:
  assumes "is_ascii_digit c"
  shows "\<not> is_whitespace c" "lower_char c = c" "size_multiplier c = None"
  using assms by (auto simp: is_whitespace_def is_ascii_digit_def lower_char_def is_ascii_uppercase_def size_multiplier_def byte_def)

lemma suffix_facts:
  assumes "size_multiplier c = Some k"
  shows "\<not> is_whitespace c" "0 < k"
  using assms by (auto simp: size_multiplier_def is_whitespace_def byte_def split: if_splits)

lemma digits_not_unlimited: "is_ascii_digit d \<Longrightarrow> \<not> eq_ignore_ascii_case (d # s) ''unlimited''"
proof
  assume d: "is_ascii_digit d" and "eq_ignore_ascii_case (d # s) ''unlimited''"
  then have "lower_char d = lower_char (CHR ''u'')" by (simp add: eq_ignore_ascii_case_def to_ascii_lowercase_def)
  then have "byte d = byte (lower_char (CHR ''u''))" using digit_char_facts(2) [OF d] by simp
  then show False using d by (simp add: byte_lower_char is_ascii_digit_def) (simp add: is_ascii_uppercase_def byte_def)
qed

lemma body_size_suffix:
  assumes "size_multiplier c = Some k" "n \<le> 2 ^ 64 - 1"
  shows "parse_body_size_string (show_nat n @ [c]) =
    (if n = 0 then Inr None else if 2 ^ 64 \<le> n * k then Inl BodySizeOverflow else Inr (Some (of_nat (n * k))))"
proof -
  obtain d ds where s: "show_nat n = d # ds" by (cases "show_nat n") auto
  have dig: "\<forall>x\<in>set (show_nat n). is_ascii_digit x" using show_nat_digits by blast
  have t1: "trim (show_nat n @ [c]) = show_nat n @ [c]"
    by (rule trim_no_ws) (use dig digit_char_facts(1) suffix_facts(1) [OF assms(1)] in auto)
  have t2: "trim (show_nat n) = show_nat n" by (rule trim_no_ws) (use dig digit_char_facts(1) in auto)
  have u: "\<not> eq_ignore_ascii_case (show_nat n @ [c]) ''unlimited''"
    using digits_not_unlimited [of d "ds @ [c]"] dig s by simp
  have sp: "split_size (show_nat n @ [c]) = (show_nat n, k)" by (simp add: split_size_def assms(1) t2)
  show ?thesis
    using dig parse_uint_show_nat [OF assms(2)] by (simp add: parse_body_size_string_def Let_def t1 u sp list_all_iff)
qed

section \<open>The cache size\<close>

lemma top_level_cache:
  assumes "top_level_settings N ct = Inr cfg"
  shows "cache_max_entry cfg = MAX_CACHE_ENTRY" "\<not> cache_enabled cfg"
proof -
  obtain sockets c2 where
    c2: "(case ct_trusted_forwarded_proxies ct of None \<Rightarrow> Inr (base_settings ct sockets)
      | Some entries \<Rightarrow> rbind (map_err TrustedProxyInvalid (resolve_trusted_proxy_entries N (into_vec entries))) (\<lambda>(cidrs, _).
          Inr ((base_settings ct sockets)\<lparr>trusted_forwarded_proxies := cidrs\<rparr>))) = Inr c2"
    and c3: "(let cfg = (case ct_redact_query_in_access_log ct of Some redact \<Rightarrow> c2\<lparr>redact_query_in_access_log := redact\<rparr> | None \<Rightarrow> c2)
      in case ct_request_max_body_size ct of
           None \<Rightarrow> Inr cfg
         | Some v \<Rightarrow> rbind (parse_body_size v) (\<lambda>limit. Inr (cfg\<lparr>request_max_body_size := limit\<rparr>))) = Inr cfg"
    using assms unfolding top_level_settings_def Let_def rbind_eq_Inr by blast
  have "cache_max_entry (base_settings ct sockets :: 'a proxy_config) = MAX_CACHE_ENTRY" "\<not> cache_enabled (base_settings ct sockets :: 'a proxy_config)"
    by (simp_all add: base_settings_def proxy_config_default_def Let_def)
  then have "cache_max_entry c2 = MAX_CACHE_ENTRY \<and> \<not> cache_enabled c2"
    using c2 by (auto split: option.splits)
  then show "cache_max_entry cfg = MAX_CACHE_ENTRY" "\<not> cache_enabled cfg"
    using c3 by (auto simp: Let_def split: option.splits)
qed

lemma apply_option_cache [simp]:
  "cache_max_entry (apply_h3_option h cfg) = cache_max_entry cfg" "cache_enabled (apply_h3_option h cfg) = cache_enabled cfg"
  "cache_max_entry (apply_cache_option c cfg) = (case co_max_cache_entry c of Some num \<Rightarrow> num | None \<Rightarrow> cache_max_entry cfg)"
  "cache_enabled (apply_cache_option c cfg)" "\<exists>dir. cache_dir (apply_cache_option c cfg) = Some dir"
  by (simp_all add: apply_h3_option_def apply_cache_option_def)

lemma experimental_cache:
  fixes cfg :: "'n proxy_config"
  assumes "apply_experimental N ex cfg0 = Inr cfg"
  shows "\<exists>cfg1 :: 'n proxy_config. cache_max_entry cfg1 = cache_max_entry cfg0 \<and> cache_enabled cfg1 = cache_enabled cfg0 \<and>
    (let cfg2 = (case ex_cache ex of Some c \<Rightarrow> apply_cache_option c cfg1 | None \<Rightarrow> cfg1)
     in cache_max_entry cfg = cache_max_entry cfg2 \<and> cache_enabled cfg = cache_enabled cfg2 \<and> cache_dir cfg = cache_dir cfg2)"
proof -
  define a where "a = (case ex_h3 ex of Some h \<Rightarrow> apply_h3_option h cfg0 | None \<Rightarrow> cfg0)"
  define b where "b = (case ex_ignore_sni_consistency ex of Some ignore \<Rightarrow> a\<lparr>sni_consistency := \<not> ignore\<rparr> | None \<Rightarrow> a)"
  define c where "c = (case ex_connection_handling_timeout ex of
      Some timeout \<Rightarrow> b\<lparr>connection_handling_timeout := (if timeout = 0 then None else Some (from_secs (unat timeout)))\<rparr> | None \<Rightarrow> b)"
  define d where "d = (case ex_cache ex of Some x \<Rightarrow> apply_cache_option x c | None \<Rightarrow> c)"
  have a: "cache_max_entry a = cache_max_entry cfg0" "cache_enabled a = cache_enabled cfg0"
    by (simp_all add: a_def split: option.split)
  have b: "cache_max_entry b = cache_max_entry a" "cache_enabled b = cache_enabled a"
    by (simp_all add: b_def split: option.split)
  have c: "cache_max_entry c = cache_max_entry b" "cache_enabled c = cache_enabled b"
    by (simp_all add: c_def split: option.split)
  have "(case ex_tcp_recv_proxy_protocol ex of None \<Rightarrow> Inr d
      | Some pp \<Rightarrow> rbind (build_proxy_protocol N pp) (\<lambda>p. Inr (d\<lparr>tcp_recv_proxy_protocol := Some p\<rparr>))) = Inr cfg"
    using assms by (simp only: apply_experimental_def Let_def a_def b_def c_def d_def)
  then have "cache_max_entry cfg = cache_max_entry d" "cache_enabled cfg = cache_enabled d" "cache_dir cfg = cache_dir d"
    by (auto split: option.splits)
  then show ?thesis using a b c unfolding d_def Let_def by (intro exI [of _ c]) simp
qed

lemma accepted_cache_entry:
  assumes "proxy_config_try_from N ct = Inr cfg"
  shows "case Option.bind (ct_experimental ct) ex_cache of
      None \<Rightarrow> \<not> cache_enabled cfg
    | Some c \<Rightarrow> cache_enabled cfg \<and> cache_dir cfg \<noteq> None \<and>
        cache_max_entry cfg = (case co_max_cache_entry c of Some num \<Rightarrow> num | None \<Rightarrow> MAX_CACHE_ENTRY)"
proof -
  obtain cfg0 where t: "top_level_settings N ct = Inr cfg0"
    and r: "(case ct_experimental ct of None \<Rightarrow> Inr cfg0 | Some ex \<Rightarrow> apply_experimental N ex cfg0) = Inr cfg"
    using assms by (auto simp: proxy_config_try_from_def)
  show ?thesis
  proof (cases "ct_experimental ct")
    case None
    then show ?thesis using r top_level_cache [OF t] by simp
  next
    case (Some ex)
    then have "apply_experimental N ex cfg0 = Inr cfg" using r by simp
    from experimental_cache [OF this] Some top_level_cache [OF t] show ?thesis
      by (cases "ex_cache ex") (auto split: option.split)
  qed
qed

section \<open>A concrete configuration\<close>

definition sample_tls_option :: tls_option where
  "sample_tls_option = \<lparr>to_tls_cert_path = Some ''c'', to_tls_cert_key_path = Some ''k'', to_https_redirection = None,
     to_client_ca_cert_path = Some ''a'', to_acme = None\<rparr>"

definition sample_application :: application where
  "sample_application = \<lparr>app_server_name = Some ''a.b'',
     app_reverse_proxy = Some [\<lparr>rpo_path = None, rpo_replace_path = None, rpo_upstream = [\<lparr>up_location = ''u'', up_tls = None\<rparr>],
       rpo_upstream_options = None, rpo_load_balance = None, rpo_health_check = None\<rparr>],
     app_tls = Some sample_tls_option\<rparr>"

definition sample_toml :: "experimental option \<Rightarrow> config_toml" where
  "sample_toml ex = \<lparr>ct_listen_port = Some 80, ct_listen_port_tls = Some 443, ct_listen_address_v4 = None, ct_listen_address_v6 = None,
     ct_listen_ipv6 = None, ct_public_https_port = None, ct_https_redirection_port = None, ct_tcp_listen_backlog = None,
     ct_max_concurrent_streams = None, ct_max_clients = None, ct_max_clients_per_ip = None, ct_sticky_cookie_secret = None,
     ct_trusted_forwarded_proxies = None, ct_redact_query_in_access_log = None, ct_request_max_body_size = None,
     ct_apps = Some [(''app'', sample_application)], ct_default_app = None, ct_experimental = ex\<rparr>"

definition zero_cache :: experimental where
  "zero_cache = \<lparr>ex_h3 = None, ex_cache = Some \<lparr>co_cache_dir = None, co_max_cache_entry = Some 0, co_max_cache_each_size = None,
       co_max_cache_each_size_on_memory = None\<rparr>, ex_acme = None, ex_ignore_sni_consistency = None,
     ex_connection_handling_timeout = None, ex_tcp_recv_proxy_protocol = None\<rparr>"

lemma sample_name_valid: "validate_server_name ''a.b'' = Inr ()"
  by (simp add: validate_server_name_def validate_label_def split_on_def rust_simps)

lemma sample_listen: "build_listen_sockets None None False (Some 80) (Some 443) =
    Inr [SocketAddr DEFAULT_LISTEN_ADDRESS_V4 80, SocketAddr DEFAULT_LISTEN_ADDRESS_V4 443]"
  by (simp add: build_listen_sockets_def)

definition sample_app_settings :: "bytes app_config" where
  "sample_app_settings = \<lparr>ac_app_name = ''app'', ac_server_name = ''a.b'',
     ac_reverse_proxy = [\<lparr>rp_path = None, rp_replace_path = None, rp_upstream = [''http://u''], rp_upstream_options = None,
       rp_load_balance = None, rp_health_check = None\<rparr>],
     ac_tls = Some \<lparr>tls_mutual_tls = True, tls_https_redirection = True, tls_acme = False\<rparr>\<rparr>"

lemma sample_app_config: "build_app_config sample_uri_api sample_application (to_ascii_lowercase ''app'') = Inr sample_app_settings"
  by (simp add: build_app_config_def sample_application_def sample_name_valid reverse_proxy_try_from_def upstream_uri_try_from_def
      sample_uri_api_def validate_lb_health_check_def build_tls_config_def sample_tls_option_def sample_app_settings_def
      to_ascii_lowercase_def lower_char_def rust_simps)

lemma sample_experimental: "ct_experimental (sample_toml ex) = ex"
  by (simp add: sample_toml_def)

lemma sample_top_level: "top_level_settings N (sample_toml ex) =
    Inr (base_settings (sample_toml ex) [SocketAddr DEFAULT_LISTEN_ADDRESS_V4 80, SocketAddr DEFAULT_LISTEN_ADDRESS_V4 443])"
  by (simp add: top_level_settings_def sample_toml_def sample_listen Let_def)

lemma sample_settings:
  "\<exists>cfg. validate_and_build_settings N sample_uri_api (sample_toml None) =
     Inr (cfg, \<lparr>acl_inner = [sample_app_settings], acl_default_app = None\<rparr>)"
  using sample_app_config
  by (simp add: validate_and_build_settings_def proxy_config_try_from_def top_level_settings_def sample_toml_def sample_listen Let_def
      base_settings_def sample_application_def sample_tls_option_def)

section \<open>Properties\<close>

text \<open>An accepted configuration serves.  Whatever TOML document passes the validation, and whatever
  application manager is built from its settings, every sequence of requests is answered, each
  request with a response: no panic on the way from the document to the response.\<close>

theorem accepted_config_serves:
  assumes "validate_and_build_settings N U ct = Inr (cfg, acl)"
    and "app_manager_try_from H U K n acl = Inr (am, n')"
    and "\<forall>a \<in> set arrivals. env_ok (he_lb (ar_env a))"
  shows "\<exists>responses. serve_requests H U K N \<lparr>hg_proxy_config = cfg, hg_sticky_cookie_cipher = cipher\<rparr> am arrivals = Some responses \<and>
    length responses = length arrivals"
  using serve_requests_serving [OF built_serving [OF assms(2) accepted_has_upstreams [OF assms(1)]] assms(3)] .

theorem accepted_config_serves_witness:
  "\<exists>cfg am responses. serve_requests lines_api sample_uri_api sample_crypto edge_net_api
     \<lparr>hg_proxy_config = cfg, hg_sticky_cookie_cipher = None\<rparr> am [sample_arrival] = Some responses \<and> length responses = 1"
proof -
  let ?acl = "\<lparr>acl_inner = [sample_app_settings], acl_default_app = None\<rparr>"
  obtain cfg where s: "validate_and_build_settings edge_net_api sample_uri_api (sample_toml None) = Inr (cfg, ?acl)"
    using sample_settings by blast
  obtain am n' where am: "app_manager_try_from lines_api sample_uri_api sample_crypto 0 ?acl = Inr (am, n')"
    by (simp add: app_manager_try_from_def sample_app_settings_def backend_app_try_from_def path_manager_try_from_def
        build_candidates_def build_upstreams_def build_load_balance_def build_options_def)
  have "\<forall>a \<in> set [sample_arrival]. env_ok (he_lb (ar_env a))" by (simp add: sample_arrival_def env_ok_def)
  from accepted_config_serves [OF s am this] show ?thesis by fastforce
qed

lemma cert_source_of_app:
  assumes "validate_and_build_settings N U ct = Inr (cfg, acl)"
    and "build_cert_manager D ct = Some (Inr (Some m))"
    and "distinct (map to_ascii_lowercase (tls_server_names (the (ct_apps ct))))"
    and "ac \<in> set (acl_inner acl)" and "ac_tls ac = Some t"
  shows "\<exists>src. map_of (cr_inner (build_cert_reloader m :: ('c, 'k) crypto_reloader)) (to_ascii_lowercase (ac_server_name ac)) = Some src \<and>
    source_is_mutual_tls src = tls_mutual_tls t"
proof -
  obtain apps where a: "ct_apps ct = Some apps"
    and apps: "list_all2 (\<lambda>(name, app) ac. build_app_config U app (to_ascii_lowercase name) = Inr ac) apps (acl_inner acl)"
    using assms(1) by (rule accepted_app)
  obtain name app where x: "(name, app) \<in> set apps" and ac: "build_app_config U app (to_ascii_lowercase name) = Inr ac"
    using list_all2_elem [OF apps assms(4)] by auto
  obtain tls where tls: "app_tls app = Some tls" "tls_mutual_tls t = (to_client_ca_cert_path tls \<noteq> None)"
    using accepted_tls(3) [OF ac assms(5)] by blast
  have dm: "distinct (map to_ascii_lowercase (tls_server_names apps))" using assms(3) a by simp
  have d: "distinct (tls_server_names apps)" using dm by (simp add: distinct_map)
  have e: "distinct (map fst m)" "fst ` set m \<subseteq> set (tls_server_names apps)"
    using cert_manager_entry(1,2) [OF assms(2) a d] .
  have "\<exists>src. map_of m (ac_server_name ac) = Some src \<and> source_of D (Option.bind (ct_experimental ct) ex_acme) tls (ac_server_name ac) src"
    using cert_manager_entry(3) [OF assms(2) a d x tls(1) accepted_tls(1) [OF ac]] .
  then have src: "\<exists>src. map_of m (ac_server_name ac) = Some src \<and> client_ca_cert_path src = to_client_ca_cert_path tls"
    by (auto simp: source_of_def simp del: map_of_eq_Some_iff)
  have "inj_on to_ascii_lowercase (set (tls_server_names apps))" using dm by (simp add: distinct_map)
  then have inj: "inj_on to_ascii_lowercase (fst ` set m)" by (rule inj_on_subset) (rule e(2))
  obtain src where s: "map_of m (ac_server_name ac) = Some src" "client_ca_cert_path src = to_client_ca_cert_path tls" using src by blast
  have "map_of (cr_inner (build_cert_reloader m :: ('c, 'k) crypto_reloader)) (to_ascii_lowercase (ac_server_name ac)) = Some src"
    by (rule reloader_entry [OF e(1) inj s(1)])
  then show ?thesis using s(2) tls(2) by (intro exI [of _ src]) (simp add: source_is_mutual_tls_def)
qed

lemma accepted_sources_no_panic:
  assumes "validate_and_build_settings N U ct = Inr (cfg, acl)"
  shows "build_cert_manager D ct \<noteq> None"
proof -
  obtain apps where a: "ct_apps ct = Some apps"
    and apps: "list_all2 (\<lambda>(name, app) ac. build_app_config U app (to_ascii_lowercase name) = Inr ac) apps (acl_inner acl)"
    using assms by (rule accepted_app)
  have "\<forall>(n, app)\<in>set apps. \<forall>tls. app_tls app = Some tls \<longrightarrow> tls_paths_ok tls"
  proof (clarify)
    fix n app tls assume "(n, app) \<in> set apps" "app_tls app = Some tls"
    moreover obtain ac where "build_app_config U app (to_ascii_lowercase n) = Inr ac"
      using list_all2_elem1 [OF apps calculation(1)] by auto
    ultimately show "tls_paths_ok tls" by (simp add: accepted_tls(2))
  qed
  from crypto_sources_no_panic [OF this, of D "Option.bind (ct_experimental ct) ex_acme" "[]"] show ?thesis
    using a by (auto simp: build_cert_manager_def split: option.splits sum.splits)
qed

text \<open>C19: The certificate sources agree with the applications.  For every accepted configuration, building
  the sources does not panic; and if it succeeds and no two TLS applications have the same server name
  up to case, then every application with TLS has a source under its lowercased name, and that source
  asks for client certificates exactly if the application is marked as using mutual TLS.\<close>

theorem cert_sources_agree:
  assumes "validate_and_build_settings N U ct = Inr (cfg, acl)"
  shows "build_cert_manager D ct \<noteq> None \<and>
    (\<forall>m ac t. build_cert_manager D ct = Some (Inr (Some m)) \<longrightarrow>
       distinct (map to_ascii_lowercase (tls_server_names (the (ct_apps ct)))) \<longrightarrow>
       ac \<in> set (acl_inner acl) \<longrightarrow> ac_tls ac = Some t \<longrightarrow>
       (\<exists>src. map_of (cr_inner (build_cert_reloader m :: ('c, 'k) crypto_reloader)) (to_ascii_lowercase (ac_server_name ac)) = Some src \<and>
          source_is_mutual_tls src = tls_mutual_tls t))"
  using accepted_sources_no_panic [OF assms] cert_source_of_app [OF assms] by blast

theorem cert_sources_agree_witness:
  "\<exists>m src. map_of (cr_inner (build_cert_reloader m :: (unit, unit) crypto_reloader)) ''a.b'' = Some src \<and> source_is_mutual_tls src"
proof -
  let ?acl = "\<lparr>acl_inner = [sample_app_settings], acl_default_app = None\<rparr>"
  obtain cfg where s: "validate_and_build_settings edge_net_api sample_uri_api (sample_toml None) = Inr (cfg, ?acl)"
    using sample_settings by blast
  obtain m where b: "build_cert_manager plain_digest (sample_toml None) = Some (Inr (Some m))"
    by (simp add: build_cert_manager_def sample_toml_def sample_application_def sample_tls_option_def build_tls_for_app_acme_def)
  have d: "distinct (map to_ascii_lowercase (tls_server_names (the (ct_apps (sample_toml None)))))"
    by (simp add: sample_toml_def tls_server_names_def List.map_filter_def sample_application_def)
  have "sample_app_settings \<in> set (acl_inner ?acl)" by simp
  moreover have "ac_tls sample_app_settings = Some \<lparr>tls_mutual_tls = True, tls_https_redirection = True, tls_acme = False\<rparr>"
    by (simp add: sample_app_settings_def)
  ultimately have "\<exists>src. map_of (cr_inner (build_cert_reloader m :: (unit, unit) crypto_reloader))
      (to_ascii_lowercase (ac_server_name sample_app_settings)) = Some src \<and> source_is_mutual_tls src = True"
    using cert_sources_agree [OF s] b d by fastforce
  then show ?thesis by (auto simp: sample_app_settings_def)
qed

text \<open>The size of a request body, as configured.  A number with a binary suffix is read exactly: zero
  disables the limit, a product that does not fit 64 bits is refused, and any other gives this product,
  without wrap-around.\<close>

theorem body_size_exact:
  assumes "size_multiplier c = Some k" and "n \<le> 2 ^ 64 - 1"
  shows "parse_body_size (SizeString (show_nat n @ [c])) =
      (if n = 0 then Inr None else if 2 ^ 64 \<le> n * k then Inl BodySizeOverflow else Inr (Some (of_nat (n * k)))) \<and>
    (n * k < 2 ^ 64 \<longrightarrow> unat (of_nat (n * k) :: usize) = n * k)"
  using body_size_suffix [OF assms] by (simp add: unat_of_nat del: of_nat_mult)

theorem body_size_exact_witness:
  "parse_body_size (SizeString (show_nat 10 @ ''M'')) = Inr (Some 10485760) \<and>
   parse_body_size (SizeString (show_nat (2 ^ 40) @ ''g'')) = Inl BodySizeOverflow"
  using body_size_exact [of "CHR ''M''" "1024 * 1024" 10] body_size_exact [of "CHR ''g''" "1024 * 1024 * 1024" "2 ^ 40"]
  by (simp add: size_multiplier_def)

lemma valid_name_component:
  assumes v: "validate_server_name server_name = Inr ()"
  shows "component (to_ascii_lowercase server_name)" and "CHR 0x00 \<notin> set (to_ascii_lowercase server_name)"
    and "to_ascii_lowercase server_name \<noteq> ''..''"
proof -
  have c: "name_char x" if "x \<in> set (to_ascii_lowercase server_name)" for x
    using that valid_name_chars [OF v] name_char_lower by (auto simp: to_ascii_lowercase_def)
  have "\<not> name_char (CHR ''/'')" "\<not> name_char (CHR 0x00)" by (simp_all add: name_char_def rust_simps)
  then have "CHR ''/'' \<notin> set (to_ascii_lowercase server_name)" "CHR 0x00 \<notin> set (to_ascii_lowercase server_name)" using c by blast+
  then show "component (to_ascii_lowercase server_name)" "CHR 0x00 \<notin> set (to_ascii_lowercase server_name)"
    "to_ascii_lowercase server_name \<noteq> ''..''"
    using valid_name_not_dots [OF v] by (auto simp: component_def)
qed

lemma acme_domains_mem:
  "acme_domains apps = Some ds \<Longrightarrow> (name, app) \<in> set apps \<Longrightarrow> app_tls app = Some tls \<Longrightarrow> to_acme tls = Some True \<Longrightarrow>
     app_server_name app = Some sn \<Longrightarrow> sn \<in> set ds"
  by (induction apps arbitrary: ds) (auto split: if_splits option.splits)

lemma acme_manager_entry:
  assumes "build_acme_manager url_parse io pid clock ct t = (Some (Inr (Some am)), t')"
    and "Option.bind (ct_experimental ct) ex_acme = Some acme" and "ct_apps ct = Some apps"
    and "(name, app) \<in> set apps" and "app_tls app = Some tls" and "to_acme tls = Some True" and "app_server_name app = Some sn"
  shows "map_of (acme_inner am) (to_ascii_lowercase sn) =
    Some (dir_cache_new (acme_registry_dir (ao_registry_path acme)) (to_ascii_lowercase sn))"
proof -
  obtain ds where ds: "acme_domains apps = Some ds"
    and n: "acme_try_new url_parse io pid clock (ao_dir_url acme) (ao_registry_path acme) [ao_email acme] ds t = (Inr am, t')"
    using assms(1-3) by (auto simp: build_acme_manager_def split: option.splits if_splits sum.splits prod.splits)
  have "sn \<in> set ds" by (rule acme_domains_mem [OF ds assms(4-7)])
  then show ?thesis by (simp add: acme_try_new_manager(1) [OF n] acme_inner_map_lookup)
qed

text \<open>The files of an ACME certificate stay in the registry: for whatever server name the paths of a
  certificate are filled in, they lie in a directory directly under the registry whose name is the
  lowercased server name, a proper path component without slash or NUL that is none of the empty name,
  \<open>.\<close> and \<open>..\<close>.\<close>

theorem acme_paths_confined:
  assumes "build_tls_for_app_acme D tls acme server_name registry url = Inr tls'" and "to_acme tls = Some True"
  shows "\<exists>dir file. to_tls_cert_path tls' = Some (registry @ ''/'' @ dir @ ''/'' @ file) \<and>
    to_tls_cert_key_path tls' = to_tls_cert_path tls' \<and> dir = to_ascii_lowercase server_name \<and>
    CHR ''/'' \<notin> set dir \<and> CHR 0x00 \<notin> set dir \<and> dir \<notin> {[], ''.'', ''..''}"
proof -
  have v: "validate_server_name server_name = Inr ()"
    and p: "\<exists>file. to_tls_cert_path tls' = Some (registry @ ''/'' @ to_ascii_lowercase server_name @ ''/'' @ file)"
    and k: "to_tls_cert_key_path tls' = to_tls_cert_path tls'"
    using assms by (auto simp: build_tls_for_app_acme_def Let_def)
  show ?thesis using p k valid_name_component [OF v] by (auto simp: component_def)
qed

lemma acme_paths_filled:
  "to_acme tls = Some True \<Longrightarrow> acme \<noteq> None \<Longrightarrow> tls_paths_ok tls \<Longrightarrow> validate_server_name sn = Inr () \<Longrightarrow>
    \<exists>tls'. build_tls_for_app_acme D tls acme sn registry url = Inr tls'"
  by (auto simp: build_tls_for_app_acme_def tls_paths_ok_def Let_def)

theorem acme_paths_confined_witness:
  "\<exists>(tls :: tls_option) dir file. to_tls_cert_path tls = Some (''r'' @ ''/'' @ dir @ ''/'' @ file) \<and> dir = ''a.b''"
proof -
  let ?tls = "sample_tls_option\<lparr>to_acme := Some True, to_tls_cert_path := None, to_tls_cert_key_path := None\<rparr>"
  let ?acme = "Some \<lparr>ao_dir_url = None, ao_email = [], ao_registry_path = None\<rparr> :: acme_option option"
  have t: "to_acme ?tls = Some True" by simp
  have "?acme \<noteq> None" "tls_paths_ok ?tls" by (simp_all add: tls_paths_ok_def)
  from acme_paths_filled [OF t this sample_name_valid] obtain tls where b: "build_tls_for_app_acme plain_digest ?tls ?acme ''a.b'' ''r'' [] = Inr tls"
    by blast
  obtain dir f where p: "to_tls_cert_path tls = Some (''r'' @ ''/'' @ dir @ ''/'' @ f)" "dir = to_ascii_lowercase ''a.b''"
    using acme_paths_confined [OF b t] by blast
  have "to_ascii_lowercase ''a.b'' = ''a.b''" by (simp add: to_ascii_lowercase_def lower_char_def rust_simps)
  then show ?thesis using p by (intro exI [of _ tls] exI [of _ dir] exI [of _ f] conjI) simp_all
qed

text \<open>C20: Whether a certificate obtained by ACME is ever served.  For an application that asks for ACME, the
  file the certificate reloader reads is the file the ACME manager's cache writes exactly if the
  configured registry is a path that lowercasing does not change, and the directory URL, lowercased, gives
  the same file name as the URL in its serialised form.  The manager lowercases the registry path, the
  reloader does not.\<close>

theorem acme_certificate_found:
  assumes "b64_law D"
    and "build_cert_manager D ct = Some (Inr (Some m))"
    and "build_acme_manager url_parse io pid clock ct t = (Some (Inr (Some am)), t')"
    and "Option.bind (ct_experimental ct) ex_acme = Some acme"
    and "ct_apps ct = Some apps" and "distinct (tls_server_names apps)"
    and "(name, app) \<in> set apps" and "app_tls app = Some tls" and "to_acme tls = Some True" and "app_server_name app = Some sn"
  shows "\<exists>src dc. map_of m sn = Some src \<and> map_of (acme_inner am) (to_ascii_lowercase sn) = Some dc \<and>
    (resolve_path (tls_cert_path src) =
       resolve_path (path_join (cert_dir dc) (cached_cert_file_name D [to_ascii_lowercase sn] (acme_dir_url am))) \<longleftrightarrow>
     (\<forall>p. ao_registry_path acme = Some p \<longrightarrow> p \<noteq> [] \<and> resolve_path p = resolve_path (to_ascii_lowercase p)) \<and>
     cached_cert_file_name D [to_ascii_lowercase sn] (to_ascii_lowercase (cert_dir_url (Some acme))) =
       cached_cert_file_name D [to_ascii_lowercase sn] (acme_dir_url am))"
proof -
  let ?l = "to_ascii_lowercase sn" and ?r = "cert_registry (Some acme)" and ?reg = "acme_registry_dir (ao_registry_path acme)"
  let ?f = "cached_cert_file_name D [?l] (to_ascii_lowercase (cert_dir_url (Some acme)))"
  let ?f' = "cached_cert_file_name D [?l] (acme_dir_url am)"
  obtain src where src: "map_of m sn = Some src" and s: "source_of D (Some acme) tls sn src"
    using cert_manager_entry(3) [OF assms(2,5,6,7,8,10)] assms(4) by (auto simp del: map_of_eq_Some_iff)
  have v: "validate_server_name sn = Inr ()" and p: "tls_cert_path src = (?r @ ''/'' @ ?l) @ ''/'' @ ?f"
    using s assms(9) by (auto simp: source_of_def build_tls_for_app_acme_def Let_def)
  note l = valid_name_component(1) [OF v]
  have read: "resolve_path (tls_cert_path src) = (?r = [] \<or> fst (resolve_path ?r), ?f # ?l # snd (resolve_path ?r))"
    unfolding p resolve_slash [OF cached_names(1) [OF assms(1)]] resolve_slash [OF l] by simp
  have written: "resolve_path (path_join (cert_dir (dir_cache_new ?reg ?l)) ?f') = (fst (resolve_path ?reg), ?f' # ?l # snd (resolve_path ?reg))"
    by (rule cache_nodes(1) [OF assms(1) l refl])
  have nil: "\<not> fst (resolve_path [])" by (simp add: resolve_path_def)
  have reg: "(?r = [] \<or> fst (resolve_path ?r)) = fst (resolve_path ?reg) \<and> snd (resolve_path ?r) = snd (resolve_path ?reg) \<longleftrightarrow>
      (\<forall>p. ao_registry_path acme = Some p \<longrightarrow> p \<noteq> [] \<and> resolve_path p = resolve_path (to_ascii_lowercase p))"
    using nil by (cases "ao_registry_path acme")
      (auto simp: cert_registry_def acme_registry_dir_def ACME_REGISTRY_PATH_def prod_eq_iff)
  show ?thesis
    using src acme_manager_entry [OF assms(3,4,5,7-10)] read written reg by (intro exI conjI) (auto simp del: map_of_eq_Some_iff)
qed

definition acme_application :: application where
  "acme_application = sample_application\<lparr>app_tls := Some \<lparr>to_tls_cert_path = None, to_tls_cert_key_path = None, to_https_redirection = None,
     to_client_ca_cert_path = None, to_acme = Some True\<rparr>\<rparr>"

definition acme_toml :: config_toml where
  "acme_toml = (sample_toml (Some (zero_cache\<lparr>ex_cache := None,
     ex_acme := Some \<lparr>ao_dir_url = None, ao_email = ''e'', ao_registry_path = Some ''Reg''\<rparr>\<rparr>)))\<lparr>ct_apps := Some [(''app'', acme_application)]\<rparr>"

theorem acme_certificate_found_witness:
  "\<exists>m am t' src dc. build_cert_manager plain_digest acme_toml = Some (Inr (Some m)) \<and>
     build_acme_manager Some quiet_io 7 (\<lambda>_. (1, 2)) acme_toml empty_tree = (Some (Inr (Some am)), t') \<and>
     map_of m ''a.b'' = Some src \<and> map_of (acme_inner am) ''a.b'' = Some dc \<and>
     resolve_path (tls_cert_path src) \<noteq> resolve_path (path_join (cert_dir dc) (cached_cert_file_name plain_digest [''a.b''] (acme_dir_url am)))"
proof -
  let ?acme = "\<lparr>ao_dir_url = None, ao_email = ''e'', ao_registry_path = Some ''Reg''\<rparr> :: acme_option"
  have l: "b64_law plain_digest" by (simp add: b64_law_def plain_digest_def)
  have x: "Option.bind (ct_experimental acme_toml) ex_acme = Some ?acme" by (simp add: acme_toml_def sample_toml_def zero_cache_def)
  have apps: "ct_apps acme_toml = Some [(''app'', acme_application)]" by (simp add: acme_toml_def)
  have app: "app_server_name acme_application = Some ''a.b''" by (simp add: acme_application_def sample_application_def)
  obtain tls where tls: "app_tls acme_application = Some tls" "to_acme tls = Some True" "tls_paths_ok tls"
    by (simp add: acme_application_def tls_paths_ok_def)
  have port: "ct_listen_port_tls acme_toml \<noteq> None" by (simp add: acme_toml_def sample_toml_def)
  obtain tls' where b: "build_tls_for_app_acme plain_digest tls (Some ?acme) ''a.b'' (cert_registry (Some ?acme)) (cert_dir_url (Some ?acme)) = Inr tls'"
    using acme_paths_filled [OF tls(2) _ tls(3) sample_name_valid] by blast
  then have "\<exists>m. build_cert_manager plain_digest acme_toml = Some (Inr (Some m))"
    using port build_tls_for_app_acme_paths [OF tls(3) b] by (auto simp: build_cert_manager_def apps x app tls(1))
  then obtain m where m: "build_cert_manager plain_digest acme_toml = Some (Inr (Some m))" by blast
  have low: "to_ascii_lowercase ''Reg'' = ''reg''" "to_ascii_lowercase ''a.b'' = ''a.b''" by code_simp+
  obtain am t' where "acme_try_new Some quiet_io 7 (\<lambda>_. (1, 2)) None (Some ''Reg'') [''e''] [''a.b''] empty_tree = (Inr am, t')"
    using quiet_start [OF low(1)] by blast
  then have am: "build_acme_manager Some quiet_io 7 (\<lambda>_. (1, 2)) acme_toml empty_tree = (Some (Inr (Some am)), t')"
    by (simp add: build_acme_manager_def x apps app tls sample_name_valid)
  have d: "distinct (tls_server_names [(''app'', acme_application)])" by (simp add: tls_server_names_def List.map_filter_def)
  have "resolve_path ''Reg'' \<noteq> resolve_path ''reg''" by (simp add: resolve_path_def split_on_no_sep)
  then show ?thesis
    using acme_certificate_found [OF l m am x apps d list.set_intros(1) tls(1,2) app] m am by (fastforce simp: low)
qed

text \<open>C40: The one accepted setting that stops the proxy at its start: with an accepted configuration,
  creating the cache panics exactly if \<open>max_cache_entry = 0\<close> is set.\<close>

theorem zero_cache_entry_panics:
  assumes "proxy_config_try_from N ct = Inr cfg"
  shows "rpxy_cache_new L cfg create_dir_ok = None \<longleftrightarrow>
    (\<exists>ex c. ct_experimental ct = Some ex \<and> ex_cache ex = Some c \<and> co_max_cache_entry c = Some 0)"
proof -
  have m: "MAX_CACHE_ENTRY \<noteq> 0" by (simp add: MAX_CACHE_ENTRY_def)
  have new: "rpxy_cache_new L cfg create_dir_ok = None \<longleftrightarrow> cache_enabled cfg \<and> cache_dir cfg \<noteq> None \<and> cache_max_entry cfg = 0"
    by (auto simp: rpxy_cache_new_def lru_manager_new_def Let_def split: option.splits)
  have e: "(\<exists>ex c. ct_experimental ct = Some ex \<and> ex_cache ex = Some c \<and> co_max_cache_entry c = Some 0) \<longleftrightarrow>
      (\<exists>c. Option.bind (ct_experimental ct) ex_cache = Some c \<and> co_max_cache_entry c = Some 0)"
    by (auto simp: bind_eq_Some_conv)
  show ?thesis using accepted_cache_entry [OF assms] m unfolding new e
    by (cases "Option.bind (ct_experimental ct) ex_cache") (auto split: option.splits)
qed

theorem zero_cache_entry_panics_witness:
  "\<exists>cfg. proxy_config_try_from edge_net_api (sample_toml (Some zero_cache)) = Inr cfg \<and>
     rpxy_cache_new recency_api cfg True = None"
proof -
  obtain cfg0 where t: "top_level_settings edge_net_api (sample_toml (Some zero_cache)) = Inr cfg0"
    using sample_top_level by blast
  have e: "apply_experimental edge_net_api zero_cache cfg0 = Inr (apply_cache_option (the (ex_cache zero_cache)) cfg0)"
    by (simp add: apply_experimental_def zero_cache_def)
  obtain cfg where c: "proxy_config_try_from edge_net_api (sample_toml (Some zero_cache)) = Inr cfg"
    using t e by (simp add: proxy_config_try_from_def sample_experimental)
  have "rpxy_cache_new recency_api cfg True = None"
    unfolding zero_cache_entry_panics [OF c] by (simp add: sample_experimental zero_cache_def)
  with c show ?thesis by blast
qed

end
