(* ===== verification/Service.thy ===== *)
theory Service
  imports Config
begin

text \<open>
  The life of the process: building a service from a configuration and replacing it when the configuration
  changes (\<open>RpxyService::new\<close> and \<open>rpxy_service\<close> of \<open>rpxy-bin/src/main.rs\<close>), the set-up and the
  task loop of the library's \<open>entrypoint\<close> (\<open>rpxy-lib/src/lib.rs\<close>), and the supervision of the proxy,
  the certificate reloader and the ACME tasks (\<open>start_inner\<close>).  The tasks run concurrently: they are
  step relations, with the cancellation token as a flag of the state.
\<close>

section \<open>Building a service\<close>

record ('n, 'u) rpxy_service =
  sv_proxy_conf :: "'n proxy_config"
  sv_app_conf :: "'u app_config_list"
  sv_certs :: "(bytes \<times> crypto_file_source) list option"
  sv_unsafe_debug_headers :: bool
  sv_access_log_enabled :: bool
  sv_sticky_cookie_secret :: "bytes option"
  sv_acme_manager :: "acme_manager option"

text \<open>What a service is built with: the outside interfaces, and the two flags read once at the start.\<close>

record ('n, 'u, 'k) service_env =
  se_net :: "'n net_api"
  se_uri :: "'u uri_api"
  se_crypto :: "'k cookie_crypto"
  se_digest :: cache_digest
  se_url_parse :: "bytes \<Rightarrow> bytes option"
  se_io :: dir_io
  se_pid :: nat
  se_clock :: "bytes \<Rightarrow> nat \<times> nat"
  se_unsafe_debug_headers :: bool
  se_access_log_enabled :: bool

text \<open>\<open>RpxyService::new\<close> on the file tree it finds; \<open>None\<close> is a panic.\<close>

definition rpxy_service_new :: "('n, 'u, 'k) service_env \<Rightarrow> config_toml \<Rightarrow> dir_tree \<Rightarrow>
    (config_error + ('n, 'u) rpxy_service) option \<times> dir_tree" where
  "rpxy_service_new V ct t =
     (case validate_and_build_settings (se_net V) (se_uri V) ct of
        Inl e \<Rightarrow> (Some (Inl e), t)
      | Inr (proxy_conf, app_conf) \<Rightarrow>
          (case validate_and_build_sticky_cookie_secret (se_crypto V) ct of
             Inl e \<Rightarrow> (Some (Inl e), t)
           | Inr secret \<Rightarrow>
               (case build_cert_manager (se_digest V) ct of
                  None \<Rightarrow> (None, t)
                | Some (Inl e) \<Rightarrow> (Some (Inl e), t)
                | Some (Inr certs) \<Rightarrow>
                    (case build_acme_manager (se_url_parse V) (se_io V) (se_pid V) (se_clock V) ct t of
                       (None, t) \<Rightarrow> (None, t)
                     | (Some (Inl e), t) \<Rightarrow> (Some (Inl e), t)
                     | (Some (Inr acme), t) \<Rightarrow>
                         (Some (Inr \<lparr>sv_proxy_conf = proxy_conf, sv_app_conf = app_conf, sv_certs = certs,
                                     sv_unsafe_debug_headers = se_unsafe_debug_headers V,
                                     sv_access_log_enabled = se_access_log_enabled V,
                                     sv_sticky_cookie_secret = secret, sv_acme_manager = acme\<rparr>), t)))))"

section \<open>The configuration loop\<close>

datatype service_error = ServiceConfig config_error | ReceiverBroken | ServiceRpxy rpxy_error | ServiceCert | ServiceAcme | ServiceJoin

text \<open>What the loop waits for: a change of the configuration, with the file tree at that time, or the end of the service.\<close>

datatype service_event = ConfigChanged "config_toml option" dir_tree | ServiceEnded "service_error + unit"

datatype ('n, 'u) loop_end = StillRunning "('n, 'u) rpxy_service" | LoopReturned "service_error + unit" | LoopPanicked

text \<open>The loop, with the services it starts: every change of the configuration cancels the service and starts one.\<close>

fun service_loop :: "('n, 'u, 'k) service_env \<Rightarrow> ('n, 'u) rpxy_service \<Rightarrow> service_event list \<Rightarrow>
    ('n, 'u) rpxy_service list \<times> ('n, 'u) loop_end" where
  "service_loop V service [] = ([service], StillRunning service)"
| "service_loop V service (ServiceEnded res # events) = ([service], LoopReturned res)"
| "service_loop V service (ConfigChanged None t # events) = ([service], LoopReturned (Inl ReceiverBroken))"
| "service_loop V service (ConfigChanged (Some new_config_toml) t # events) =
     (case fst (rpxy_service_new V new_config_toml t) of
        None \<Rightarrow> ([service], LoopPanicked)
      | Some r \<Rightarrow>
          (let service' = (case r of Inr new_service \<Rightarrow> new_service | Inl _ \<Rightarrow> service);
               (starts, e) = service_loop V service' events
           in (service # starts, e)))"

definition rpxy_service_run :: "('n, 'u, 'k) service_env \<Rightarrow> config_toml option \<Rightarrow> dir_tree \<Rightarrow> service_event list \<Rightarrow>
    ('n, 'u) rpxy_service list \<times> ('n, 'u) loop_end" where
  "rpxy_service_run V first t events =
     (case first of
        None \<Rightarrow> ([], LoopReturned (Inl ReceiverBroken))
      | Some config_toml \<Rightarrow>
          (case fst (rpxy_service_new V config_toml t) of
             None \<Rightarrow> ([], LoopPanicked)
           | Some (Inl e) \<Rightarrow> ([], LoopReturned (Inl (ServiceConfig e)))
           | Some (Inr service) \<Rightarrow> service_loop V service events))"

section \<open>The set-up of the entry point\<close>

record ('n, 'u, 'k, 'c) entry_parts =
  ep_globals :: "('k, 'n) handler_globals"
  ep_app_manager :: "'u app_manager"
  ep_cache :: "'c rpxy_cache option"
  ep_listener_specs :: "listener_spec list"
  ep_checkers :: "'u checker_task list"

text \<open>\<open>None\<close> is a panic; \<open>n\<close> numbers the health flags, \<open>client_built\<close> is the probe client's construction.\<close>

definition entrypoint_setup :: "'h header_api \<Rightarrow> 'u uri_api \<Rightarrow> 'k cookie_crypto \<Rightarrow> ('c, 'v) lru_api \<Rightarrow> nat \<Rightarrow> bool \<Rightarrow> bool \<Rightarrow>
    ('n, 'u) rpxy_service \<Rightarrow> (rpxy_error + ('n, 'u, 'k, 'c) entry_parts) option" where
  "entrypoint_setup H U K L n create_dir_ok client_built service =
     (let proxy_config = sv_proxy_conf service
      in if cache_enabled proxy_config \<and> cache_dir proxy_config = None then None
         else
           case (case sv_sticky_cookie_secret service of
                   Some secret \<Rightarrow> rbind (build_sticky_cookie_cipher K secret) (\<lambda>c. Inr (Some c))
                 | None \<Rightarrow> Inr None) of
             Inl e \<Rightarrow> Some (Inl e)
           | Inr sticky_cookie_cipher \<Rightarrow>
               (case app_manager_try_from H U K n (sv_app_conf service) of
                  Inl e \<Rightarrow> Some (Inl e)
                | Inr (app_manager, _) \<Rightarrow>
                    (case rpxy_cache_new L proxy_config create_dir_ok of
                       None \<Rightarrow> None
                     | Some cache \<Rightarrow>
                         Some (rbind (spawn_health_checkers client_built app_manager) (\<lambda>checkers.
                           Inr \<lparr>ep_globals = \<lparr>hg_proxy_config = proxy_config, hg_sticky_cookie_cipher = sticky_cookie_cipher\<rparr>,
                                ep_app_manager = app_manager, ep_cache = cache,
                                ep_listener_specs = listener_specs proxy_config, ep_checkers = checkers\<rparr>)))))"

section \<open>The tasks of the entry point\<close>

text \<open>A join handle gives the panic of its task or what it returned.\<close>

type_synonym 'e joined = "unit + ('e + unit)"

datatype entry_task = CheckerTask | ProxyTask listener_spec

text \<open>What \<open>Proxy::start\<close> returns when the service of its listener ends with \<open>res\<close>: the TLS and QUIC services
  run in a task of their own, and what they return is dropped.\<close>

definition start_with_quic :: "rpxy_error + unit \<Rightarrow> rpxy_error + unit" where
  "start_with_quic res = Inr ()"

definition start_with_tls :: "rpxy_error + unit \<Rightarrow> rpxy_error + unit" where
  "start_with_tls res = Inr ()"

definition start_without_tls :: "rpxy_error + unit \<Rightarrow> rpxy_error + unit" where
  "start_without_tls res = rbind res (\<lambda>_. Inr ())"

definition start_result :: "listener_spec \<Rightarrow> rpxy_error + unit \<Rightarrow> rpxy_error + unit" where
  "start_result spec res =
     (if is_http3 spec then start_with_quic res
      else if tls_enabled spec then start_with_tls res
      else start_without_tls res)"

text \<open>The tasks not yet ended, the results in the order of completion, and the wait loop: how many it has taken
  and the error it keeps.\<close>

record entry_state =
  en_cancelled :: bool
  en_pending :: "entry_task list"
  en_done :: "rpxy_error joined list"
  en_seen :: nat
  en_first_error :: "rpxy_error option"

definition entry_start :: "nat \<Rightarrow> listener_spec list \<Rightarrow> entry_state" where
  "entry_start checkers specs =
     \<lparr>en_cancelled = False, en_pending = replicate checkers CheckerTask @ map ProxyTask specs, en_done = [], en_seen = 0,
      en_first_error = None\<rparr>"

definition task_ends :: "nat \<Rightarrow> rpxy_error joined \<Rightarrow> entry_state \<Rightarrow> entry_state" where
  "task_ends i r s = s\<lparr>en_pending := take i (en_pending s) @ drop (Suc i) (en_pending s), en_done := en_done s @ [r]\<rparr>"

definition proxy_exits :: "nat \<Rightarrow> listener_spec \<Rightarrow> rpxy_error + unit \<Rightarrow> entry_state \<Rightarrow> entry_state" where
  "proxy_exits i spec res s = (task_ends i (Inr (start_result spec res)) s)\<lparr>en_cancelled := True\<rparr>"

fun wait_error :: "rpxy_error joined \<Rightarrow> rpxy_error option" where
  "wait_error (Inr (Inr ())) = None"
| "wait_error (Inr (Inl e)) = Some e"
| "wait_error (Inl ()) = Some TaskJoinError"

definition wait_next :: "entry_state \<Rightarrow> entry_state" where
  "wait_next s =
     (let res = en_done s ! en_seen s; s' = s\<lparr>en_seen := Suc (en_seen s)\<rparr>
      in case en_first_error s of
           Some _ \<Rightarrow> s'
         | None \<Rightarrow> (case wait_error res of None \<Rightarrow> s' | Some err \<Rightarrow> s'\<lparr>en_first_error := Some err, en_cancelled := True\<rparr>))"

inductive entry_step :: "entry_state \<Rightarrow> entry_state \<Rightarrow> bool" where
  proxy_exits: "i < length (en_pending s) \<Longrightarrow> en_pending s ! i = ProxyTask spec \<Longrightarrow> entry_step s (proxy_exits i spec res s)"
| cancelled: "i < length (en_pending s) \<Longrightarrow> en_cancelled s \<Longrightarrow> entry_step s (task_ends i (Inr (Inr ())) s)"
| panics: "i < length (en_pending s) \<Longrightarrow> entry_step s (task_ends i (Inl ()) s)"
| parent_cancels: "entry_step s (s\<lparr>en_cancelled := True\<rparr>)"
| waits: "en_seen s < length (en_done s) \<Longrightarrow> entry_step s (wait_next s)"

definition entry_finished :: "entry_state \<Rightarrow> bool" where
  "entry_finished s \<longleftrightarrow> en_pending s = [] \<and> en_seen s = length (en_done s)"

definition entry_result :: "entry_state \<Rightarrow> rpxy_error + unit" where
  "entry_result s = (case en_first_error s of None \<Rightarrow> Inr () | Some e \<Rightarrow> Inl e)"

section \<open>The supervision of the tasks\<close>

record sup_state =
  su_cancelled :: bool
  su_rpxy :: "service_error joined option"
  su_cert :: "service_error joined option"
  su_acme :: "service_error joined option"

definition sup_start :: sup_state where
  "sup_start = \<lparr>su_cancelled = False, su_rpxy = None, su_cert = None, su_acme = None\<rparr>"

text \<open>The tasks beside the entry point that \<open>start\<close> and \<open>start_inner\<close> spawn for a service.\<close>

definition has_cert_service :: "('n, 'u) rpxy_service \<Rightarrow> bool" where
  "has_cert_service service \<longleftrightarrow> sv_certs service \<noteq> None"

definition has_acme_tasks :: "('n, 'u) rpxy_service \<Rightarrow> bool" where
  "has_acme_tasks service \<longleftrightarrow> (case sv_acme_manager service of Some m \<Rightarrow> acme_inner m \<noteq> [] | None \<Rightarrow> False)"

text \<open>Only an error of the entry point cancels the token; the other two tasks cancel it whatever they return.\<close>

inductive sup_step :: "bool \<Rightarrow> bool \<Rightarrow> sup_state \<Rightarrow> sup_state \<Rightarrow> bool" for has_cert has_acme where
  rpxy_ends: "su_rpxy s = None \<Longrightarrow>
     sup_step has_cert has_acme s (s\<lparr>su_rpxy := Some r, su_cancelled := (su_cancelled s \<or> (\<exists>e. r = Inr (Inl e)))\<rparr>)"
| cert_ends: "has_cert \<Longrightarrow> su_cert s = None \<Longrightarrow> sup_step has_cert has_acme s (s\<lparr>su_cert := Some (Inr r), su_cancelled := True\<rparr>)"
| cert_cancelled: "has_cert \<Longrightarrow> su_cert s = None \<Longrightarrow> su_cancelled s \<Longrightarrow>
     sup_step has_cert has_acme s (s\<lparr>su_cert := Some (Inr (Inr ()))\<rparr>)"
| cert_panics: "has_cert \<Longrightarrow> su_cert s = None \<Longrightarrow> sup_step has_cert has_acme s (s\<lparr>su_cert := Some (Inl ())\<rparr>)"
| acme_ends: "has_cert \<Longrightarrow> has_acme \<Longrightarrow> su_acme s = None \<Longrightarrow>
     sup_step has_cert has_acme s (s\<lparr>su_acme := Some (Inr r), su_cancelled := True\<rparr>)"

fun joined_result :: "service_error joined \<Rightarrow> service_error + (service_error + unit)" where
  "joined_result (Inl ()) = Inl ServiceJoin"
| "joined_result (Inr r) = Inr r"

definition join_all :: "service_error joined list \<Rightarrow> service_error + unit" where
  "join_all js = rbind (try_map joined_result js) (\<lambda>rs. rbind (try_map id rs) (\<lambda>_. Inr ()))"

text \<open>What \<open>start_inner\<close> returns, once it returns.\<close>

definition start_inner_result :: "bool \<Rightarrow> bool \<Rightarrow> sup_state \<Rightarrow> (service_error + unit) option" where
  "start_inner_result has_cert has_acme s =
     (if \<not> has_cert then map_option (\<lambda>r. join_all [r]) (su_rpxy s)
      else if \<not> has_acme then
        (case (su_rpxy s, su_cert s) of (Some r, Some c) \<Rightarrow> Some (join_all [r, c]) | _ \<Rightarrow> None)
      else
        (case (su_rpxy s, su_cert s, su_acme s) of (Some r, Some c, Some a) \<Rightarrow> Some (join_all [r, c, a]) | _ \<Rightarrow> None))"

section \<open>Services of accepted configurations\<close>

lemma service_new_settings:
  assumes "rpxy_service_new V ct t = (Some (Inr service), t')"
  shows "validate_and_build_settings (se_net V) (se_uri V) ct = Inr (sv_proxy_conf service, sv_app_conf service)"
  using assms by (auto simp: rpxy_service_new_def split: sum.splits option.splits prod.splits)







lemma accepted_proxy_config:
  "validate_and_build_settings N U ct = Inr (cfg, acl) \<Longrightarrow> proxy_config_try_from N ct = Inr cfg"
  by (auto simp: validate_and_build_settings_def Let_def)

lemma setup_panic:
  assumes "entrypoint_setup H U K L n create_dir_ok client_built service = None"
  shows "cache_enabled (sv_proxy_conf service) \<and>
    (cache_dir (sv_proxy_conf service) = None \<or> cache_max_entry (sv_proxy_conf service) = 0)"
  using assms
  by (auto simp: entrypoint_setup_def rpxy_cache_new_def lru_manager_new_def Let_def
      split: if_splits sum.splits option.splits)

lemma setup_parts:
  assumes "entrypoint_setup H U K L n create_dir_ok client_built service = Some (Inr parts)"
  obtains n' cipher where "app_manager_try_from H U K n (sv_app_conf service) = Inr (ep_app_manager parts, n')"
    and "ep_globals parts = \<lparr>hg_proxy_config = sv_proxy_conf service, hg_sticky_cookie_cipher = cipher\<rparr>"
    and "ep_listener_specs parts = listener_specs (sv_proxy_conf service)"
  using assms unfolding entrypoint_setup_def Let_def
  by (auto split: if_splits sum.splits option.splits)

text \<open>
  C4: From the document to the responses.  The set-up of the entry point of a service panics only if the
  document sets \<open>max_cache_entry = 0\<close>; once set up, the service answers every sequence of requests,
  each request with a response.
\<close>

theorem service_serves:
  assumes "rpxy_service_new V ct t = (Some (Inr service), t')"
    and "\<forall>a \<in> set arrivals. env_ok (he_lb (ar_env a))"
  shows "case entrypoint_setup H (se_uri V) (se_crypto V) L n create_dir_ok client_built service of
      None \<Rightarrow> (\<exists>ex c. ct_experimental ct = Some ex \<and> ex_cache ex = Some c \<and> co_max_cache_entry c = Some 0)
    | Some (Inl e) \<Rightarrow> True
    | Some (Inr parts) \<Rightarrow>
        (\<exists>responses. serve_requests H (se_uri V) (se_crypto V) (se_net V) (ep_globals parts) (ep_app_manager parts) arrivals =
           Some responses \<and> length responses = length arrivals)"
proof -
  note s = service_new_settings [OF assms(1)]
  let ?started = "entrypoint_setup H (se_uri V) (se_crypto V) L n create_dir_ok client_built service"
  consider (panic) "?started = None" | (error) e where "?started = Some (Inl e)" | (parts) parts where "?started = Some (Inr parts)"
    by (cases ?started) (auto, metis sum.exhaust)
  then show ?thesis
  proof cases
    case panic
    have "MAX_CACHE_ENTRY \<noteq> 0" by (simp add: MAX_CACHE_ENTRY_def)
    then show ?thesis
      using setup_panic [OF panic] accepted_cache_entry [OF accepted_proxy_config [OF s]] panic
      by (cases "ct_experimental ct"; cases "Option.bind (ct_experimental ct) ex_cache") (auto split: option.splits)
  next
    case parts
    obtain n' cipher where am: "app_manager_try_from H (se_uri V) (se_crypto V) n (sv_app_conf service) = Inr (ep_app_manager parts, n')"
      and g: "ep_globals parts = \<lparr>hg_proxy_config = sv_proxy_conf service, hg_sticky_cookie_cipher = cipher\<rparr>"
      using parts by (rule setup_parts)
    show ?thesis
      using serve_requests_serving [OF built_serving [OF am accepted_has_upstreams [OF s]] assms(2)] parts by (simp add: g)
  qed simp
qed

section \<open>The end of the entry point\<close>

abbreviation first_error :: "rpxy_error joined list \<Rightarrow> rpxy_error option" where
  "first_error rs \<equiv> (case List.map_filter wait_error rs of [] \<Rightarrow> None | e # _ \<Rightarrow> Some e)"

text \<open>The wait loop keeps the first error of the results it has taken; and as long as the token is not cancelled,
  only panics have ended tasks, and none is taken yet.\<close>

definition entry_inv :: "entry_state \<Rightarrow> bool" where
  "entry_inv s \<longleftrightarrow>
     en_seen s \<le> length (en_done s) \<and> en_first_error s = first_error (take (en_seen s) (en_done s)) \<and>
     (\<not> en_cancelled s \<longrightarrow> en_seen s = 0 \<and> (\<forall>r \<in> set (en_done s). r = Inl ()))"

lemma entry_inv_start: "entry_inv (entry_start checkers specs)"
  by (simp add: entry_inv_def entry_start_def List.map_filter_simps)

lemma entry_inv_wait:
  assumes "entry_inv s" and "en_seen s < length (en_done s)"
  shows "entry_inv (wait_next s)"
proof (cases "en_cancelled s")
  case True
  have t: "take (Suc (en_seen s)) (en_done s) = take (en_seen s) (en_done s) @ [en_done s ! en_seen s]"
    using assms(2) by (rule take_Suc_conv_app_nth)
  show ?thesis
    using assms True by (auto simp: entry_inv_def wait_next_def Let_def t List.map_filter_def split: option.splits list.splits)
next
  case False
  then obtain rs where "en_done s = Inl () # rs" using assms by (cases "en_done s") (auto simp: entry_inv_def)
  then show ?thesis
    using assms(1) False by (simp add: entry_inv_def wait_next_def Let_def List.map_filter_simps)
qed

lemma entry_inv_step: "entry_step s s' \<Longrightarrow> entry_inv s \<Longrightarrow> entry_inv s'"
  by (induction rule: entry_step.induct)
    (auto simp: entry_inv_def proxy_exits_def task_ends_def intro!: entry_inv_wait [unfolded entry_inv_def])


lemma drain_results: "en_pending s = [] \<Longrightarrow> entry_inv s \<Longrightarrow> \<exists>s'. entry_step\<^sup>*\<^sup>* s s' \<and> entry_finished s' \<and> en_done s' = en_done s"
proof (induction "length (en_done s) - en_seen s" arbitrary: s)
  case 0
  then show ?case by (auto simp: entry_finished_def entry_inv_def)
next
  case (Suc k)
  then have l: "en_seen s < length (en_done s)" by simp
  have w: "en_pending (wait_next s) = []" "en_done (wait_next s) = en_done s" "en_seen (wait_next s) = Suc (en_seen s)"
    using Suc.prems(1) by (auto simp: wait_next_def Let_def split: option.splits)
  obtain s' where "entry_step\<^sup>*\<^sup>* (wait_next s) s'" "entry_finished s'" "en_done s' = en_done s"
    using Suc.hyps(1) [of "wait_next s"] Suc.hyps(2) w entry_inv_wait [OF Suc.prems(2) l] by fastforce
  then show ?case using entry_step.waits [OF l] by (meson converse_rtranclp_into_rtranclp)
qed

lemma cancel_pending:
  assumes "en_cancelled s"
  shows "\<exists>s'. entry_step\<^sup>*\<^sup>* s s' \<and> en_pending s' = [] \<and> en_done s' = en_done s @ replicate (length (en_pending s)) (Inr (Inr ()))"
  using assms
proof (induction "en_pending s" arbitrary: s)
  case (Cons t ts)
  let ?s = "task_ends 0 (Inr (Inr ())) s"
  have st: "entry_step s ?s" using Cons.hyps(2) [symmetric] Cons.prems by (intro entry_step.cancelled) auto
  have p: "en_pending ?s = ts" "en_cancelled ?s" "en_done ?s = en_done s @ [Inr (Inr ())]"
    using Cons.hyps(2) [symmetric] Cons.prems by (simp_all add: task_ends_def)
  obtain s' where "entry_step\<^sup>*\<^sup>* ?s s'" "en_pending s' = []" "en_done s' = en_done ?s @ replicate (length ts) (Inr (Inr ()))"
    using Cons.hyps(1) [of ?s] p by auto
  then show ?case using st p Cons.hyps(2) [symmetric]
    by (intro exI [of _ s']) (auto intro: converse_rtranclp_into_rtranclp)
qed auto

lemma cancelled_winds_down:
  assumes "en_cancelled s" and "entry_inv s"
  shows "\<exists>s'. entry_step\<^sup>*\<^sup>* s s' \<and> entry_finished s' \<and>
    en_done s' = en_done s @ replicate (length (en_pending s)) (Inr (Inr ()))"
proof -
  obtain s1 where s1: "entry_step\<^sup>*\<^sup>* s s1" "en_pending s1 = []"
      "en_done s1 = en_done s @ replicate (length (en_pending s)) (Inr (Inr ()))"
    using cancel_pending [OF assms(1)] by blast
  have "entry_inv s1" using s1(1) assms(2) by (induction rule: rtranclp_induct) (auto intro: entry_inv_step)
  then show ?thesis using drain_results [OF s1(2)] s1 by (metis rtranclp_trans)
qed

lemma finished_result: "entry_inv s \<Longrightarrow> entry_finished s \<Longrightarrow>
    entry_result s = (case first_error (en_done s) of None \<Rightarrow> Inr () | Some e \<Rightarrow> Inl e)"
  by (simp add: entry_inv_def entry_finished_def entry_result_def)


section \<open>The end of the service\<close>

definition sup_inv :: "sup_state \<Rightarrow> bool" where
  "sup_inv s \<longleftrightarrow>
     (\<forall>e. su_rpxy s = Some (Inr (Inl e)) \<longrightarrow> su_cancelled s) \<and>
     (su_cancelled s \<longrightarrow> (\<exists>e. su_rpxy s = Some (Inr (Inl e))) \<or> su_cert s \<noteq> None \<or> su_acme s \<noteq> None) \<and>
     su_acme s \<noteq> Some (Inl ())"

lemma sup_inv_step: "sup_step has_cert has_acme s s' \<Longrightarrow> sup_inv s \<Longrightarrow> sup_inv s'"
  by (induction rule: sup_step.induct) (auto simp: sup_inv_def)

lemma sup_inv_start: "sup_inv sup_start"
  by (simp add: sup_inv_def sup_start_def)

lemma sup_inv_reachable: "(sup_step has_cert has_acme)\<^sup>*\<^sup>* sup_start s \<Longrightarrow> sup_inv s"
  by (induction rule: rtranclp_induct) (auto intro: sup_inv_start sup_inv_step)

lemma listener_exit_winds_down:
  assumes "i < length specs"
  shows "\<exists>s. entry_step\<^sup>*\<^sup>* (proxy_exits (checkers + i) (specs ! i) res (entry_start checkers specs)) s \<and> entry_finished s \<and>
    entry_result s = start_result (specs ! i) res"
proof -
  let ?s0 = "entry_start checkers specs"
  let ?s1 = "proxy_exits (checkers + i) (specs ! i) res ?s0"
  have "entry_step ?s0 ?s1"
    using assms by (intro entry_step.proxy_exits) (simp_all add: entry_start_def nth_append)
  then have i: "entry_inv ?s1" using entry_inv_start entry_inv_step by blast
  obtain k s where s: "entry_step\<^sup>*\<^sup>* ?s1 s" "entry_finished s" "en_done s = Inr (start_result (specs ! i) res) # replicate k (Inr (Inr ()))"
    using cancelled_winds_down [OF _ i] by (auto simp: proxy_exits_def task_ends_def entry_start_def)
  have "entry_inv s" using s(1) i by (induction rule: rtranclp_induct) (auto intro: entry_inv_step)
  have n: "List.map_filter wait_error (replicate k (Inr (Inr ()))) = []" by (induction k) (simp_all add: List.map_filter_simps)
  have "entry_result s = start_result (specs ! i) res"
    using finished_result [OF \<open>entry_inv s\<close> s(2)] n
    by (cases "start_result (specs ! i) res") (simp_all add: s(3) List.map_filter_simps)
  then show ?thesis using s by blast
qed

text \<open>
  An error of the entry point ends the service: the token is cancelled, the other tasks end, and the error
  is what \<open>start_inner\<close> returns.
\<close>

lemma entrypoint_error_ends_service:
  assumes "(sup_step has_cert has_acme)\<^sup>*\<^sup>* sup_start s" and "su_rpxy s = Some (Inr (Inl e))" and "su_cert s \<noteq> Some (Inl ())"
  shows "\<exists>s'. (sup_step has_cert has_acme)\<^sup>*\<^sup>* s s' \<and> start_inner_result has_cert has_acme s' = Some (Inl e)"
proof (cases has_cert)
  case True
  have i: "su_cancelled s" "su_acme s \<noteq> Some (Inl ())"
    using sup_inv_reachable [OF assms(1)] assms(2) by (auto simp: sup_inv_def)
  define s1 where "s1 = (if su_cert s = None then s\<lparr>su_cert := Some (Inr (Inr ()))\<rparr> else s)"
  define s2 where "s2 = (if has_acme \<and> su_acme s1 = None then s1\<lparr>su_acme := Some (Inr (Inr ())), su_cancelled := True\<rparr> else s1)"
  have "(sup_step has_cert has_acme)\<^sup>*\<^sup>* s s1"
    using sup_step.cert_cancelled [OF True _ i(1), of has_acme] by (auto simp: s1_def)
  moreover have "(sup_step has_cert has_acme)\<^sup>*\<^sup>* s1 s2"
    using sup_step.acme_ends [of has_cert has_acme s1 "Inr ()"] True by (auto simp: s2_def)
  moreover obtain c where c: "su_cert s1 = Some (Inr c)" using assms(3) by (cases "su_cert s") (auto simp: s1_def, metis old.unit.exhaust sum.exhaust)
  moreover have "has_acme \<Longrightarrow> \<exists>a. su_acme s2 = Some (Inr a)"
    using i(2) by (cases "su_acme s") (auto simp: s1_def s2_def, (metis old.unit.exhaust sum.exhaust)+)
  moreover have "su_rpxy s2 = Some (Inr (Inl e))" "su_cert s2 = su_cert s1" using assms(2) by (simp_all add: s1_def s2_def)
  ultimately show ?thesis
    using True by (intro exI [of _ s2]) (auto simp: start_inner_result_def join_all_def intro: rtranclp_trans)
qed (use assms(2) in \<open>auto simp: start_inner_result_def join_all_def\<close>)

lemma experimental_https_port:
  fixes cfg :: "'n proxy_config"
  assumes "apply_experimental N ex cfg0 = Inr cfg"
  shows "https_port cfg = https_port cfg0"
proof -
  define a where "a = (case ex_h3 ex of Some h \<Rightarrow> apply_h3_option h cfg0 | None \<Rightarrow> cfg0)"
  define b where "b = (case ex_ignore_sni_consistency ex of Some ignore \<Rightarrow> a\<lparr>sni_consistency := \<not> ignore\<rparr> | None \<Rightarrow> a)"
  define c where "c = (case ex_connection_handling_timeout ex of
      Some timeout \<Rightarrow> b\<lparr>connection_handling_timeout := (if timeout = 0 then None else Some (from_secs (unat timeout)))\<rparr> | None \<Rightarrow> b)"
  define d where "d = (case ex_cache ex of Some x \<Rightarrow> apply_cache_option x c | None \<Rightarrow> c)"
  have "https_port a = https_port cfg0" by (simp add: a_def apply_h3_option_def split: option.split)
  moreover have "https_port b = https_port a" by (simp add: b_def split: option.split)
  moreover have "https_port c = https_port b" by (simp add: c_def split: option.split)
  moreover have "https_port d = https_port c" by (simp add: d_def apply_cache_option_def split: option.split)
  moreover have "(case ex_tcp_recv_proxy_protocol ex of None \<Rightarrow> Inr d
      | Some pp \<Rightarrow> rbind (build_proxy_protocol N pp) (\<lambda>p. Inr (d\<lparr>tcp_recv_proxy_protocol := Some p\<rparr>))) = Inr cfg"
    using assms by (simp only: apply_experimental_def Let_def a_def b_def c_def d_def)
  then have "https_port cfg = https_port d" by (auto split: option.splits)
  ultimately show ?thesis by simp
qed

lemma top_level_https_port:
  assumes "top_level_settings N ct = Inr cfg"
  shows "https_port cfg = ct_listen_port_tls ct"
proof -
  obtain sockets c2 where
    c2: "(case ct_trusted_forwarded_proxies ct of None \<Rightarrow> Inr (base_settings ct sockets)
      | Some entries \<Rightarrow> rbind (map_err TrustedProxyInvalid (resolve_trusted_proxy_entries N (into_vec entries))) (\<lambda>(cidrs, _).
          Inr ((base_settings ct sockets)\<lparr>trusted_forwarded_proxies := cidrs\<rparr>))) = Inr c2"
    and c3: "(let cfg = (case ct_redact_query_in_access_log ct of Some redact \<Rightarrow> c2\<lparr>redact_query_in_access_log := redact\<rparr> | None \<Rightarrow> c2)
      in case ct_request_max_body_size ct of
           None \<Rightarrow> Inr cfg
         | Some v \<Rightarrow> rbind (parse_body_size v) (\<lambda>limit. Inr (cfg\<lparr>request_max_body_size := limit\<rparr>))) = Inr cfg"
    using assms unfolding top_level_settings_def Let_def rbind_eq_Inr by blast
  have "https_port (base_settings ct sockets :: 'a proxy_config) = ct_listen_port_tls ct" by (simp add: base_settings_def Let_def)
  then have "https_port c2 = ct_listen_port_tls ct" using c2 by (auto split: option.splits)
  then show ?thesis using c3 by (auto simp: Let_def split: option.splits)
qed

lemma accepted_https_port:
  assumes "proxy_config_try_from N ct = Inr cfg"
  shows "https_port cfg = ct_listen_port_tls ct"
proof -
  obtain cfg0 where t: "top_level_settings N ct = Inr cfg0"
    and r: "(case ct_experimental ct of None \<Rightarrow> Inr cfg0 | Some ex \<Rightarrow> apply_experimental N ex cfg0) = Inr cfg"
    using assms by (auto simp: proxy_config_try_from_def)
  show ?thesis
    using r top_level_https_port [OF t] experimental_https_port [of N _ cfg0 cfg] by (cases "ct_experimental ct") auto
qed

text \<open>A service with a TLS listener has a certificate reloader.\<close>

lemma tls_listener_port: "spec \<in> set (listener_specs cfg) \<Longrightarrow> tls_enabled spec \<Longrightarrow> https_port cfg \<noteq> None"
  by (auto simp: listener_specs_def socket_listeners_def tls_enabled_def Let_def split: option.splits if_splits bool.splits)

lemma tls_service_has_certs:
  assumes "rpxy_service_new V ct t = (Some (Inr service), t')"
    and "spec \<in> set (listener_specs (sv_proxy_conf service))" and "tls_enabled spec"
  shows "has_cert_service service"
proof -
  have "ct_listen_port_tls ct \<noteq> None"
    using tls_listener_port [OF assms(2,3)] accepted_https_port [OF accepted_proxy_config [OF service_new_settings [OF assms(1)]]] by simp
  moreover obtain certs where c: "build_cert_manager (se_digest V) ct = Some (Inr certs)" "sv_certs service = certs"
    using assms(1) by (auto simp: rpxy_service_new_def split: sum.splits option.splits prod.splits)
  ultimately show ?thesis
    using c by (cases certs) (auto simp: build_cert_manager_def has_cert_service_def split: option.splits sum.splits)
qed

text \<open>
  C21: The failure of a TLS listener goes unnoticed.  If the service of a TLS or QUIC listener ends with an
  error, for instance because its address is in use, the entry point can stop every other listener and
  return success; and \<open>start_inner\<close>, once the entry point has returned success, does not return until the
  certificate reloader or an ACME task ends by itself: the token is not cancelled, and no other step is left.
\<close>

theorem tls_listener_failure_unnoticed:
  assumes "rpxy_service_new V ct t = (Some (Inr service), t')"
    and "i < length (listener_specs (sv_proxy_conf service))" and "tls_enabled (listener_specs (sv_proxy_conf service) ! i)"
  shows "(\<exists>s. entry_step\<^sup>*\<^sup>*
        (proxy_exits (checkers + i) (listener_specs (sv_proxy_conf service) ! i) (Inl e)
          (entry_start checkers (listener_specs (sv_proxy_conf service)))) s \<and>
      entry_finished s \<and> entry_result s = Inr ()) \<and>
    (\<forall>s. (sup_step (has_cert_service service) (has_acme_tasks service))\<^sup>*\<^sup>* sup_start s \<and>
        su_rpxy s = Some (Inr (Inr ())) \<and> su_cert s = None \<and> su_acme s = None \<longrightarrow>
      \<not> su_cancelled s \<and> start_inner_result (has_cert_service service) (has_acme_tasks service) s = None \<and>
      (\<forall>s'. sup_step (has_cert_service service) (has_acme_tasks service) s s' \<longrightarrow> su_cert s' \<noteq> None \<or> su_acme s' \<noteq> None))"
proof (intro conjI allI impI)
  have "start_result (listener_specs (sv_proxy_conf service) ! i) (Inl e) = Inr ()"
    using assms(3) by (simp add: start_result_def start_with_quic_def start_with_tls_def)
  then show "\<exists>s. entry_step\<^sup>*\<^sup>*
        (proxy_exits (checkers + i) (listener_specs (sv_proxy_conf service) ! i) (Inl e)
          (entry_start checkers (listener_specs (sv_proxy_conf service)))) s \<and>
      entry_finished s \<and> entry_result s = Inr ()"
    using listener_exit_winds_down [OF assms(2), of checkers "Inl e"] by simp
next
  fix s
  assume "(sup_step (has_cert_service service) (has_acme_tasks service))\<^sup>*\<^sup>* sup_start s \<and>
      su_rpxy s = Some (Inr (Inr ())) \<and> su_cert s = None \<and> su_acme s = None"
  then have r: "(sup_step (has_cert_service service) (has_acme_tasks service))\<^sup>*\<^sup>* sup_start s"
    and s: "su_rpxy s = Some (Inr (Inr ()))" "su_cert s = None" "su_acme s = None" by simp_all
  show c: "\<not> su_cancelled s" using sup_inv_reachable [OF r] s by (simp add: sup_inv_def)
  show "start_inner_result (has_cert_service service) (has_acme_tasks service) s = None"
    using s tls_service_has_certs [OF assms(1) nth_mem [OF assms(2)] assms(3)] by (simp add: start_inner_result_def)
  fix s' assume "sup_step (has_cert_service service) (has_acme_tasks service) s s'"
  then show "su_cert s' \<noteq> None \<or> su_acme s' \<noteq> None" using s c by cases auto
qed

section \<open>Witnesses\<close>

definition sample_env :: "(ip_addr, bytes, unit) service_env" where
  "sample_env =
     \<lparr>se_net = edge_net_api, se_uri = sample_uri_api, se_crypto = sample_crypto, se_digest = plain_digest, se_url_parse = Some,
      se_io = quiet_io, se_pid = 7, se_clock = (\<lambda>_. (3, 2)), se_unsafe_debug_headers = False, se_access_log_enabled = True\<rparr>"

lemma sample_service:
  "\<exists>service. rpxy_service_new sample_env (sample_toml None) empty_tree = (Some (Inr service), empty_tree) \<and>
     sv_app_conf service = \<lparr>acl_inner = [sample_app_settings], acl_default_app = None\<rparr> \<and> sv_sticky_cookie_secret service = None"
proof -
  obtain cfg where s: "validate_and_build_settings edge_net_api sample_uri_api (sample_toml None) =
      Inr (cfg, \<lparr>acl_inner = [sample_app_settings], acl_default_app = None\<rparr>)"
    using sample_settings by blast
  obtain m where m: "build_cert_manager plain_digest (sample_toml None) = Some (Inr (Some m))"
    by (simp add: build_cert_manager_def sample_toml_def sample_application_def sample_tls_option_def build_tls_for_app_acme_def)
  have k: "validate_and_build_sticky_cookie_secret sample_crypto (sample_toml None) = Inr None"
    by (simp add: validate_and_build_sticky_cookie_secret_def sample_toml_def sample_application_def sticky_app_check_def
        sticky_rpo_check_def)
  have a: "build_acme_manager Some quiet_io 7 (\<lambda>_. (3, 2)) (sample_toml None) empty_tree = (Some (Inr None), empty_tree)"
    by (simp add: build_acme_manager_def sample_experimental)
  show ?thesis by (simp add: rpxy_service_new_def sample_env_def s m k a)
qed

lemma sample_setup:
  assumes "sv_app_conf service = \<lparr>acl_inner = [sample_app_settings], acl_default_app = None\<rparr>"
    and "sv_sticky_cookie_secret service = None" and "\<not> cache_enabled (sv_proxy_conf service)"
  shows "\<exists>parts. entrypoint_setup lines_api sample_uri_api sample_crypto recency_api 0 True True service = Some (Inr parts)"
proof -
  obtain am n' where "app_manager_try_from lines_api sample_uri_api sample_crypto 0
      \<lparr>acl_inner = [sample_app_settings], acl_default_app = None\<rparr> = Inr (am, n')"
    by (simp add: app_manager_try_from_def sample_app_settings_def backend_app_try_from_def path_manager_try_from_def
        build_candidates_def build_upstreams_def build_load_balance_def build_options_def)
  then show ?thesis using assms by (simp add: entrypoint_setup_def rpxy_cache_new_def spawn_health_checkers_def Let_def)
qed

theorem service_serves_witness:
  "\<exists>service parts responses. rpxy_service_new sample_env (sample_toml None) empty_tree = (Some (Inr service), empty_tree) \<and>
     entrypoint_setup lines_api sample_uri_api sample_crypto (recency_api :: (unit recency_list, unit) lru_api) 0 True True service = Some (Inr parts) \<and>
     serve_requests lines_api sample_uri_api sample_crypto edge_net_api (ep_globals parts) (ep_app_manager parts) [sample_arrival] =
       Some responses \<and> length responses = 1"
proof -
  obtain service where s: "rpxy_service_new sample_env (sample_toml None) empty_tree = (Some (Inr service), empty_tree)"
    and c: "sv_app_conf service = \<lparr>acl_inner = [sample_app_settings], acl_default_app = None\<rparr>" "sv_sticky_cookie_secret service = None"
    using sample_service by blast
  have "\<not> cache_enabled (sv_proxy_conf service)"
    using accepted_cache_entry [OF accepted_proxy_config [OF service_new_settings [OF s]]] by (simp add: sample_experimental)
  then obtain parts where p: "entrypoint_setup lines_api sample_uri_api sample_crypto (recency_api :: (unit recency_list, unit) lru_api) 0 True True service = Some (Inr parts)"
    using sample_setup [OF c] by blast
  have env: "\<forall>a \<in> set [sample_arrival]. env_ok (he_lb (ar_env a))" by (simp add: sample_arrival_def env_ok_def)
  show ?thesis
    using service_serves [OF s env, of lines_api "recency_api :: (unit recency_list, unit) lru_api" 0 True True] s p
    by (fastforce simp: sample_env_def)
qed


lemma sample_tls_listener:
  assumes "rpxy_service_new sample_env (sample_toml None) empty_tree = (Some (Inr service), empty_tree)"
  shows "length (listener_specs (sv_proxy_conf service)) = 2" and "tls_enabled (listener_specs (sv_proxy_conf service) ! 1)"
proof -
  have "proxy_config_try_from edge_net_api (sample_toml None) = Inr (sv_proxy_conf service)"
    using accepted_proxy_config [OF service_new_settings [OF assms]] by (simp add: sample_env_def)
  then have "sv_proxy_conf service = base_settings (sample_toml None)
      [SocketAddr DEFAULT_LISTEN_ADDRESS_V4 80, SocketAddr DEFAULT_LISTEN_ADDRESS_V4 443]"
    by (simp add: proxy_config_try_from_def sample_top_level sample_experimental)
  then have "listener_specs (sv_proxy_conf service) =
      [\<lparr>ls_kind = HttpV4, listening_on = SocketAddr DEFAULT_LISTEN_ADDRESS_V4 80\<rparr>,
       \<lparr>ls_kind = HttpsV4, listening_on = SocketAddr DEFAULT_LISTEN_ADDRESS_V4 443\<rparr>]"
    by (simp add: listener_specs_def socket_listeners_def base_settings_def sample_toml_def DEFAULT_LISTEN_ADDRESS_V4_def
        proxy_config_default_def Let_def)
  then show "length (listener_specs (sv_proxy_conf service)) = 2" "tls_enabled (listener_specs (sv_proxy_conf service) ! 1)"
    by (simp_all add: tls_enabled_def)
qed

theorem tls_listener_failure_unnoticed_witness:
  "\<exists>service s st. rpxy_service_new sample_env (sample_toml None) empty_tree = (Some (Inr service), empty_tree) \<and>
     entry_step\<^sup>*\<^sup>* (proxy_exits 1 (listener_specs (sv_proxy_conf service) ! 1) (Inl RpxyIo)
       (entry_start 0 (listener_specs (sv_proxy_conf service)))) s \<and> entry_result s = Inr () \<and>
     (sup_step (has_cert_service service) (has_acme_tasks service))\<^sup>*\<^sup>* sup_start st \<and> su_rpxy st = Some (Inr (Inr ())) \<and>
     start_inner_result (has_cert_service service) (has_acme_tasks service) st = None"
proof -
  obtain service where v: "rpxy_service_new sample_env (sample_toml None) empty_tree = (Some (Inr service), empty_tree)"
    using sample_service by blast
  let ?step = "sup_step (has_cert_service service) (has_acme_tasks service)"
  let ?st = "sup_start\<lparr>su_rpxy := Some (Inr (Inr ())),
    su_cancelled := (su_cancelled sup_start \<or> (\<exists>e. Inr (Inr ()) = (Inr (Inl e) :: service_error joined)))\<rparr>"
  have "?step sup_start ?st" by (intro sup_step.rpxy_ends) (simp add: sup_start_def)
  then have r: "?step\<^sup>*\<^sup>* sup_start ?st" by blast
  have l: "1 < length (listener_specs (sv_proxy_conf service))" using sample_tls_listener(1) [OF v] by simp
  note t = tls_listener_failure_unnoticed [OF v l sample_tls_listener(2) [OF v], of 0 RpxyIo]
  have "start_inner_result (has_cert_service service) (has_acme_tasks service) ?st = None"
    using t [THEN conjunct2, THEN spec, of ?st] r by (simp add: sup_start_def)
  then show ?thesis using t [THEN conjunct1] r v by (fastforce simp: sup_start_def)
qed

end
