(* ===== verification/Handler_Request.thy ===== *)
theory Handler_Request
  imports Handler
begin












section \<open>Early rejection\<close>






end
