(* ===== verification/Access_Log.thy ===== *)
theory Access_Log
  imports Handler_Request
begin

text \<open>
  The logs: the access record of a request with its redaction of query values
  (\<open>message_handler/http_log.rs\<close>), the lines the message handler writes for a request, and the logger the
  binary installs (\<open>rpxy-bin/src/log.rs\<close>) with its filters and its access line format.  The texts of a
  status code and of an HTTP version are the \<open>http\<close> crate's; the layers of \<open>tracing-subscriber\<close> are
  represented by their filters.
\<close>

section \<open>Redaction\<close>

definition REDACTED :: bytes where "REDACTED = ''<redacted>''"

definition redact_segment :: "bytes \<Rightarrow> bytes" where
  "redact_segment segment =
     (if segment = [] then []
      else case split_once (CHR ''='') segment of
             Some (key, _) \<Rightarrow> key @ ''='' @ REDACTED
           | None \<Rightarrow> REDACTED)"

definition redact_query_values :: "bytes \<Rightarrow> bytes" where
  "redact_query_values path_and_query =
     (case split_once (CHR ''?'') path_and_query of
        None \<Rightarrow> path_and_query
      | Some (path, query) \<Rightarrow>
          if query = [] then path_and_query
          else path @ ''?'' @ join ''&'' (map redact_segment (split_on (CHR ''&'') query)))"

datatype 'u logged_uri = LoggedVerbatim 'u | LoggedRedacted bytes bytes bytes

datatype 'u logged_upstream = UpstreamVerbatim 'u | UpstreamRedacted bytes

definition redact_upstream :: "'u uri_api \<Rightarrow> 'u \<Rightarrow> bytes" where
  "redact_upstream U upstream =
     (case (uri_scheme U upstream, uri_authority U upstream) of
        (Some scheme, Some authority) \<Rightarrow>
          scheme @ ''://'' @ authority @
          (case uri_path_and_query U upstream of Some p_and_q \<Rightarrow> redact_query_values p_and_q | None \<Rightarrow> [])
      | _ \<Rightarrow> redact_query_values (uri_display U upstream))"

section \<open>The access record\<close>

record 'u http_message_log =
  ml_client_addr :: "socket_addr option"
  ml_method :: bytes
  ml_version :: version
  ml_host_header :: "bytes option"
  ml_ua :: "bytes option"
  ml_xff :: "bytes option"
  ml_forwarded :: "bytes option"
  ml_status :: "nat option"
  ml_uri :: "'u logged_uri"
  ml_upstream :: "'u logged_upstream option"
  ml_redact_query :: bool

definition USER_AGENT :: bytes where "USER_AGENT = ''user-agent''"

text \<open>Host, path and query, and target, as both branches compute them from a URI.\<close>

definition request_host :: "'h header_api \<Rightarrow> 'u uri_api \<Rightarrow> 'u \<Rightarrow> bytes option \<Rightarrow> bytes" where
  "request_host H U uri host_header =
     (case host_from_uri_or_host_header H U uri host_header of Inr host \<Rightarrow> host | Inl _ \<Rightarrow> [])"

definition request_p_and_q :: "'u uri_api \<Rightarrow> 'u \<Rightarrow> bytes" where
  "request_p_and_q U uri = (case uri_path_and_query U uri of Some v \<Rightarrow> v | None \<Rightarrow> [])"

definition request_target :: "'u uri_api \<Rightarrow> 'u \<Rightarrow> bytes \<Rightarrow> bytes" where
  "request_target U uri host =
     (let scheme = (case uri_scheme U uri of Some s \<Rightarrow> s | None \<Rightarrow> [])
      in if scheme \<noteq> [] \<and> host \<noteq> [] then scheme @ ''://'' @ host @ uri_path U uri else uri_path U uri)"

definition message_log_new :: "'h header_api \<Rightarrow> 'u uri_api \<Rightarrow> ('h, 'u, 'b) request \<Rightarrow> bool \<Rightarrow> 'u http_message_log" where
  "message_log_new H U req redact_query =
     (let headers = rq_headers req;
          uri = (if redact_query then
                   let host = request_host H U (rq_uri req) (hm_get H headers HOST);
                       p_and_q = redact_query_values (request_p_and_q U (rq_uri req))
                   in LoggedRedacted host p_and_q (request_target U (rq_uri req) host)
                 else LoggedVerbatim (rq_uri req))
      in \<lparr>ml_client_addr = None, ml_method = rq_method req, ml_version = rq_version req, ml_host_header = hm_get H headers HOST,
          ml_ua = hm_get H headers USER_AGENT, ml_xff = hm_get H headers X_FORWARDED_FOR,
          ml_forwarded = hm_get H headers FORWARDED, ml_status = None, ml_uri = uri, ml_upstream = None,
          ml_redact_query = redact_query\<rparr>)"

definition log_client_addr :: "socket_addr \<Rightarrow> 'u http_message_log \<Rightarrow> 'u http_message_log" where
  "log_client_addr client_addr l = l\<lparr>ml_client_addr := Some (to_canonical client_addr)\<rparr>"

definition log_status_code :: "nat \<Rightarrow> 'u http_message_log \<Rightarrow> 'u http_message_log" where
  "log_status_code status l = l\<lparr>ml_status := Some status\<rparr>"

definition log_xff :: "bytes option \<Rightarrow> 'u http_message_log \<Rightarrow> 'u http_message_log" where
  "log_xff xff l = l\<lparr>ml_xff := xff\<rparr>"

definition log_upstream :: "'u uri_api \<Rightarrow> 'u \<Rightarrow> 'u http_message_log \<Rightarrow> 'u http_message_log" where
  "log_upstream U upstream l =
     l\<lparr>ml_upstream := Some (if ml_redact_query l then UpstreamRedacted (redact_upstream U upstream) else UpstreamVerbatim upstream)\<rparr>"

definition render_request_uri :: "'h header_api \<Rightarrow> 'u uri_api \<Rightarrow> 'u http_message_log \<Rightarrow> bytes \<times> bytes \<times> bytes" where
  "render_request_uri H U l =
     (case ml_uri l of
        LoggedVerbatim uri \<Rightarrow>
          (let host = request_host H U uri (ml_host_header l) in (host, request_p_and_q U uri, request_target U uri host))
      | LoggedRedacted host p_and_q target \<Rightarrow> (host, p_and_q, target))"

text \<open>\<open>Display\<close> of a socket address; \<open>Display\<close> of a status code and \<open>Debug\<close> of a version are arguments.\<close>

fun display_socket_addr :: "socket_addr \<Rightarrow> bytes" where
  "display_socket_addr (SocketAddr (V4 a) port) = display_ip (V4 a) @ '':'' @ show_nat (unat port)"
| "display_socket_addr (SocketAddr (V6 a) port) = ''['' @ display_ip (V6 a) @ '']:'' @ show_nat (unat port)"

record log_text =
  lt_status :: "nat \<Rightarrow> bytes"
  lt_version :: "version \<Rightarrow> bytes"

definition header_text :: "'h header_api \<Rightarrow> bytes option \<Rightarrow> bytes" where
  "header_text H v = (case Option.bind v (hv_to_str H) of Some s \<Rightarrow> s | None \<Rightarrow> [])"

abbreviation quoted :: "bytes \<Rightarrow> bytes" where "quoted s \<equiv> [CHR 0x22] @ s @ [CHR 0x22]"

definition message_log_display :: "'h header_api \<Rightarrow> 'u uri_api \<Rightarrow> log_text \<Rightarrow> 'u http_message_log \<Rightarrow> bytes" where
  "message_log_display H U F l =
     (case render_request_uri H U l of (host, p_and_q, target) \<Rightarrow>
      let ua = header_text H (ml_ua l); xff = header_text H (ml_xff l); forwarded = header_text H (ml_forwarded l);
          forwarded_part = (if forwarded \<noteq> [] then '' '' @ quoted forwarded else []);
          client_addr = (case ml_client_addr l of Some a \<Rightarrow> display_socket_addr a | None \<Rightarrow> []);
          status = (case ml_status l of Some s \<Rightarrow> lt_status F s | None \<Rightarrow> []);
          upstream = (case ml_upstream l of
                        None \<Rightarrow> []
                      | Some (UpstreamVerbatim u) \<Rightarrow> uri_display U u
                      | Some (UpstreamRedacted s) \<Rightarrow> s)
      in host @ '' <- '' @ client_addr @ '' -- '' @ ml_method l @ '' '' @ p_and_q @ '' '' @ lt_version F (ml_version l) @ '' -- '' @
         status @ '' -- '' @ target @ '' '' @ quoted ua @ '', '' @ quoted xff @ forwarded_part @ '' '' @ quoted upstream)"

section \<open>The lines of a request\<close>

text \<open>
  What the handler logs: the access line, after a line for the error if there is one.  \<open>forwarded\<close> is the
  request handed to the forwarder, if it came to that, and \<open>result\<close> the outcome of \<open>handle_request_inner\<close>.
\<close>

datatype log_line = AccessLine bytes | ErrorLine http_error bytes | ErrorOnly http_error socket_addr

definition forwarded_of :: "'h header_api \<Rightarrow> 'u uri_api \<Rightarrow> 'k cookie_crypto \<Rightarrow> 'n net_api \<Rightarrow> ('k, 'n) handler_globals \<Rightarrow> handler_env \<Rightarrow>
    'u app_manager \<Rightarrow> ('h, 'u, 'b) request \<Rightarrow> socket_addr \<Rightarrow> socket_addr \<Rightarrow> bool \<Rightarrow> server_name option \<Rightarrow> ('h, 'u, 'b) request option" where
  "forwarded_of H U K N G E am req client_addr listen_addr tls_enabled tls_server_name =
     (case (route_request H U (hg_proxy_config G) am req tls_enabled tls_server_name :: http_error + ('h, 'u, unit) routed option) of
        Inr (Some (Routed name backend_app fallback uc upgrade)) \<Rightarrow>
          (case generate_request_forwarded H U K N G E client_addr listen_addr req upgrade uc tls_enabled
                  (if fallback then Some (ba_server_name backend_app) else None) of
             Some (Inr (req', _), _) \<Rightarrow> Some req'
           | _ \<Rightarrow> None)
      | _ \<Rightarrow> None)"

definition request_log_lines :: "'h header_api \<Rightarrow> 'u uri_api \<Rightarrow> log_text \<Rightarrow> bool \<Rightarrow> bool \<Rightarrow> ('h, 'u, 'b) request \<Rightarrow> socket_addr \<Rightarrow>
    ('h, 'u, 'b) request option \<Rightarrow> http_error + ('h, 'c) response \<times> bool \<Rightarrow> log_line list" where
  "request_log_lines H U F access_log_enabled redact_query req client_addr forwarded result =
     (if \<not> access_log_enabled then (case result of Inl e \<Rightarrow> [ErrorOnly e client_addr] | Inr _ \<Rightarrow> [])
      else
        let l = log_client_addr client_addr (message_log_new H U req redact_query);
            l = (case forwarded of
                   None \<Rightarrow> l
                 | Some req' \<Rightarrow> log_upstream U (rq_uri req') (log_xff (hm_get H (rq_headers req') X_FORWARDED_FOR) l))
        in case result of
             Inr (v, _) \<Rightarrow> [AccessLine (message_log_display H U F (log_status_code (rs_status v) l))]
           | Inl e \<Rightarrow> [ErrorLine e (message_log_display H U F l),
                       AccessLine (message_log_display H U F (log_status_code (http_status e) l))])"

section \<open>The logger\<close>

datatype level = ERROR | WARN | INFO | DEBUG | TRACE

fun level_rank :: "level \<Rightarrow> nat" where
  "level_rank ERROR = 0"
| "level_rank WARN = 1"
| "level_rank INFO = 2"
| "level_rank DEBUG = 3"
| "level_rank TRACE = 4"

instantiation level :: linorder
begin

definition less_eq_level :: "level \<Rightarrow> level \<Rightarrow> bool" where
  "less_eq_level a b \<longleftrightarrow> level_rank a \<le> level_rank b"

definition less_level :: "level \<Rightarrow> level \<Rightarrow> bool" where
  "less_level a b \<longleftrightarrow> level_rank a < level_rank b"

instance
proof
  fix a b :: level
  show "a \<le> b \<Longrightarrow> b \<le> a \<Longrightarrow> a = b"
    by (cases a; cases b) (simp_all add: less_eq_level_def)
qed (auto simp: less_eq_level_def less_level_def)

end

definition parse_unsafe_debug_headers :: "bytes option \<Rightarrow> bool" where
  "parse_unsafe_debug_headers value =
     (case value of
        None \<Rightarrow> False
      | Some v \<Rightarrow> (let s = to_ascii_lowercase (trim v) in s = ''1'' \<or> s = ''true'' \<or> s = ''yes''))"

text \<open>\<open>level_from_str\<close> is \<open>tracing::Level::from_str\<close>.\<close>

definition parse_log_level :: "(bytes \<Rightarrow> level option) \<Rightarrow> bytes option \<Rightarrow> level" where
  "parse_log_level level_from_str value =
     (case Option.bind value level_from_str of Some l \<Rightarrow> l | None \<Rightarrow> INFO)"

definition access_log_enabled_for_level :: "bytes option \<Rightarrow> level \<Rightarrow> bool" where
  "access_log_enabled_for_level log_dir_path level =
     (case log_dir_path of Some _ \<Rightarrow> True | None \<Rightarrow> INFO \<le> level)"

record metadata =
  md_target :: bytes
  md_name :: bytes
  md_level :: level

definition ACCESS_LOG :: bytes where "ACCESS_LOG = ''rpxy::access''"

definition is_cargo_pkg :: "metadata \<Rightarrow> bool" where
  "is_cargo_pkg m = starts_with (md_target m) ''rpxy''"

definition access_filter :: "metadata \<Rightarrow> bool" where
  "access_filter m \<longleftrightarrow> is_cargo_pkg m \<and> sublist ACCESS_LOG (md_name m) \<and> md_level m \<le> INFO"

definition system_filter :: "level \<Rightarrow> metadata \<Rightarrow> bool" where
  "system_filter level m \<longleftrightarrow>
     (is_cargo_pkg m \<and> md_name m \<noteq> ACCESS_LOG \<and> md_level m \<le> level) \<or> md_level m \<le> min WARN level"

definition stdio_filter :: "level \<Rightarrow> metadata \<Rightarrow> bool" where
  "stdio_filter level m \<longleftrightarrow>
     (if INFO < level then (is_cargo_pkg m \<and> md_level m \<le> level) \<or> md_level m \<le> min INFO level
      else (is_cargo_pkg m \<and> md_level m \<le> level) \<or> md_level m \<le> min WARN level)"

text \<open>The layers \<open>init_logger\<close> installs, and which of them take an event.\<close>

datatype log_sink = AccessFile | SystemFile | Stdout

definition log_sinks :: "bytes option \<Rightarrow> level \<Rightarrow> metadata \<Rightarrow> log_sink list" where
  "log_sinks log_dir_path level m =
     (case log_dir_path of
        None \<Rightarrow> (if stdio_filter level m then [Stdout] else [])
      | Some _ \<Rightarrow> (if access_filter m then [AccessFile] else []) @ (if system_filter level m then [SystemFile] else []))"



text \<open>The events of the lines: the access event has the name of the access log, the others the default name.\<close>

definition line_metadata :: "log_line \<Rightarrow> metadata" where
  "line_metadata l =
     (case l of
        AccessLine _ \<Rightarrow> \<lparr>md_target = ''rpxy_lib::message_handler::http_log'', md_name = ACCESS_LOG, md_level = INFO\<rparr>
      | _ \<Rightarrow> \<lparr>md_target = ''rpxy_lib::message_handler::handler_main'',
               md_name = ''event rpxy-lib/src/message_handler/handler_main.rs'', md_level = ERROR\<rparr>)"

section \<open>What redaction hides\<close>

text \<open>Two strings that differ in the values of the query only, by segment.\<close>

definition same_key :: "bytes \<Rightarrow> bytes \<Rightarrow> bool" where
  "same_key s t \<longleftrightarrow> (s = [] \<longleftrightarrow> t = []) \<and> map_option fst (split_once (CHR ''='') s) = map_option fst (split_once (CHR ''='') t)"

definition same_but_values :: "bytes \<Rightarrow> bytes \<Rightarrow> bool" where
  "same_but_values a b =
     (case (split_once (CHR ''?'') a, split_once (CHR ''?'') b) of
        (Some (p, q), Some (p', q')) \<Rightarrow> p = p' \<and> list_all2 same_key (split_on (CHR ''&'') q) (split_on (CHR ''&'') q')
      | _ \<Rightarrow> a = b)"

lemma split_once_first: "split_once d s = Some (a, b) \<Longrightarrow> d \<notin> set a"
  by (auto simp: split_once_def split: if_splits dest: set_takeWhileD)

lemma join_segments_split:
  assumes "\<forall>t \<in> set ts. d \<notin> set t" and "ts \<noteq> []"
  shows "split_on d (join [d] ts) = ts"
  using assms
proof (induction ts)
  case (Cons t ts)
  then show ?case by (cases ts) (simp_all add: split_on_no_sep split_on_sep_append)
qed simp

lemma split_on_elem: "t \<in> set (split_on d s) \<Longrightarrow> d \<notin> set t"
  using split_by_elems [of t "\<lambda>c. c = d" s d] by (auto simp: split_on_def)

lemma split_on_Nil: "split_on d s = [[]] \<longleftrightarrow> s = []"
  by (cases s) (auto simp: split_on_def split: list.splits)

lemma redacted_plain: "set REDACTED \<inter> {CHR ''='', CHR ''&'', CHR ''?''} = {}"
  by (simp add: REDACTED_def)

lemma redact_segment_sep: "CHR ''&'' \<notin> set s \<Longrightarrow> CHR ''&'' \<notin> set (redact_segment s)"
  using redacted_plain
  by (auto simp: redact_segment_def split: option.splits dest!: split_once_SomeD)

lemma redact_segment_key:
  "map_option fst (split_once (CHR ''='') (redact_segment s)) = map_option fst (split_once (CHR ''='') s)"
  using redacted_plain
  by (auto simp: redact_segment_def split_once_append split_once_None [THEN iffD2] split: option.splits
      dest: split_once_first)

lemma redact_segment_empty: "redact_segment s = [] \<longleftrightarrow> s = []"
  by (auto simp: redact_segment_def REDACTED_def split: option.splits)

lemma redact_segment_eq: "redact_segment s = redact_segment t \<longleftrightarrow> same_key s t"
proof
  assume "redact_segment s = redact_segment t"
  then show "same_key s t"
    using redact_segment_key [of s] redact_segment_key [of t] redact_segment_empty [of s] redact_segment_empty [of t]
    by (simp add: same_key_def)
next
  assume "same_key s t"
  then show "redact_segment s = redact_segment t"
    by (cases "split_once (CHR ''='') s"; cases "split_once (CHR ''='') t")
      (auto simp: same_key_def redact_segment_def simp del: split_once_None)
qed

definition redact_query :: "bytes \<Rightarrow> bytes" where
  "redact_query q = join ''&'' (map redact_segment (split_on (CHR ''&'') q))"

lemma redact_query_values_eq:
  "redact_query_values a = (case split_once (CHR ''?'') a of None \<Rightarrow> a | Some (p, q) \<Rightarrow> p @ CHR ''?'' # redact_query q)"
  by (auto simp: redact_query_values_def redact_query_def redact_segment_def split_on_no_sep
      split: option.splits dest!: split_once_SomeD)

lemma redact_query_eq:
  "redact_query q = redact_query q' \<longleftrightarrow> list_all2 same_key (split_on (CHR ''&'') q) (split_on (CHR ''&'') q')"
proof -
  have s: "split_on (CHR ''&'') (redact_query x) = map redact_segment (split_on (CHR ''&'') x)" for x
    unfolding redact_query_def by (rule join_segments_split) (auto dest!: split_on_elem dest: redact_segment_sep)
  have "redact_query q = redact_query q' \<longleftrightarrow>
      map redact_segment (split_on (CHR ''&'') q) = map redact_segment (split_on (CHR ''&'') q')"
    using s [of q] s [of q'] by (metis redact_query_def)
  also have "\<dots> \<longleftrightarrow> list_all2 (\<lambda>s t. redact_segment s = redact_segment t) (split_on (CHR ''&'') q) (split_on (CHR ''&'') q')"
    by (simp add: list.rel_eq [symmetric] list_all2_map1 list_all2_map2)
  finally show ?thesis by (simp only: redact_segment_eq)
qed

lemma cut_at_first:
  fixes d :: char
  assumes "d \<notin> set p" "d \<notin> set p'"
  shows "p @ d # r = p' @ d # r' \<longleftrightarrow> p = p' \<and> r = r'"
proof
  assume "p @ d # r = p' @ d # r'"
  then have "Some (p, r) = Some (p', r')"
    using split_once_append [OF assms(1), of r] split_once_append [OF assms(2), of r'] by metis
  then show "p = p' \<and> r = r'" by simp
qed simp

lemma redact_exact: "redact_query_values a = redact_query_values b \<longleftrightarrow> same_but_values a b"
proof (cases "CHR ''?'' \<in> set a \<and> CHR ''?'' \<in> set b")
  case True
  then obtain p q p' q' where s: "split_once (CHR ''?'') a = Some (p, q)" "split_once (CHR ''?'') b = Some (p', q')"
    by (auto simp: split_once_def)
  show ?thesis
    using split_once_first [OF s(1)] split_once_first [OF s(2)]
    by (simp add: redact_query_values_eq same_but_values_def redact_query_eq s cut_at_first)
next
  case False
  have k: "CHR ''?'' \<in> set (redact_query_values x)" if q: "CHR ''?'' \<in> set x" for x
  proof -
    obtain y z where "split_once (CHR ''?'') x = Some (y, z)" using q by (auto simp: split_once_def)
    then show ?thesis by (simp add: redact_query_values_eq)
  qed
  have n: "CHR ''?'' \<notin> set x \<Longrightarrow> redact_query_values x = x" for x
    by (simp add: redact_query_values_def split_once_def)
  have eq: "same_but_values a b \<longleftrightarrow> a = b" using False by (simp add: same_but_values_def split_once_def)
  show ?thesis
    by (cases "CHR ''?'' \<in> set a"; cases "CHR ''?'' \<in> set b") (use False k [of a] k [of b] n [of a] n [of b] eq in auto)
qed

text \<open>Requests that agree up to query values: everything a line takes from the URI except the values.\<close>

definition same_uri :: "'u uri_api \<Rightarrow> 'u \<Rightarrow> 'u \<Rightarrow> bool" where
  "same_uri U u v \<longleftrightarrow>
     uri_scheme U u = uri_scheme U v \<and> uri_authority U u = uri_authority U v \<and>
     uri_host U u = uri_host U v \<and> uri_port U u = uri_port U v \<and> uri_path U u = uri_path U v \<and>
     rel_option same_but_values (uri_path_and_query U u) (uri_path_and_query U v) \<and>
     same_but_values (uri_display U u) (uri_display U v)"

definition same_request :: "'u uri_api \<Rightarrow> ('h, 'u, 'b) request \<Rightarrow> ('h, 'u, 'b) request \<Rightarrow> bool" where
  "same_request U r r' \<longleftrightarrow>
     rq_method r = rq_method r' \<and> rq_version r = rq_version r' \<and> rq_headers r = rq_headers r' \<and>
     same_uri U (rq_uri r) (rq_uri r')"

lemma same_uri_p_and_q:
  assumes "same_uri U u v"
  shows "redact_query_values (request_p_and_q U u) = redact_query_values (request_p_and_q U v)"
  using assms unfolding same_uri_def request_p_and_q_def
  by (cases "uri_path_and_query U u"; cases "uri_path_and_query U v") (simp_all add: redact_exact)

lemma same_uri_upstream:
  assumes "same_uri U u v"
  shows "redact_upstream U u = redact_upstream U v"
proof -
  have "redact_query_values (uri_display U u) = redact_query_values (uri_display U v)"
    using assms by (simp add: same_uri_def redact_exact)
  moreover have "(case uri_path_and_query U u of Some p \<Rightarrow> redact_query_values p | None \<Rightarrow> []) =
      (case uri_path_and_query U v of Some p \<Rightarrow> redact_query_values p | None \<Rightarrow> [])"
    using assms unfolding same_uri_def
    by (cases "uri_path_and_query U u"; cases "uri_path_and_query U v") (simp_all add: redact_exact)
  ultimately show ?thesis using assms
    by (cases "uri_scheme U v"; cases "uri_authority U v") (simp_all add: redact_upstream_def same_uri_def)
qed

lemma same_request_log:
  assumes "same_request U r r'"
  shows "message_log_new H U r True = message_log_new H U r' True"
proof -
  have u: "same_uri U (rq_uri r) (rq_uri r')" using assms by (simp add: same_request_def)
  have "request_host H U (rq_uri r) x = request_host H U (rq_uri r') x" for x
    using u by (cases "uri_host U (rq_uri r')") (simp_all add: request_host_def host_from_uri_or_host_header_def same_uri_def)
  moreover have "request_target U (rq_uri r) x = request_target U (rq_uri r') x" for x
    using u by (simp add: request_target_def same_uri_def Let_def)
  ultimately show ?thesis using same_uri_p_and_q [OF u] assms by (simp add: message_log_new_def same_request_def Let_def)
qed

text \<open>
  C14: With redaction configured the log does not depend on query values.  Two requests that differ in the
  values of query parameters only, forwarded as requests that differ in them only, give the same lines, on
  the access log and on the error log, whether they succeed or fail.  By \<open>redact_exact\<close> the redacted
  text tells apart everything else: the path, the number of parameters, and their keys.
\<close>

theorem access_log_hides_values:
  assumes "same_request U req req'" and "rel_option (same_request U) fwd fwd'"
  shows "request_log_lines H U F enabled True req client_addr fwd result =
         request_log_lines H U F enabled True req' client_addr fwd' result"
proof -
  let ?l = "log_client_addr client_addr (message_log_new H U req True)"
  have r: "ml_redact_query (log_xff x ?l)" for x by (simp add: log_xff_def log_client_addr_def message_log_new_def Let_def)
  have "(case fwd of None \<Rightarrow> ?l
         | Some r \<Rightarrow> log_upstream U (rq_uri r) (log_xff (hm_get H (rq_headers r) X_FORWARDED_FOR) ?l)) =
      (case fwd' of None \<Rightarrow> ?l
         | Some r \<Rightarrow> log_upstream U (rq_uri r) (log_xff (hm_get H (rq_headers r) X_FORWARDED_FOR) ?l))"
  proof (cases fwd; cases fwd')
    fix x y assume f: "fwd = Some x" "fwd' = Some y"
    with assms(2) have "same_request U x y" by simp
    then show ?thesis using r same_uri_upstream [of U "rq_uri x" "rq_uri y"] by (simp add: f log_upstream_def same_request_def)
  qed (use assms(2) in simp_all)
  then show ?thesis unfolding request_log_lines_def Let_def same_request_log [OF assms(1), of H, symmetric] by (simp only:)
qed

lemma line_is_pkg: "is_cargo_pkg (line_metadata l)"
  by (cases l) (simp_all add: is_cargo_pkg_def line_metadata_def)

lemma access_event_sinks:
  "access_filter (line_metadata (AccessLine s))"
  "\<not> system_filter level (line_metadata (AccessLine s))"
  "stdio_filter level (line_metadata (AccessLine s)) \<longleftrightarrow> INFO \<le> level"
proof -
  have m: "md_name (line_metadata (AccessLine s)) = ACCESS_LOG" "md_level (line_metadata (AccessLine s)) = INFO"
    by (simp_all add: line_metadata_def)
  have r: "\<not> INFO \<le> min WARN level" by (cases level) (simp_all add: min_def less_eq_level_def)
  show "access_filter (line_metadata (AccessLine s))" by (simp add: access_filter_def line_is_pkg m)
  show "\<not> system_filter level (line_metadata (AccessLine s))" by (simp only: system_filter_def m r) simp
  show "stdio_filter level (line_metadata (AccessLine s)) \<longleftrightarrow> INFO \<le> level"
    by (auto simp: stdio_filter_def line_is_pkg m)
qed

lemma error_event_sinks:
  assumes "\<forall>s. l \<noteq> AccessLine s"
  shows "\<not> access_filter (line_metadata l)" and "system_filter level (line_metadata l)" and "stdio_filter level (line_metadata l)"
proof -
  have m: "md_name (line_metadata l) = ''event rpxy-lib/src/message_handler/handler_main.rs''"
      "md_level (line_metadata l) = ERROR"
    using assms by (cases l; simp add: line_metadata_def)+
  have e: "ERROR \<le> level" by (cases level) (simp_all add: less_eq_level_def)
  have w: "ERROR \<le> min WARN level" "ERROR \<le> min INFO level" by (cases level; simp add: min_def less_eq_level_def)+
  have "\<not> sublist ACCESS_LOG ''event rpxy-lib/src/message_handler/handler_main.rs''"
    by (simp add: ACCESS_LOG_def sublist_Cons_right)
  then show "\<not> access_filter (line_metadata l)" by (simp only: access_filter_def m) simp
  show "system_filter level (line_metadata l)" by (simp only: system_filter_def m w) simp
  show "stdio_filter level (line_metadata l)" by (simp only: stdio_filter_def m w) simp
qed

lemma access_line_sinks:
  "log_sinks (Some d) level (line_metadata (AccessLine s)) = [AccessFile]"
  "INFO \<le> level \<Longrightarrow> log_sinks None level (line_metadata (AccessLine s)) = [Stdout]"
  by (simp_all add: log_sinks_def access_event_sinks)

lemma error_line_sinks:
  assumes "\<forall>s. l \<noteq> AccessLine s"
  shows "log_sinks (Some d) level (line_metadata l) = [SystemFile]" and "log_sinks None level (line_metadata l) = [Stdout]"
  by (simp_all add: log_sinks_def error_event_sinks [OF assms])

text \<open>
  C35: The predicate the handler consults is the filter the logger installs.  Whatever the log directory and
  the level, every line a request gives is taken by exactly one sink: the access line by the access file, and
  the error line by the system file, or both by the standard output; and a request gives one access line
  exactly when the access log is enabled.
\<close>

theorem access_log_lockstep:
  "let lines = request_log_lines H U F (access_log_enabled_for_level dir level) redact req client_addr fwd result
   in map (\<lambda>l. log_sinks dir level (line_metadata l)) lines =
        map (\<lambda>l. [case dir of None \<Rightarrow> Stdout
                   | Some _ \<Rightarrow> (case l of AccessLine _ \<Rightarrow> AccessFile | _ \<Rightarrow> SystemFile)]) lines \<and>
      length (filter (\<lambda>l. case l of AccessLine _ \<Rightarrow> True | _ \<Rightarrow> False) lines) =
        (if access_log_enabled_for_level dir level then 1 else 0)"
  by (cases result; cases dir)
    (simp_all add: request_log_lines_def access_log_enabled_for_level_def Let_def access_line_sinks error_line_sinks
      split: prod.split)

section \<open>One line per request\<close>




















definition sample_text :: log_text where
  "sample_text = \<lparr>lt_status = show_nat, lt_version = (\<lambda>_. ''HTTP'')\<rparr>"

definition query_request :: "bytes \<Rightarrow> (header_lines, uri_parts, unit) request" where
  "query_request v =
     \<lparr>rq_method = ''GET'', rq_uri = \<lparr>ur_scheme = None, ur_authority = None, ur_pq = Some (''/a?key='' @ v)\<rparr>, rq_version = HTTP_11,
      rq_headers = [(HOST, ''a.b'')], rq_effective_uri = None, rq_body = ()\<rparr>"

lemma query_requests: "same_request parts_api (query_request ''s3cret'') (query_request ''x'')"
proof -
  have "same_but_values ''/a?key=s3cret'' ''/a?key=x''" by code_simp
  then show ?thesis by (simp add: same_request_def same_uri_def parts_api_def query_request_def parts_display_def)
qed


theorem access_log_hides_values_witness:
  "query_request ''s3cret'' \<noteq> query_request ''x'' \<and>
   request_log_lines lines_api parts_api sample_text True True (query_request ''s3cret'') (SocketAddr sample_peer 5)
     (Some (query_request ''s3cret'')) (Inl NoUpstreamCandidates :: http_error + (header_lines, unit) response \<times> bool) =
   request_log_lines lines_api parts_api sample_text True True (query_request ''x'') (SocketAddr sample_peer 5)
     (Some (query_request ''x'')) (Inl NoUpstreamCandidates :: http_error + (header_lines, unit) response \<times> bool)"
proof
  show "query_request ''s3cret'' \<noteq> query_request ''x''" by (simp add: query_request_def)
qed (rule access_log_hides_values [OF query_requests], simp add: query_requests)


end
