(* ===== verification/Http3.thy ===== *)
theory Http3
  imports Listener Request_Body
begin

text \<open>
  An HTTP/3 connection (\<open>proxy/proxy_h3.rs\<close>): the loop that accepts request streams, with the request
  counter it shares with the other listeners, and the serving of one stream, from its body task through
  the message handler to the response written back.  The QUIC and HTTP/3 library is represented by what it
  delivers and by the outcome of each send.
\<close>

section \<open>The response of a stream\<close>




section \<open>Serving a stream\<close>



section \<open>The connection\<close>

text \<open>
  The accept loop of one connection beside the tasks of its streams and of everything else that is counted:
  it counts a stream as the other listeners count a connection, and at the limit it shuts the connection
  down and leaves the loop.
\<close>

record h3_conn =
  hc_accepting :: bool
  hc_rc :: rc_state

definition h3_accept_stream :: "usize \<Rightarrow> nat \<Rightarrow> h3_conn \<Rightarrow> h3_conn" where
  "h3_accept_stream m i c =
     \<lparr>hc_accepting = (fst (rc_increment (rc_cnt (hc_rc c))) < m), hc_rc = rc_arrive m (hc_rc c) i\<rparr>"

inductive h3_step :: "usize \<Rightarrow> h3_conn \<Rightarrow> h3_conn \<Rightarrow> bool" for m :: usize where
  accept: "hc_accepting c \<Longrightarrow> i < length (rc_pcs (hc_rc c)) \<Longrightarrow> rc_pcs (hc_rc c) ! i = NotArrived \<Longrightarrow> h3_step m c (h3_accept_stream m i c)"
| closed: "h3_step m c (c\<lparr>hc_accepting := False\<rparr>)"
| other: "rc_step m (hc_rc c) s \<Longrightarrow> h3_step m c (c\<lparr>hc_rc := s\<rparr>)"

lemma h3_step_counts: "h3_step m c c' \<Longrightarrow> rc_step m (hc_rc c) (hc_rc c') \<or> hc_rc c' = hc_rc c"
  by (induction rule: h3_step.induct) (auto simp: h3_accept_stream_def intro: rc_step.arrive)

text \<open>The streams of HTTP/3 connections are counted as connections are, and share their bound.\<close>

lemma h3_streams_reachable:
  assumes "(h3_step m)\<^sup>*\<^sup>* \<lparr>hc_accepting = True, hc_rc = rc_init n\<rparr> c"
  shows "rc_reachable m n (hc_rc c)"
  using assms
proof (induction rule: rtranclp_induct)
  case base
  show ?case by (simp add: rc_reachable.init)
next
  case (step c c')
  then show ?case using h3_step_counts rc_reachable.step by metis
qed

lemma h3_refused_closes:
  "m \<le> rc_cnt (hc_rc c) \<Longrightarrow> \<not> hc_accepting (h3_accept_stream m i c)"
  by (simp add: h3_accept_stream_def rc_increment_def not_less)

section \<open>Properties\<close>










end
