(* ===== verification/Forwarded_Chain.thy ===== *)
theory Forwarded_Chain
  imports Forwarding
begin

text \<open>
  The writer and the parser of the \<open>Forwarded\<close> header agree: a node, a parameter, an entry and a
  chain that \<open>generate_forwarded_header\<close> writes is read back by \<open>parse_forwarded_header\<close>, and what
  the parser produces is in the writer's domain.  Consequently a proxy that receives the headers
  written by \<open>add_forwarding_header\<close> reads exactly the chain that was meant.
\<close>

section \<open>The quote-aware scanner\<close>

text \<open>The flags of the scanner after a text with no delimiter outside its quotes; None if there is one.\<close>

fun quiet :: "char \<Rightarrow> bool \<Rightarrow> bool \<Rightarrow> bytes \<Rightarrow> (bool \<times> bool) option" where
  "quiet d q e [] = Some (q, e)"
| "quiet d q e (b # bs) =
     (if e then quiet d q False bs
      else if b = CHR 0x5C \<and> q then quiet d q True bs
      else if b = CHR 0x22 then quiet d (\<not> q) False bs
      else if b = d \<and> \<not> q then None
      else quiet d q False bs)"

abbreviation segment :: "char \<Rightarrow> bytes \<Rightarrow> bool" where
  "segment d s \<equiv> quiet d False False s = Some (False, False)"

lemma quiet_append:
  "quiet d q e (s @ t) = (case quiet d q e s of None \<Rightarrow> None | Some (q', e') \<Rightarrow> quiet d q' e' t)"
  by (induction d q e s rule: quiet.induct) auto

lemma segment_append: "segment d s \<Longrightarrow> segment d t \<Longrightarrow> segment d (s @ t)"
  by (simp add: quiet_append)

lemma segment_plain: "d \<notin> set s \<Longrightarrow> CHR 0x22 \<notin> set s \<Longrightarrow> segment d s"
  by (induction s) auto

lemma quiet_escape: "quiet d True False (escape_quoted v) = Some (True, False)"
  by (induction v) (auto simp: escape_quoted_def)

lemma segment_quoted: "segment d ([CHR 0x22] @ escape_quoted v @ [CHR 0x22])"
  by (simp add: quiet_append quiet_escape)

lemma scan_quiet:
  "quiet d q e s = Some (q', e') \<Longrightarrow> split_quotes_scan d acc q e (s @ t) = split_quotes_scan d (rev s @ acc) q' e' t"
  by (induction d q e s arbitrary: acc rule: quiet.induct) (auto split: if_splits)

lemma split_segment: "segment d s \<Longrightarrow> split_respecting_quotes s d = [trim s]"
  using scan_quiet [of d False False s False False "[]" "[]"] by (simp add: split_respecting_quotes_def)

lemma split_segment_sep:
  "segment d s \<Longrightarrow> d \<noteq> CHR 0x22 \<Longrightarrow>
   split_respecting_quotes (s @ d # t) d = trim s # split_respecting_quotes t d"
  using scan_quiet [of d False False s False False "[]" "d # t"] by (simp add: split_respecting_quotes_def)

lemma split_leading_ws:
  assumes "is_whitespace w" "w \<noteq> d"
  shows "split_respecting_quotes (w # s) d = split_respecting_quotes s d"
proof -
  have w: "w \<noteq> CHR 0x22" "w \<noteq> CHR 0x5C" using assms by (auto simp: rust_simps)
  have "split_quotes_scan d (acc @ [w]) q e s = split_quotes_scan d acc q e s" for q e acc
    using assms(1) by (induction d acc q e s rule: split_quotes_scan.induct) (auto simp: trim_Cons_ws)
  from this [of "[]"] show ?thesis using assms w by (simp add: split_respecting_quotes_def)
qed

lemma split_join:
  assumes "\<forall>s \<in> set ss. segment d s \<and> trim s = s" and "ss \<noteq> []" and "is_whitespace w" "w \<noteq> d" "d \<noteq> CHR 0x22"
  shows "split_respecting_quotes (join [d, w] ss) d = ss"
  using assms(1,2)
proof (induction ss)
  case (Cons s ss)
  then show ?case
    using assms(3-5) by (cases ss) (simp_all add: split_segment split_segment_sep split_leading_ws)
qed simp

section \<open>Parameter values\<close>

lemma unescape_escape: "unescape False (escape_quoted v) = Some v"
  by (induction v) (auto simp: escape_quoted_def)

lemma quoted_trim [simp]: "trim (CHR 0x22 # s @ [CHR 0x22]) = CHR 0x22 # s @ [CHR 0x22]"
  by (rule trim_id) (simp add: rust_simps)

lemma strip_suffix_append [simp]: "strip_suffix t (s @ t) = Some s"
  by (simp add: strip_suffix_def suffix_def)

lemma strip_prefix_append [simp]: "strip_prefix p (p @ s) = Some s"
  by (simp add: strip_prefix_def)

lemma strip_prefix_Cons [simp]: "strip_prefix [c] (b # s) = (if b = c then Some s else None)"
  by (simp add: strip_prefix_def)

lemma unquote_quoted: "unquote_http_value (CHR 0x22 # s @ [CHR 0x22]) =
   ok_or (unescape False s) (Anyhow ''unterminated escape sequence in quoted-string'')"
  by (simp add: unquote_http_value_def)

lemma unquote_plain: "trim s = s \<Longrightarrow> hd s \<noteq> CHR 0x22 \<Longrightarrow> unquote_http_value s = Inr s"
  by (cases s) (auto simp: unquote_http_value_def)

lemma tchar_facts:
  assumes "is_tchar c"
  shows "\<not> is_whitespace c" "c \<noteq> CHR 0x22" "c \<noteq> CHR '';''" "c \<noteq> CHR '',''" "visible_ascii c"
  using assms by (auto simp: is_tchar_def visible_ascii_def rust_simps)

lemma tchar_list_facts:
  assumes "list_all is_tchar s"
  shows "trim s = s" "segment (CHR '';'') s" "segment (CHR '','') s" "list_all visible_ascii s"
    "s \<noteq> [] \<Longrightarrow> hd s \<noteq> CHR 0x22"
proof -
  have a: "\<forall>c \<in> set s. is_tchar c" using assms by (simp add: list_all_iff)
  then show "trim s = s" by (intro trim_no_ws) (auto dest: tchar_facts)
  show "segment (CHR '';'') s" "segment (CHR '','') s"
    using a by (auto intro!: segment_plain dest: tchar_facts)
  show "list_all visible_ascii s" using a by (auto simp: list_all_iff dest: tchar_facts)
  show "s \<noteq> [] \<Longrightarrow> hd s \<noteq> CHR 0x22" using a by (cases s) (auto dest: tchar_facts)
qed

lemma unquote_write: "unquote_http_value (write_forwarded_param_value v) = Inr v"
proof (cases "v \<noteq> [] \<and> list_all is_tchar v")
  case True
  then show ?thesis by (simp add: write_forwarded_param_value_def unquote_plain tchar_list_facts)
next
  case False
  then show ?thesis
    unfolding write_forwarded_param_value_def if_not_P [OF False]
    by (simp add: unquote_quoted unescape_escape)
qed

section \<open>Nodes\<close>

fun wf_port :: "forwarded_port \<Rightarrow> bool" where
  "wf_port (PortNumeric p) \<longleftrightarrow> True"
| "wf_port (PortObfuscated s) \<longleftrightarrow> is_forwarded_obfuscated_id s"

definition wf_node :: "forwarded_node \<Rightarrow> bool" where
  "wf_node n \<longleftrightarrow>
     (case fn_raw n of
        RawIp \<Rightarrow> (case fn_ip n of None \<Rightarrow> False | Some ip \<Rightarrow> canonicalize_ip ip = ip)
      | RawUnknown \<Rightarrow> fn_ip n = None
      | RawObfuscated s \<Rightarrow> fn_ip n = None \<and> is_forwarded_obfuscated_id s) \<and>
     (case fn_port n of None \<Rightarrow> True | Some p \<Rightarrow> wf_port p)"

text \<open>The characters of the text of a node.\<close>

definition node_char :: "char \<Rightarrow> bool" where
  "node_char c \<longleftrightarrow> is_ascii_alphanumeric c \<or> c \<in> set ''._-:[]''"

lemma node_char_facts:
  assumes "node_char c"
  shows "\<not> is_whitespace c" "c \<noteq> CHR 0x22" "c \<noteq> CHR 0x5C" "c \<noteq> CHR '';''" "c \<noteq> CHR '',''" "c \<noteq> CHR ''=''"
    "visible_ascii c"
  using assms by (auto simp: node_char_def visible_ascii_def rust_simps)

lemma ip_char_node: "ip_char c \<Longrightarrow> node_char c"
proof -
  have "c = CHR ''.'' \<longleftrightarrow> byte c = 46" "c = CHR '':'' \<longleftrightarrow> byte c = 58"
    using of_char_eq_iff [of c "CHR ''.''", where 'a = nat] of_char_eq_iff [of c "CHR '':''", where 'a = nat]
    by (simp_all add: byte_def)
  then show "ip_char c \<Longrightarrow> node_char c" by (auto simp: ip_char_def node_char_def rust_simps)
qed

lemma display_ip_no_bracket: "CHR '']'' \<notin> set (display_ip ip)"
  using display_ip_ip_char [of "CHR '']''" ip] by (auto simp: ip_char_def rust_simps)

lemma digit_facts: "is_ascii_digit c \<Longrightarrow> c \<noteq> CHR '':'' \<and> c \<noteq> CHR ''_'' \<and> node_char c"
  by (auto simp: node_char_def rust_simps)

lemma obf_shape:
  "is_forwarded_obfuscated_id s \<longleftrightarrow>
     (\<exists>r. s = CHR ''_'' # r \<and> r \<noteq> [] \<and> (\<forall>c \<in> set r. is_ascii_alphanumeric c \<or> c \<in> set ''._-''))"
  by (cases s) (auto simp: is_forwarded_obfuscated_id_def list_all_iff strip_prefix_def)

lemma obf_chars:
  assumes "is_forwarded_obfuscated_id s" and "c \<in> set s"
  shows "node_char c" "c \<noteq> CHR '':''" "c \<noteq> CHR '']''"
proof -
  have "c = CHR ''_'' \<or> is_ascii_alphanumeric c \<or> c \<in> set ''._-''" using assms unfolding obf_shape by auto
  then show "node_char c" "c \<noteq> CHR '':''" "c \<noteq> CHR '']''" by (auto simp: node_char_def rust_simps)
qed

lemma port_chars:
  assumes "wf_port p" and "c \<in> set (push_forwarded_port p)"
  shows "node_char c" "c \<noteq> CHR '':''"
  using assms by (cases p; auto dest!: show_nat_digits digit_facts dest: obf_chars)+

lemma parse_port_push: "wf_port p \<Longrightarrow> parse_forwarded_port (push_forwarded_port p) = Inr p"
proof (cases p)
  case (PortNumeric w)
  have len: "length (show_nat (unat w)) \<le> 5"
    using show_radix_length [of 10 "unat w" 4] u16_bound [of w] by (simp add: show_nat_def)
  have dig: "list_all is_ascii_digit (show_nat (unat w))" by (auto simp: list_all_iff dest: show_nat_digits)
  have "\<not> starts_with (show_nat (unat w)) ''_''"
    using dig digit_facts by (cases "show_nat (unat w)") auto
  then show ?thesis
    using len dig u16_bound [of w] PortNumeric by (simp add: parse_forwarded_port_def parse_uint_show_nat)
next
  case (PortObfuscated s)
  assume "wf_port p"
  with PortObfuscated show ?thesis by (auto simp: parse_forwarded_port_def obf_shape)
qed

lemma ip_from_bracket: "ip_from_str (CHR ''['' # s) = None"
proof -
  have nd: "no_digit r (CHR ''['' # s)" for r by (simp add: to_digit_def rust_simps)
  have "read_groups 8 0 (CHR ''['' # s) = ([], False, CHR ''['' # s)"
    using nd by (subst read_groups.simps)
      (simp add: read_separator_def read_ipv4_no_digit read_number_no_digit del: no_digit_simps)
  then show ?thesis
    using read_ipv4_no_digit [OF nd] by (simp add: ip_from_str_def parse_with_def read_ip_addr_def read_ipv6_addr_def)
qed

lemma unbracket_wrap [simp]: "unbracket (CHR ''['' # s @ '']'') = Some s"
  by (simp add: unbracket_def)

lemma unbracket_no_close: "CHR '']'' \<notin> set s \<Longrightarrow> unbracket s = None"
  by (cases s) (auto simp: unbracket_def strip_prefix_def strip_suffix_def suffix_def)

lemma unbracket_no_open: "\<not> starts_with s ''['' \<Longrightarrow> unbracket s = None"
  by (auto simp: unbracket_def starts_with_def strip_prefix_def)

lemma not_unknown_hd: "to_ascii_lowercase (c # s) = to_ascii_lowercase ''unknown'' \<Longrightarrow> lower_char c = CHR ''u''"
  by (simp add: to_ascii_lowercase_def lower_char_def rust_simps)

lemma not_unknown:
  "\<not> is_ascii_alphanumeric c \<or> is_ascii_digit c \<Longrightarrow> \<not> eq_ignore_ascii_case (c # s) ''unknown''"
  by (auto simp: eq_ignore_ascii_case_def to_ascii_lowercase_def lower_char_def rust_simps)

lemma parse_ip_display: "canonicalize_ip ip = ip \<Longrightarrow> parse_ip (display_ip ip) = Inr ip"
  by (simp add: parse_ip_def)

definition port_text :: "forwarded_port option \<Rightarrow> bytes" where
  "port_text p = (case p of None \<Rightarrow> [] | Some p \<Rightarrow> '':'' @ push_forwarded_port p)"

definition name_text :: "forwarded_node \<Rightarrow> bytes" where
  "name_text n =
     (case (fn_raw n, fn_ip n) of
        (RawIp, Some (V4 v)) \<Rightarrow> display_ipv4 v
      | (RawIp, Some (V6 v)) \<Rightarrow> ''['' @ display_ipv6 v @ '']''
      | (RawObfuscated s, _) \<Rightarrow> s
      | _ \<Rightarrow> ''unknown'')"

abbreviation node_text :: "forwarded_node \<Rightarrow> bytes" where
  "node_text n \<equiv> name_text n @ port_text (fn_port n)"

lemma wf_node_cases [consumes 1, case_names v4 v6 unknown obf]:
  assumes "wf_node n"
  obtains v where "fn_raw n = RawIp" "fn_ip n = Some (V4 v)"
  | v where "fn_raw n = RawIp" "fn_ip n = Some (V6 v)" "canonicalize_ip (V6 v) = V6 v"
  | "fn_raw n = RawUnknown" "fn_ip n = None"
  | s where "fn_raw n = RawObfuscated s" "fn_ip n = None" "is_forwarded_obfuscated_id s"
proof (cases "fn_raw n")
  case RawIp
  then obtain ip where "fn_ip n = Some ip" "canonicalize_ip ip = ip"
    using assms by (auto simp: wf_node_def split: option.splits)
  then show thesis using RawIp that(1) that(2) by (cases ip) simp_all
next
  case RawUnknown
  then show thesis using assms that(3) by (simp add: wf_node_def)
next
  case (RawObfuscated s)
  then show thesis using assms that(4) [of s] by (simp add: wf_node_def)
qed

lemma wf_node_port: "wf_node n \<Longrightarrow> fn_port n = Some p \<Longrightarrow> wf_port p"
  by (simp add: wf_node_def)

lemma name_text_chars:
  assumes "wf_node n" and c: "c \<in> set (name_text n)"
  shows "node_char c"
  using assms(1)
proof (cases rule: wf_node_cases)
  case (v4 v)
  then show ?thesis using c display_ipv4_ip_char [of c v] ip_char_node [of c] by (simp add: name_text_def)
next
  case (v6 v)
  then show ?thesis
    using c display_ip_ip_char [of c "V6 v"] ip_char_node [of c]
    by (auto simp: name_text_def node_char_def [of "CHR ''[''"] node_char_def [of "CHR '']''"])
next
  case unknown
  then have "c \<in> set ''unknown''" using c by (simp add: name_text_def)
  moreover have "list_all is_ascii_alphanumeric ''unknown''" by (simp add: rust_simps)
  ultimately show ?thesis by (simp add: node_char_def list_all_iff del: list.set)
next
  case (obf s)
  then show ?thesis using c obf_chars(1) [of s c] by (simp add: name_text_def)
qed

lemma node_text_chars: "wf_node n \<Longrightarrow> c \<in> set (node_text n) \<Longrightarrow> node_char c"
  using port_chars(1) [of "the (fn_port n)" c] wf_node_port [of n "the (fn_port n)"] name_text_chars [of n c]
  by (cases "fn_port n") (auto simp: port_text_def node_char_def [of "CHR '':''"])

lemma display_ipv4_hd: "\<exists>c r. display_ipv4 v = c # r \<and> is_ascii_digit c"
proof (cases v)
  case (Ipv4Addr a b c d)
  then show ?thesis using show_nat_digits [of "hd (show_nat (unat a))" "unat a"] by (cases "show_nat (unat a)") auto
qed

lemma display_ipv4_no_colon: "CHR '':'' \<notin> set (display_ipv4 v)"
  by (cases v) (auto dest!: show_nat_digits digit_facts)

lemma name_text_ne:
  assumes "wf_node n" shows "name_text n \<noteq> []"
  using assms
proof (cases rule: wf_node_cases)
  case (v4 v)
  then show ?thesis using display_ipv4_hd [of v] by (auto simp: name_text_def)
qed (auto simp: name_text_def obf_shape)

text \<open>A name with no colon, followed by a port: the colon that separates them is the only one.\<close>

lemma one_colon:
  assumes "CHR '':'' \<notin> set a" "wf_port p"
  shows "length (filter (\<lambda>c. c = CHR '':'') (a @ '':'' @ push_forwarded_port p)) = 1"
    "rsplit_once (CHR '':'') (a @ '':'' @ push_forwarded_port p) = Some (a, push_forwarded_port p)"
proof -
  have n: "CHR '':'' \<notin> set (push_forwarded_port p)" using port_chars(2) [OF assms(2)] by blast
  then have "filter (\<lambda>c. c = CHR '':'') (push_forwarded_port p) = []" "filter (\<lambda>c. c = CHR '':'') a = []"
    using assms(1) by (auto simp: filter_empty_conv)
  then show "length (filter (\<lambda>c. c = CHR '':'') (a @ '':'' @ push_forwarded_port p)) = 1" by simp
  show "rsplit_once (CHR '':'') (a @ '':'' @ push_forwarded_port p) = Some (a, push_forwarded_port p)"
    using rsplit_once_append [OF n] by simp
qed

lemma parse_plain_node:
  assumes "unquote_http_value tok = Inr (a @ port_text po)" and "CHR '':'' \<notin> set a" and "\<not> starts_with a ''[''"
    and "a \<noteq> []" and "\<And>p. po = Some p \<Longrightarrow> wf_port p" and "\<not> eq_ignore_ascii_case (a @ port_text po) ''unknown'' \<or> po = None"
  shows "parse_forwarded_node tok =
    (if eq_ignore_ascii_case a ''unknown'' then Inr \<lparr>fn_ip = None, fn_port = po, fn_raw = RawUnknown\<rparr>
     else case po of
       None \<Rightarrow> parse_node_no_port a
     | Some p \<Rightarrow>
         if is_forwarded_obfuscated_id a then Inr \<lparr>fn_ip = None, fn_port = Some p, fn_raw = RawObfuscated a\<rparr>
         else if starts_with a ''_'' then Inl (Anyhow ''invalid forwarded obfnode'')
         else case ip_from_str a of
                Some ip \<Rightarrow> Inr (ip_node (canonicalize_ip ip) (Some p))
              | None \<Rightarrow> parse_node_no_port (a @ port_text po))"
proof (cases po)
  case None
  have "filter (\<lambda>c. c = CHR '':'') a = []" using assms(2) by (auto simp: filter_empty_conv)
  then show ?thesis using assms None by (simp add: parse_forwarded_node_def port_text_def)
next
  case (Some p)
  have nb: "\<not> starts_with (a @ '':'' @ push_forwarded_port p) ''[''" using assms(3,4) by (cases a) auto
  show ?thesis
    using assms(1,5,6) Some one_colon [OF assms(2), of p] nb
    by (simp add: parse_forwarded_node_def port_text_def parse_port_push split: option.splits)
qed

lemma unknown_no_colon: "CHR '':'' \<in> set s \<Longrightarrow> \<not> eq_ignore_ascii_case s ''unknown''"
proof
  assume "CHR '':'' \<in> set s" "eq_ignore_ascii_case s ''unknown''"
  then have "lower_char (CHR '':'') \<in> set (map lower_char ''unknown'')"
    unfolding eq_ignore_ascii_case_def to_ascii_lowercase_def by (metis image_eqI list.set_map)
  then show False by (simp add: lower_char_def rust_simps)
qed

lemma port_text_unknown: "\<not> eq_ignore_ascii_case (a @ port_text po) ''unknown'' \<or> po = None"
  by (cases po) (simp_all add: port_text_def unknown_no_colon)

lemma parse_node_v6:
  assumes un: "unquote_http_value tok = Inr (''['' @ display_ipv6 v @ '']'' @ port_text po)"
    and can: "canonicalize_ip (V6 v) = V6 v" and wf: "\<And>p. po = Some p \<Longrightarrow> wf_port p"
  shows "parse_forwarded_node tok = Inr (ip_node (V6 v) po)"
proof -
  let ?t = "''['' @ display_ipv6 v @ '']''"
  have ip: "parse_ip (display_ipv6 v) = Inr (V6 v)" using parse_ip_display [OF can] by simp
  have nu: "\<not> eq_ignore_ascii_case (CHR ''['' # s) ''unknown''" for s
    by (rule not_unknown) (simp add: rust_simps)
  show ?thesis
  proof (cases po)
    case None
    have pn: "parse_node_no_port ?t = Inr (ip_node (V6 v) None)"
      by (simp add: parse_node_no_port_def ip)
    have "CHR '']'' \<notin> set node" if "rsplit_once (CHR '':'') ?t = Some (node, port)" for node port
    proof -
      have eq: "?t = node @ CHR '':'' # port" using that by (rule rsplit_once_SomeD)
      then have "butlast ?t = node @ butlast (CHR '':'' # port)" by (metis butlast_append list.distinct(1))
      then have "set node \<subseteq> set (''['' @ display_ipv6 v)" by (metis Un_upper1 append_assoc butlast_snoc set_append)
      then show ?thesis using display_ip_no_bracket [of "V6 v"] by auto
    qed
    then have ub: "unbracket node = None" if "rsplit_once (CHR '':'') ?t = Some (node, port)" for node port
      using that unbracket_no_close by blast
    have ipn: "ip_from_str node = None \<and> \<not> eq_ignore_ascii_case node ''unknown'' \<and> \<not> is_forwarded_obfuscated_id node \<and>
        \<not> starts_with node ''_''" if "rsplit_once (CHR '':'') ?t = Some (node, port)" for node port
    proof -
      have eq: "?t = node @ CHR '':'' # port" using that by (rule rsplit_once_SomeD)
      then obtain r where "node = CHR ''['' # r" by (cases node) auto
      then show ?thesis using nu by (simp add: ip_from_bracket obf_shape)
    qed
    show ?thesis
      using un None pn nu ub ipn
      by (auto simp: parse_forwarded_node_def port_text_def split: option.splits)
  next
    case (Some p)
    have "rsplit_once (CHR '':'') (?t @ CHR '':'' # push_forwarded_port p) = Some (?t, push_forwarded_port p)"
      using port_chars(2) [OF wf [OF Some]] by (intro rsplit_once_append) auto
    then show ?thesis
      using un Some nu ip parse_port_push [OF wf [OF Some]] by (simp add: parse_forwarded_node_def port_text_def)
  qed
qed

lemma parse_node_text:
  assumes wf: "wf_node n" and un: "unquote_http_value tok = Inr (node_text n)"
  shows "parse_forwarded_node tok = Inr n"
  using wf
proof (cases rule: wf_node_cases)
  case (v4 v)
  obtain c r where hd: "display_ipv4 v = c # r" "is_ascii_digit c" using display_ipv4_hd by blast
  have nu: "\<not> eq_ignore_ascii_case (display_ipv4 v) ''unknown''" unfolding hd(1) by (rule not_unknown) (simp add: hd)
  have sw: "\<not> starts_with (display_ipv4 v) ''[''" "\<not> starts_with (display_ipv4 v) ''_''"
    "\<not> is_forwarded_obfuscated_id (display_ipv4 v)"
    using hd by (auto simp: obf_shape rust_simps)
  have ip: "ip_from_str (display_ipv4 v) = Some (V4 v)" using ip_from_str_display [of "V4 v"] by simp
  have can: "canonicalize_ip (V4 v) = V4 v" by (simp add: canonicalize_ip_def)
  have np: "parse_node_no_port (display_ipv4 v) = Inr (ip_node (V4 v) None)"
    using sw by (simp add: parse_node_no_port_def unbracket_no_open parse_ip_def ip can)
  have nt: "name_text n = display_ipv4 v" using v4 by (simp add: name_text_def)
  have n: "n = ip_node (V4 v) (fn_port n)" using v4 by (cases n) simp
  have "parse_forwarded_node tok = Inr (ip_node (V4 v) (fn_port n))"
    using parse_plain_node [OF un [unfolded nt] display_ipv4_no_colon sw(1) _ _ port_text_unknown]
      wf_node_port [OF wf] hd nu sw ip can np by (auto split: option.splits)
  then show ?thesis using n by simp
next
  case (v6 v)
  have n: "n = ip_node (V6 v) (fn_port n)" using v6 by (cases n) simp
  have "parse_forwarded_node tok = Inr (ip_node (V6 v) (fn_port n))"
    using un v6 wf_node_port [OF wf] by (intro parse_node_v6) (simp_all add: name_text_def)
  then show ?thesis using n by simp
next
  case unknown
  have nt: "name_text n = ''unknown''" using unknown by (simp add: name_text_def)
  have n: "n = \<lparr>fn_ip = None, fn_port = fn_port n, fn_raw = RawUnknown\<rparr>" using unknown by (cases n) simp
  have "parse_forwarded_node tok = Inr \<lparr>fn_ip = None, fn_port = fn_port n, fn_raw = RawUnknown\<rparr>"
    using parse_plain_node [OF un [unfolded nt] _ _ _ _ port_text_unknown] wf_node_port [OF wf] by simp
  then show ?thesis using n by simp
next
  case (obf s)
  have nt: "name_text n = s" using obf by (simp add: name_text_def)
  have n: "n = \<lparr>fn_ip = None, fn_port = fn_port n, fn_raw = RawObfuscated s\<rparr>" using obf by (cases n) simp
  obtain r where s: "s = CHR ''_'' # r" using obf by (auto simp: obf_shape)
  have nu: "\<not> eq_ignore_ascii_case s ''unknown''" unfolding s by (rule not_unknown) (simp add: rust_simps)
  have nc: "CHR '':'' \<notin> set s" using obf_chars(2) [OF obf(3)] by blast
  have sw: "\<not> starts_with s ''[''" by (simp add: s)
  have np: "parse_node_no_port s = Inr \<lparr>fn_ip = None, fn_port = None, fn_raw = RawObfuscated s\<rparr>"
    using obf sw by (simp add: parse_node_no_port_def unbracket_no_open)
  have "parse_forwarded_node tok = Inr \<lparr>fn_ip = None, fn_port = fn_port n, fn_raw = RawObfuscated s\<rparr>"
    using parse_plain_node [OF un [unfolded nt] nc sw _ _ port_text_unknown] wf_node_port [OF wf] obf nu np s
    by (auto split: option.splits)
  then show ?thesis using n by simp
qed

lemma write_node:
  assumes "itoa_law N" and "wf_node n"
  shows "write_forwarded_node N n = Inr (node_text n) \<or> write_forwarded_node N n = Inr ([CHR 0x22] @ node_text n @ [CHR 0x22])"
proof -
  have p4: "push_ipv4 N v = display_ipv4 v" for v
    using push_ip_addr_display [OF assms(1), of "V4 v"] by simp
  show ?thesis
    using assms(2)
    by (cases rule: wf_node_cases; cases "fn_port n") (simp_all add: write_forwarded_node_def name_text_def port_text_def p4)
qed

lemma unescape_plain: "CHR 0x5C \<notin> set s \<Longrightarrow> unescape False s = Some s"
  by (induction s) auto

lemma escape_plain: "CHR 0x5C \<notin> set s \<Longrightarrow> CHR 0x22 \<notin> set s \<Longrightarrow> escape_quoted s = s"
  by (induction s) (auto simp: escape_quoted_def)

text \<open>A text that can stand in an entry: it keeps the scanner quiet, is trimmed and printable.\<close>

definition param_text :: "bytes \<Rightarrow> bool" where
  "param_text s \<longleftrightarrow> segment (CHR '';'') s \<and> segment (CHR '','') s \<and> s \<noteq> [] \<and>
     \<not> is_whitespace (hd s) \<and> \<not> is_whitespace (last s)"

lemma param_text_quoted: "param_text ([CHR 0x22] @ escape_quoted v @ [CHR 0x22])"
  unfolding param_text_def by (intro conjI segment_quoted) (simp_all add: rust_simps)

lemma node_text_param: "wf_node n \<Longrightarrow> param_text (node_text n)"
proof -
  assume wf: "wf_node n"
  have c: "\<forall>c \<in> set (node_text n). node_char c" using node_text_chars [OF wf] by blast
  have ne: "node_text n \<noteq> []" using name_text_ne [OF wf] by simp
  have "hd (node_text n) \<in> set (node_text n)" "last (node_text n) \<in> set (node_text n)"
    using ne by (simp_all only: hd_in_set last_in_set not_False_eq_True)
  with c ne show "param_text (node_text n)"
    unfolding param_text_def by (metis node_char_facts(1,2,4,5) segment_plain)
qed

lemma written_node:
  assumes N: "itoa_law N" and wf: "wf_node n" 
  obtains w where "write_forwarded_node N n = Inr w" "param_text w" "list_all visible_ascii w"
    "parse_forwarded_node w = Inr n"
proof -
  have c: "\<forall>c \<in> set (node_text n). node_char c" using node_text_chars [OF wf] by blast
  then have esc: "CHR 0x5C \<notin> set (node_text n)" "CHR 0x22 \<notin> set (node_text n)" by (auto dest: node_char_facts)
  have tr: "trim (node_text n) = node_text n" by (rule trim_no_ws) (use c node_char_facts in blast)
  have vis: "list_all visible_ascii (node_text n)" using c by (auto simp: list_all_iff dest: node_char_facts)
  have hd: "hd (node_text n) \<noteq> CHR 0x22" using esc(2) name_text_ne [OF wf] by (metis append_is_Nil_conv hd_in_set)
  from write_node [OF N wf] show thesis
  proof
    assume w: "write_forwarded_node N n = Inr (node_text n)"
    have "unquote_http_value (node_text n) = Inr (node_text n)" using tr hd by (rule unquote_plain)
    then show thesis using that [OF w node_text_param [OF wf] vis] parse_node_text [OF wf] by blast
  next
    assume w: "write_forwarded_node N n = Inr ([CHR 0x22] @ node_text n @ [CHR 0x22])"
    let ?w = "[CHR 0x22] @ node_text n @ [CHR 0x22]"
    have "unquote_http_value ?w = Inr (node_text n)"
      using unquote_quoted [of "node_text n"] unescape_plain [OF esc(1)] by simp
    moreover have "param_text ?w" using param_text_quoted [of "node_text n"] escape_plain [OF esc] by simp
    moreover have "list_all visible_ascii ?w" using vis by (simp add: visible_ascii_def rust_simps)
    ultimately show thesis using that [OF w] parse_node_text [OF wf] by blast
  qed
qed

section \<open>Entries\<close>

lemma written_value:
  "param_text (write_forwarded_param_value v)"
  "list_all visible_ascii v \<Longrightarrow> list_all visible_ascii (write_forwarded_param_value v)"
proof -
  show "param_text (write_forwarded_param_value v)"
  proof (cases "v \<noteq> [] \<and> list_all is_tchar v")
    case True
    then have "\<not> is_whitespace (hd v)" "\<not> is_whitespace (last v)"
      by (auto simp: list_all_iff dest!: tchar_facts(1))
    then show ?thesis using True tchar_list_facts [of v] by (simp add: write_forwarded_param_value_def param_text_def)
  next
    case False
    show ?thesis unfolding write_forwarded_param_value_def if_not_P [OF False] by (rule param_text_quoted)
  qed
  show "list_all visible_ascii v \<Longrightarrow> list_all visible_ascii (write_forwarded_param_value v)"
    by (auto simp: write_forwarded_param_value_def escape_quoted_def list_all_iff visible_ascii_def rust_simps)
qed

lemma split_join_plain:
  assumes "\<forall>s \<in> set ss. segment d s \<and> trim s = s" and "ss \<noteq> []" and "d \<noteq> CHR 0x22"
  shows "split_respecting_quotes (join [d] ss) d = ss"
  using assms(1,2)
proof (induction ss)
  case (Cons s ss)
  then show ?case using assms(3) by (cases ss) (simp_all add: split_segment split_segment_sep)
qed simp

lemma param_text_trim: "param_text s \<Longrightarrow> trim s = s"
  by (rule trim_id) (simp add: param_text_def)

definition param_keys :: "bytes set" where
  "param_keys = {''for'', ''proto'', ''host'', ''by''}"

lemma key_facts:
  assumes "k \<in> param_keys"
  shows "param_text (k @ ''='')" "CHR ''='' \<notin> set k" "to_ascii_lowercase (trim k) = k" "list_all visible_ascii (k @ ''='')"
  using assms unfolding param_keys_def
  by (auto simp: param_text_def rust_simps to_ascii_lowercase_def lower_char_def trim_def visible_ascii_def)

lemma param_text_append: "param_text a \<Longrightarrow> param_text b \<Longrightarrow> param_text (a @ b)"
  by (auto simp: param_text_def intro: segment_append)

lemma param_pair:
  assumes "k \<in> param_keys" and "param_text w"
  shows "param_text (k @ ''='' @ w)" "split_once (CHR ''='') (k @ ''='' @ w) = Some (k, w)"
  using param_text_append [OF key_facts(1) [OF assms(1)] assms(2)] split_once_append [OF key_facts(2) [OF assms(1)], of w]
  by simp_all

definition opt_param :: "bytes \<Rightarrow> bytes option \<Rightarrow> bytes list" where
  "opt_param k v = (case v of None \<Rightarrow> [] | Some v \<Rightarrow> [k @ ''='' @ write_forwarded_param_value v])"

lemma join_opt_param: "ps \<noteq> [] \<Longrightarrow> join '';'' (ps @ opt_param k v) = join '';'' ps @ write_param k v"
proof -
  have "ps \<noteq> [] \<Longrightarrow> join '';'' (ps @ [x]) = join '';'' ps @ '';'' @ x" for x
    by (induction "'';''" ps rule: join.induct) simp_all
  then show "ps \<noteq> [] \<Longrightarrow> join '';'' (ps @ opt_param k v) = join '';'' ps @ write_param k v"
    by (cases v) (simp_all add: opt_param_def write_param_def)
qed

lemma opt_param_text: "k \<in> param_keys \<Longrightarrow> \<forall>s \<in> set (opt_param k v). param_text s"
  using param_pair(1) [OF _ written_value(1)] by (cases v) (simp_all add: opt_param_def)

lemma parse_opt_param:
  "fp_proto ps = None \<Longrightarrow> parse_forwarded_params ps (opt_param ''proto'' v @ rest) =
     parse_forwarded_params (ps\<lparr>fp_proto := v\<rparr>) rest"
  "fp_host ps = None \<Longrightarrow> parse_forwarded_params ps (opt_param ''host'' v @ rest) =
     parse_forwarded_params (ps\<lparr>fp_host := v\<rparr>) rest"
  "fp_by ps = None \<Longrightarrow> parse_forwarded_params ps (opt_param ''by'' v @ rest) =
     parse_forwarded_params (ps\<lparr>fp_by := v\<rparr>) rest"
proof -
  have *: "parse_forwarded_param ps (k @ ''='' @ write_forwarded_param_value x) =
     (let value = write_forwarded_param_value x
          in if k = ''for'' then
               (if fp_for ps \<noteq> None then Inl (Anyhow ''duplicate for'')
                else rbind (parse_forwarded_node value) (\<lambda>n. Inr (ps\<lparr>fp_for := Some n\<rparr>)))
             else if k = ''proto'' then
               (if fp_proto ps \<noteq> None then Inl (Anyhow ''duplicate proto'') else Inr (ps\<lparr>fp_proto := Some x\<rparr>))
             else if k = ''host'' then
               (if fp_host ps \<noteq> None then Inl (Anyhow ''duplicate host'') else Inr (ps\<lparr>fp_host := Some x\<rparr>))
             else if k = ''by'' then
               (if fp_by ps \<noteq> None then Inl (Anyhow ''duplicate by'') else Inr (ps\<lparr>fp_by := Some x\<rparr>))
             else Inr ps)" if "k \<in> param_keys" for k x
    unfolding parse_forwarded_param_def param_pair(2) [OF that written_value(1)]
    by (simp add: key_facts(3) [OF that] param_text_trim written_value unquote_write)
  have k: "''proto'' \<in> param_keys" "''host'' \<in> param_keys" "''by'' \<in> param_keys" by (simp_all add: param_keys_def)
  show "fp_proto ps = None \<Longrightarrow> parse_forwarded_params ps (opt_param ''proto'' v @ rest) =
     parse_forwarded_params (ps\<lparr>fp_proto := v\<rparr>) rest"
    using * [OF k(1)] by (cases v; cases ps) (simp_all add: opt_param_def)
  show "fp_host ps = None \<Longrightarrow> parse_forwarded_params ps (opt_param ''host'' v @ rest) =
     parse_forwarded_params (ps\<lparr>fp_host := v\<rparr>) rest"
    using * [OF k(2)] by (cases v; cases ps) (simp_all add: opt_param_def)
  show "fp_by ps = None \<Longrightarrow> parse_forwarded_params ps (opt_param ''by'' v @ rest) =
     parse_forwarded_params (ps\<lparr>fp_by := v\<rparr>) rest"
    using * [OF k(3)] by (cases v; cases ps) (simp_all add: opt_param_def)
qed

definition visible_opt :: "bytes option \<Rightarrow> bool" where
  "visible_opt v \<longleftrightarrow> (case v of None \<Rightarrow> True | Some s \<Rightarrow> list_all visible_ascii s)"

definition wf_entry :: "forwarded_entry \<Rightarrow> bool" where
  "wf_entry e \<longleftrightarrow> wf_node (fe_for e) \<and> visible_opt (fe_proto e) \<and> visible_opt (fe_host e) \<and> visible_opt (fe_by e)"

lemma write_param_visible: "visible_opt v \<Longrightarrow> k \<in> param_keys \<Longrightarrow> list_all visible_ascii (write_param k v)"
  using key_facts(4) [of k]
  by (cases v) (auto simp: visible_opt_def write_param_def written_value visible_ascii_def rust_simps)

lemma trim_join_params:
  assumes "ps \<noteq> []" and "\<forall>p \<in> set ps. param_text p"
  shows "trim (join '';'' ps) = join '';'' ps"
proof (rule trim_id)
  have "join '';'' ps \<noteq> [] \<and> hd (join '';'' ps) = hd (hd ps) \<and> last (join '';'' ps) = last (last ps)"
    using assms by (induction "'';''" ps rule: join.induct) (auto simp: param_text_def)
  moreover have "hd ps \<in> set ps" "last ps \<in> set ps" using assms(1) by simp_all
  ultimately show "join '';'' ps = [] \<or> \<not> is_whitespace (hd (join '';'' ps)) \<and> \<not> is_whitespace (last (join '';'' ps))"
    using assms(2) by (simp add: param_text_def)
qed

lemma written_entry:
  assumes N: "itoa_law N" and wf: "wf_entry e"
  obtains w where "write_forwarded_entry N e = Inr w" "segment (CHR '','') w" "w \<noteq> []" "trim w = w"
    "list_all visible_ascii w" "parse_forwarded_header_entry w = Inr e"
proof -
  obtain n where n: "write_forwarded_node N (fe_for e) = Inr n" "param_text n" "list_all visible_ascii n"
      "parse_forwarded_node n = Inr (fe_for e)"
    using written_node [OF N] wf by (auto simp: wf_entry_def)
  have k: "''for'' \<in> param_keys" "''proto'' \<in> param_keys" "''host'' \<in> param_keys" "''by'' \<in> param_keys"
    by (simp_all add: param_keys_def)
  let ?tail = "opt_param ''proto'' (fe_proto e) @ opt_param ''host'' (fe_host e) @ opt_param ''by'' (fe_by e)"
  let ?ps = "(''for='' @ n) # ?tail"
  let ?w = "''for='' @ n @ write_param ''proto'' (fe_proto e) @ write_param ''host'' (fe_host e) @ write_param ''by'' (fe_by e)"
  have f: "param_text (''for='' @ n)" using param_pair(1) [OF k(1) n(2)] by simp
  have ps: "\<forall>s \<in> set ?ps. param_text s" using f opt_param_text k by auto
  have w: "?w = join '';'' ?ps"
    using join_opt_param [of "[''for='' @ n]"] join_opt_param [of "[''for='' @ n] @ opt_param ''proto'' (fe_proto e)"]
      join_opt_param [of "([''for='' @ n] @ opt_param ''proto'' (fe_proto e)) @ opt_param ''host'' (fe_host e)"]
    by simp
  have split: "split_respecting_quotes ?w (CHR '';'') = ?ps"
    unfolding w using ps param_text_trim by (intro split_join_plain) (auto simp: param_text_def)
  have fil: "filter (\<lambda>p. p \<noteq> []) ?ps = ?ps" by (rule filter_True) (use ps in \<open>auto simp: param_text_def\<close>)
  let ?p0 = "\<lparr>fp_for = None, fp_proto = None, fp_host = None, fp_by = None\<rparr>"
  have "parse_forwarded_param ?p0 (''for='' @ n) = Inr (?p0\<lparr>fp_for := Some (fe_for e)\<rparr>)"
    using param_pair(2) [OF k(1) n(2)] key_facts(3) [OF k(1)] n(4)
    by (simp add: parse_forwarded_param_def param_text_trim [OF n(2)])
  then have "parse_forwarded_params ?p0 ?ps = parse_forwarded_params (?p0\<lparr>fp_for := Some (fe_for e)\<rparr>) (?tail @ [])"
    by simp
  also have "\<dots> = Inr \<lparr>fp_for = Some (fe_for e), fp_proto = fe_proto e, fp_host = fe_host e, fp_by = fe_by e\<rparr>"
    unfolding append_assoc by (simp only: parse_opt_param forwarded_params.simps parse_forwarded_params.simps)
  finally have pp: "parse_forwarded_params ?p0 ?ps =
      Inr \<lparr>fp_for = Some (fe_for e), fp_proto = fe_proto e, fp_host = fe_host e, fp_by = fe_by e\<rparr>" .
  have pe: "parse_forwarded_header_entry ?w = Inr e"
    unfolding parse_forwarded_header_entry_def split fil pp by simp
  have seg: "segment (CHR '','') (write_param k v)" if "k \<in> param_keys" for k v
    using param_pair(1) [OF that written_value(1)] by (cases v) (simp_all add: write_param_def param_text_def)
  have "segment (CHR '','') ?w"
    using seg k n(2) by (intro segment_append) (simp_all add: param_text_def)
  moreover have "trim ?w = ?w"
    unfolding w by (rule trim_join_params) (use ps in auto)
  moreover have "list_all visible_ascii ?w"
    using n(3) wf write_param_visible k by (auto simp: wf_entry_def visible_ascii_def rust_simps)
  moreover have "write_forwarded_entry N e = Inr ?w" using n(1) by (simp add: write_forwarded_entry_def)
  ultimately show thesis using that [of ?w] pe by simp
qed

text \<open>The writer and the parser of whole headers.\<close>

lemma written_chain:
  assumes N: "itoa_law N" and wf: "\<forall>e \<in> set chain. wf_entry e" and ne: "chain \<noteq> []"
  obtains v where "generate_forwarded_header N chain = Inr v" "list_all visible_ascii v"
    "try_map parse_forwarded_header_entry (filter (\<lambda>e. e \<noteq> []) (split_respecting_quotes v (CHR '',''))) = Inr chain"
proof -
  have "\<exists>w. write_forwarded_entry N e = Inr w \<and> segment (CHR '','') w \<and> w \<noteq> [] \<and> trim w = w \<and>
      list_all visible_ascii w \<and> parse_forwarded_header_entry w = Inr e" if "e \<in> set chain" for e
    using written_entry [OF N] wf that by metis
  then obtain f where f: "\<And>e. e \<in> set chain \<Longrightarrow> write_forwarded_entry N e = Inr (f e) \<and> segment (CHR '','') (f e) \<and>
      f e \<noteq> [] \<and> trim (f e) = f e \<and> list_all visible_ascii (f e) \<and> parse_forwarded_header_entry (f e) = Inr e"
    by metis
  let ?ws = "map f chain"
  have "generate_forwarded_header N chain = Inr (join '', '' ?ws)"
    using ne f by (simp add: generate_forwarded_header_def try_map_all_Inr [of chain _ f])
  moreover have "list_all visible_ascii (join '', '' ?ws)"
    using f by (intro list_all_join) (auto simp: list_all_iff visible_ascii_def rust_simps)
  moreover have "split_respecting_quotes (join '', '' ?ws) (CHR '','') = ?ws"
    using f ne by (intro split_join) (auto simp: rust_simps)
  moreover have "filter (\<lambda>e. e \<noteq> []) ?ws = ?ws" using f by (intro filter_True) auto
  moreover have "try_map parse_forwarded_header_entry ?ws = Inr chain"
    using f by (simp add: try_map_Inr_iff list_all2_conv_all_nth)
  ultimately show thesis using that by simp
qed

section \<open>What the parser produces\<close>

lemma canonical_parse_ip: "parse_ip s = Inr ip \<Longrightarrow> canonicalize_ip ip = ip"
  by (auto simp: parse_ip_def)

lemma wf_parse_port: "parse_forwarded_port s = Inr p \<Longrightarrow> wf_port p"
  by (auto simp: parse_forwarded_port_def split: if_splits)

lemma wf_parse_node_no_port: "parse_node_no_port s = Inr n \<Longrightarrow> wf_node n"
  by (auto simp: parse_node_no_port_def wf_node_def canonical_parse_ip split: option.splits if_splits)

lemma wf_parse_node: "parse_forwarded_node s = Inr n \<Longrightarrow> wf_node n"
  unfolding parse_forwarded_node_def
  by (auto simp: wf_node_def canonical_parse_ip wf_parse_port
      dest!: wf_parse_node_no_port split: option.splits if_splits prod.splits)

lemma set_split_once: "split_once d s = Some (a, b) \<Longrightarrow> set a \<subseteq> set s \<and> set b \<subseteq> set s"
  by (drule split_once_SomeD) auto

lemma set_unescape: "unescape e s = Some t \<Longrightarrow> set t \<subseteq> set s"
  by (induction e s arbitrary: t rule: unescape.induct) (fastforce split: if_splits)+

lemma set_strip_prefix: "strip_prefix p s = Some t \<Longrightarrow> set t \<subseteq> set s"
  by (auto simp: strip_prefix_def split: if_splits dest: in_set_dropD)

lemma set_strip_suffix: "strip_suffix p s = Some t \<Longrightarrow> set t \<subseteq> set s"
  by (auto simp: strip_suffix_def split: if_splits dest: in_set_takeD)

lemma set_unquote: "unquote_http_value s = Inr t \<Longrightarrow> set t \<subseteq> set s"
  using set_trim [of s]
  by (auto simp: unquote_http_value_def Let_def split: if_splits option.splits
      dest!: set_unescape set_strip_prefix set_strip_suffix)

lemma set_split_quotes: "x \<in> set (split_quotes_scan d acc q e s) \<Longrightarrow> set x \<subseteq> set acc \<union> set s"
proof (induction d acc q e s rule: split_quotes_scan.induct)
  case (1 d acc q e)
  then show ?case using set_trim [of "rev acc"] by simp
next
  case (2 d acc q e b bs)
  then show ?case using set_trim [of "rev acc"] by (auto split: if_splits)
qed

definition visible_params :: "forwarded_params \<Rightarrow> bool" where
  "visible_params ps \<longleftrightarrow> (case fp_for ps of None \<Rightarrow> True | Some n \<Rightarrow> wf_node n) \<and>
     visible_opt (fp_proto ps) \<and> visible_opt (fp_host ps) \<and> visible_opt (fp_by ps)"

lemma visible_parse_param:
  assumes "visible_params ps" and "list_all visible_ascii p" and "parse_forwarded_param ps p = Inr ps'"
  shows "visible_params ps'"
proof (cases "split_once (CHR ''='') p")
  case None
  then show ?thesis using assms(1,3) unfolding parse_forwarded_param_def None by simp
next
  case (Some kv)
  obtain k v where kv: "kv = (k, v)" by (cases kv)
  have v: "list_all visible_ascii t" if "unquote_http_value (trim v) = Inr t" for t
    using set_unquote [OF that] set_trim [of v] set_split_once [OF Some [unfolded kv]] assms(2)
    unfolding list_all_iff by blast
  then show ?thesis
    using assms Some kv
    by (auto simp: parse_forwarded_param_def visible_params_def visible_opt_def Let_def split: if_splits dest: wf_parse_node)
qed

lemma visible_parse_params:
  "visible_params ps \<Longrightarrow> \<forall>p \<in> set l. list_all visible_ascii p \<Longrightarrow> parse_forwarded_params ps l = Inr ps' \<Longrightarrow> visible_params ps'"
  by (induction ps l rule: parse_forwarded_params.induct) (auto dest: visible_parse_param)

lemma wf_parse_entry:
  assumes "list_all visible_ascii s" and "parse_forwarded_header_entry s = Inr e"
  shows "wf_entry e"
proof -
  have "\<forall>p \<in> set (split_respecting_quotes s (CHR '';'')). list_all visible_ascii p"
    using assms(1) set_split_quotes [of _ "CHR '';''" "[]" False False s]
    by (auto simp: split_respecting_quotes_def list_all_iff)
  then have fil: "\<forall>p \<in> set (filter (\<lambda>p. p \<noteq> []) (split_respecting_quotes s (CHR '';''))). list_all visible_ascii p"
    by simp
  let ?p0 = "\<lparr>fp_for = None, fp_proto = None, fp_host = None, fp_by = None\<rparr>"
  have p0: "visible_params ?p0" by (simp add: visible_params_def visible_opt_def)
  obtain ps n where ps: "parse_forwarded_params ?p0 (filter (\<lambda>p. p \<noteq> []) (split_respecting_quotes s (CHR '';''))) = Inr ps"
      and n: "fp_for ps = Some n"
      and e: "\<lparr>fe_for = n, fe_proto = fp_proto ps, fe_host = fp_host ps, fe_by = fp_by ps\<rparr> = e"
    using assms(2) unfolding parse_forwarded_header_entry_def rbind_eq_Inr ok_or_eq_Inr sum.inject by blast
  have "visible_params ps" by (rule visible_parse_params [OF p0 fil ps])
  with n show ?thesis unfolding e [symmetric] by (simp add: wf_entry_def visible_params_def)
qed

lemma wf_node_ip: "wf_node n \<Longrightarrow> fn_ip n = Some ip \<Longrightarrow> canonicalize_ip ip = ip"
  by (auto simp: wf_node_def split: forwarded_node_raw.splits)

lemma colons_display_ipv6: "2 \<le> length (filter (\<lambda>c. c = CHR '':'') (display_ipv6 v))"
proof -
  have cg: "length ss \<le> length (filter (\<lambda>c. c = CHR '':'') (colon_groups ss))" for ss
    by (induction ss) simp_all
  have "7 \<le> length (filter (\<lambda>c. c = CHR '':'') (fmt_subslice (segments v)))"
    using cg [of "tl (segments v)"] by (cases v) (simp add: le_trans [OF _ le_add2])
  then show ?thesis
    by (auto simp: display_ipv6_def Let_def split: option.splits prod.splits)
qed

lemma unquote_display: "unquote_http_value (display_ip ip) = Inr (display_ip ip)"
proof -
  have *: "\<forall>c \<in> set (display_ip ip). \<not> is_whitespace c \<and> c \<noteq> CHR 0x22"
    using display_ip_ip_char ip_char_node node_char_facts(1,2) by blast
  have "trim (display_ip ip) = display_ip ip" by (rule trim_no_ws) (use * in blast)
  moreover have "\<not> starts_with (display_ip ip) [CHR 0x22]"
    using * by (cases "display_ip ip") (simp_all del: list.set_intros)
  ultimately show ?thesis by (simp add: unquote_http_value_def)
qed

lemma parse_ip_token_display:
  assumes "canonicalize_ip ip = ip"
  shows "parse_forwarded_ip_token (display_ip ip) = Inr ip"
proof (cases ip)
  case (V4 v)
  have "parse_forwarded_node (display_ip ip) = Inr (ip_node ip None)"
  proof (rule parse_node_text)
    show "wf_node (ip_node ip None)" using assms by (simp add: wf_node_def)
    show "unquote_http_value (display_ip ip) = Inr (node_text (ip_node ip None))"
      using V4 unquote_display [of ip] by (simp add: name_text_def port_text_def)
  qed
  then show ?thesis by (simp add: parse_forwarded_ip_token_def)
next
  case (V6 v)
  have ch: "\<forall>c \<in> set (display_ipv6 v). ip_char c" using display_ip_ip_char [of _ "V6 v"] by simp
  have un: "unquote_http_value (display_ipv6 v) = Inr (display_ipv6 v)" using unquote_display [of "V6 v"] by simp
  have no: "\<not> starts_with (display_ipv6 v) ''[''" "\<not> starts_with (display_ipv6 v) ''_''"
    using ch by (cases "display_ipv6 v"; auto simp: ip_char_def rust_simps)+
  have colon: "CHR '':'' \<in> set (display_ipv6 v)"
  proof (rule ccontr)
    assume "CHR '':'' \<notin> set (display_ipv6 v)"
    then have "filter (\<lambda>c. c = CHR '':'') (display_ipv6 v) = []" by (auto simp: filter_empty_conv)
    then show False using colons_display_ipv6 [of v] by simp
  qed
  have "length (filter (\<lambda>c. c = CHR '':'') (display_ipv6 v)) \<noteq> 1" using colons_display_ipv6 [of v] by simp
  moreover have "\<not> is_forwarded_obfuscated_id (display_ipv6 v)" using no(2) by (auto simp: obf_shape)
  ultimately have "parse_forwarded_node (display_ipv6 v) = Inr (ip_node (V6 v) None)"
    using un no unknown_no_colon [OF colon] parse_ip_display [OF assms] V6
    by (simp add: parse_forwarded_node_def parse_node_no_port_def unbracket_no_open)
  then show ?thesis using V6 by (simp add: parse_forwarded_ip_token_def)
qed

section \<open>One hop\<close>

lemma wf_outgoing_entries:
  assumes "canonicalize_ip peer = peer" and "visible_opt host"
  shows "wf_entry (build_peer_forwarded_entry peer tls host)"
  using assms
  by (simp add: wf_entry_def build_peer_forwarded_entry_def wf_node_def visible_opt_def visible_ascii_def rust_simps)

lemma set_reduce: "set (reduce_trusted_proxy_chain N t chain) \<subseteq> set chain"
  using reduce_suffix [of N t chain] by (rule set_mono_suffix)

text \<open>The entries that \<open>parse_x_forwarded_for_header\<close> builds from addresses and a protocol.\<close>

definition xff_entry :: "nat \<Rightarrow> bytes option \<Rightarrow> nat \<times> ip_addr \<Rightarrow> forwarded_entry" where
  "xff_entry last_idx proto = (\<lambda>(idx, ip). \<lparr>fe_for = ip_node ip None,
     fe_proto = (if idx = last_idx then proto else None), fe_host = None, fe_by = None\<rparr>)"

context header_laws
begin

lemma join_header_values_visible:
  assumes "join_header_values H h k = Inr (Some s)"
  shows "list_all visible_ascii s"
proof -
  obtain ss where ss: "list_all2 (\<lambda>v s. ok_or (hv_to_str H v) (Anyhow ''invalid header value'') = Inr s) (hm_get_all H h k) ss"
      and s: "s = join '', '' ss"
    using assms by (auto simp: join_header_values_def try_map_Inr_iff split: list.splits)
  have "\<forall>x \<in> set ss. list_all visible_ascii x"
    using ss by (induction rule: list_all2_induct) (auto simp: to_str_law split: if_splits)
  then show ?thesis unfolding s by (intro list_all_join) (auto simp: list_all_iff visible_ascii_def rust_simps)
qed

lemma join_header_values_one:
  "hm_get_all H h k = [v] \<Longrightarrow> list_all visible_ascii v \<Longrightarrow> join_header_values H h k = Inr (Some v)"
  by (simp add: join_header_values_def to_str_law)

lemma wf_parse_forwarded:
  assumes "parse_forwarded_header H h = Inr chain" and "e \<in> set chain"
  shows "wf_entry e"
proof -
  obtain s where s: "join_header_values H h FORWARDED = Inr (Some s)"
    and p: "try_map parse_forwarded_header_entry (filter (\<lambda>e. e \<noteq> []) (split_respecting_quotes s (CHR '',''))) = Inr chain"
    using assms(1) unfolding parse_forwarded_header_def by auto
  obtain x where x: "x \<in> set (split_respecting_quotes s (CHR '',''))" "parse_forwarded_header_entry x = Inr e"
    using try_map_elem [OF p assms(2)] by auto
  have "list_all visible_ascii x"
    using join_header_values_visible [OF s] set_split_quotes [of x "CHR '',''" "[]" False False s] x(1)
    by (auto simp: split_respecting_quotes_def list_all_iff)
  then show ?thesis using x(2) by (rule wf_parse_entry)
qed

lemma wf_parse_xff:
  assumes "parse_x_forwarded_for_header H h None = Inr chain" and "e \<in> set chain"
  shows "wf_entry e"
proof -
  obtain p where p: "first_header_value H h X_FORWARDED_PROTO = Inr p"
    using assms(1) unfolding parse_x_forwarded_for_header_def by auto
  have pv: "visible_opt (map_option trim p)"
  proof (cases p)
    case (Some s)
    then have "list_all visible_ascii s"
      using p by (auto simp: first_header_value_def to_str_law split: option.splits if_splits)
    then show ?thesis using Some set_trim [of s] by (auto simp: visible_opt_def list_all_iff)
  qed (simp add: visible_opt_def)
  obtain xff where tm: "try_map (\<lambda>(idx, ip).
            rbind (parse_forwarded_ip_token ip) (\<lambda>for_ip.
              Inr \<lparr>fe_for = ip_node for_ip None,
                   fe_proto = (if idx = length (filter (\<lambda>s. s \<noteq> []) (map trim (split_on (CHR '','') xff))) - 1
                     then map_option trim p else None),
                   fe_host = (if idx = length (filter (\<lambda>s. s \<noteq> []) (map trim (split_on (CHR '','') xff))) - 1 then None else None),
                   fe_by = None\<rparr>)) (enumerate 0 (filter (\<lambda>s. s \<noteq> []) (map trim (split_on (CHR '','') xff)))) = Inr chain"
    using assms(1) p unfolding parse_x_forwarded_for_header_def rbind_eq_Inr Let_def by auto
  from try_map_elem [OF tm assms(2)] obtain s ip b where ip: "parse_forwarded_ip_token s = Inr ip"
    and e: "e = \<lparr>fe_for = ip_node ip None, fe_proto = (if b then map_option trim p else None), fe_host = None, fe_by = None\<rparr>"
    by auto
  have "canonicalize_ip ip = ip"
    using ip by (auto simp: parse_forwarded_ip_token_def dest: wf_parse_node wf_node_ip)
  then show ?thesis using pv unfolding e by (simp add: wf_entry_def wf_node_def visible_opt_def)
qed

lemma wf_outgoing_chain:
  assumes "canonicalize_ip peer = peer" and "visible_opt host"
  shows "\<forall>e \<in> set (outgoing_chain H N h peer tls host t). wf_entry e"
proof -
  note p = wf_outgoing_entries [OF assms]
  have ex: "wf_entry e" if "extract_forwarding_chain_from_headers H h None = Inr (Some chain)" "e \<in> set chain" for chain e
  proof -
    have "parse_forwarded_header H h = Inr chain \<or> parse_x_forwarded_for_header H h None = Inr chain"
      using that(1) unfolding extract_forwarding_chain_from_headers_def
      by (auto split: if_splits option.splits sum.splits)
    then show ?thesis using wf_parse_forwarded wf_parse_xff that(2) by blast
  qed
  have "\<forall>e \<in> set (normalize_forwarding_chain H N h peer tls host t). wf_entry e"
    using p ex unfolding normalize_forwarding_chain_def Let_def
    by (auto split: if_splits option.splits sum.splits dest!: subsetD [OF set_reduce])
  then show ?thesis using p by (auto simp: outgoing_chain_def Let_def)
qed

lemma parse_xff_written:
  assumes x: "hm_get_all H h X_FORWARDED_FOR = [join '', '' (map display_ip ips)]"
    and p: "hm_get_all H h X_FORWARDED_PROTO = [p]" "list_all visible_ascii p"
    and ips: "ips \<noteq> []" "\<forall>ip \<in> set ips. canonicalize_ip ip = ip"
  shows "parse_x_forwarded_for_header H h None = Inr (map (xff_entry (length ips - 1) (Some (trim p))) (enumerate 0 ips))"
proof -
  have nc: "\<forall>t \<in> set (map display_ip ips). CHR '','' \<notin> set t \<and> trim t = t \<and> t \<noteq> []"
  proof
    fix t assume "t \<in> set (map display_ip ips)"
    then obtain ip where t: "t = display_ip ip" "parse_forwarded_ip_token t = Inr ip"
      using ips(2) parse_ip_token_display by auto
    have ch: "\<forall>c \<in> set t. \<not> is_whitespace c \<and> c \<noteq> CHR '',''"
      using display_ip_ip_char [of _ ip] ip_char_node node_char_facts(1,5) unfolding t(1) by blast
    have "t \<noteq> []" unfolding t(1) by (metis ip_from_str_Nil ip_from_str_display option.distinct(1))
    then show "CHR '','' \<notin> set t \<and> trim t = t \<and> t \<noteq> []" using ch trim_no_ws [of t] by blast
  qed
  have "map trim (split_on (CHR '','') (join '', '' (map display_ip ips))) = map display_ip ips"
    using nc ips(1) by (intro map_trim_split_join) (auto simp: rust_simps)
  moreover have "filter (\<lambda>s. s \<noteq> []) (map display_ip ips) = map display_ip ips" using nc by (intro filter_True) auto
  ultimately have sp: "filter (\<lambda>s. s \<noteq> []) (map trim (split_on (CHR '','') (join '', '' (map display_ip ips)))) = map display_ip ips"
    by simp
  have "list_all visible_ascii (join '', '' (map display_ip ips))"
    using display_ip_visible by (intro list_all_join) (auto simp: list_all_iff visible_ascii_def rust_simps)
  then have "join_header_values H h X_FORWARDED_FOR = Inr (Some (join '', '' (map display_ip ips)))"
    using x by (rule join_header_values_one [rotated])
  moreover have "first_header_value H h X_FORWARDED_PROTO = Inr (Some p)"
    using p by (simp add: first_header_value_def get_law first_value_def to_str_law)
  ultimately show ?thesis
    using ips(2) parse_ip_token_display
    by (simp only: parse_x_forwarded_for_header_def rbind_simps ok_or_simps Let_def option.map sp)
      (simp add: try_map_Inr_iff list_all2_conv_all_nth nth_enumerate_eq xff_entry_def)
qed

end

lemma map_ip_xff: "map (\<lambda>e. fn_ip (fe_for e)) (map (xff_entry k p) (enumerate n ips)) = map Some ips"
  by (induction ips arbitrary: n) (simp_all add: xff_entry_def)

lemma last_xff:
  assumes "ips \<noteq> []"
  shows "fe_proto (last (map (xff_entry (length ips - 1) p) (enumerate 0 ips))) = p"
proof -
  have "enumerate 0 ips \<noteq> []" using assms by (metis length_0_conv length_enumerate)
  then show ?thesis using assms by (simp add: last_map last_conv_nth nth_enumerate_eq xff_entry_def)
qed

text \<open>
  C17: One hop.  A proxy that reads the headers written by \<open>add_forwarding_header\<close> gets back the
  addresses of the chain that was written; and when the request carried a \<open>Forwarded\<close> header, the two
  written headers are found consistent and the whole chain, with the protocol, host and by parameters
  of every entry, is read back.
\<close>

theorem forwarding_chain_hop_roundtrip:
  fixes client_addr :: socket_addr
  assumes laws: "header_laws H" and N: "itoa_law N" and host: "visible_opt host"
    and ok: "add_forwarding_header H U N h client_addr listen_addr tls uri host t = Inr h'"
  defines "chain \<equiv> outgoing_chain H N h (canonicalize_ip (sa_ip client_addr)) tls host t"
  shows "\<exists>received. extract_forwarding_chain_from_headers H h' None = Inr (Some received) \<and>
           map (\<lambda>e. fn_ip (fe_for e)) received = map (\<lambda>e. fn_ip (fe_for e)) chain \<and>
           (hm_contains_key H h FORWARDED \<longrightarrow> received = chain)"
proof -
  let ?peer = "canonicalize_ip (sa_ip client_addr)"
  let ?ips = "outgoing_ips H N h ?peer tls host t"
  let ?p = "if tls then ''https'' else ''http''"
  note vals = header_laws.add_forwarding_header_values [OF laws N ok]
  note sh = outgoing_chain_shape [where H = H and N = N and h = h and peer = ?peer and tls = tls and host = host and t = t]
  have wf: "\<forall>e \<in> set chain. wf_entry e"
    unfolding chain_def by (rule header_laws.wf_outgoing_chain [OF laws _ host]) simp
  have ips: "map Some ?ips = map (\<lambda>e. fn_ip (fe_for e)) chain"
    using sh(4) unfolding chain_def outgoing_ips_def by simp
  have can: "\<forall>ip \<in> set ?ips. canonicalize_ip ip = ip"
    using wf sh(4) unfolding chain_def outgoing_ips_def wf_entry_def by (fastforce dest: wf_node_ip)
  let ?xff = "map (xff_entry (length ?ips - 1) (Some ?p)) (enumerate 0 ?ips)"
  have vp: "list_all visible_ascii ?p" "trim ?p = ?p"
    by (simp_all add: visible_ascii_def rust_simps trim_def)
  have xff: "parse_x_forwarded_for_header H h' None = Inr ?xff"
    using header_laws.parse_xff_written [OF laws vals(1,3) vp(1) outgoing_ips_shape(1) can] unfolding vp(2) .
  have cx: "hm_contains_key H h' X_FORWARDED_FOR" by (simp add: header_laws.contains_law [OF laws] vals(1))
  show ?thesis
  proof (cases "hm_contains_key H h FORWARDED")
    case True
    obtain v where v: "generate_forwarded_header N chain = Inr v" "list_all visible_ascii v"
      and pv: "try_map parse_forwarded_header_entry (filter (\<lambda>e. e \<noteq> []) (split_respecting_quotes v (CHR '',''))) = Inr chain"
      using written_chain [OF N wf] sh(1) unfolding chain_def by blast
    have fv: "hm_get_all H h' FORWARDED = [v]"
      using vals(9) True v(1) unfolding chain_def by (simp add: header_laws.contains_law [OF laws])
    have "parse_forwarded_header H h' = Inr chain"
      using header_laws.join_header_values_one [OF laws fv v(2)] pv by (simp add: parse_forwarded_header_def)
    moreover have "forwarded_is_consistent chain ?xff"
    proof -
      have "map (\<lambda>e. fn_ip (fe_for e)) chain = map (\<lambda>e. fn_ip (fe_for e)) ?xff"
        by (simp only: map_ip_xff ips)
      moreover from this have "length chain = length ?xff" by (metis length_map)
      moreover have "fe_proto (last chain) = Some ?p"
        unfolding chain_def sh(2) by (simp add: build_peer_forwarded_entry_def)
      ultimately show ?thesis
        using last_xff [OF outgoing_ips_shape(1) [where H = H and N = N and h = h and peer = ?peer and tls = tls and
              host = host and t = t], of "Some ?p"] vp(2)
        by (auto simp: forwarded_is_consistent_def split: option.splits)
    qed
    ultimately have "extract_forwarding_chain_from_headers H h' None = Inr (Some chain)"
      using xff cx fv by (simp add: extract_forwarding_chain_from_headers_def header_laws.contains_law [OF laws])
    then show ?thesis by blast
  next
    case False
    then have "hm_get_all H h' FORWARDED = []" using vals(9) by (simp add: header_laws.contains_law [OF laws])
    then have "extract_forwarding_chain_from_headers H h' None = Inr (Some ?xff)"
      using xff cx by (simp add: extract_forwarding_chain_from_headers_def header_laws.contains_law [OF laws])
    then show ?thesis using False map_ip_xff ips by metis
  qed
qed

theorem forwarding_chain_hop_roundtrip_witness:
  "\<exists>h' received. sample_forwarding = Inr h' \<and>
     extract_forwarding_chain_from_headers lines_api h' None = Inr (Some received) \<and>
     map (\<lambda>e. fn_ip (fe_for e)) received = [Some sample_peer]"
proof -
  obtain h' where h': "sample_forwarding = Inr h'" using sample_forwarding_ok by blast
  have "visible_opt None" by (simp add: visible_opt_def)
  note hop = forwarding_chain_hop_roundtrip [OF header_lines.header_laws_axioms sample_itoa this h' [unfolded sample_forwarding_def]]
  have "outgoing_chain lines_api sample_net_api [(X_FORWARDED_FOR, ''1.1.1.1'')] sample_peer True None
          [V4 (Ipv4Addr 10 0 0 2)] = [build_peer_forwarded_entry sample_peer True None]"
    by (rule outgoing_chain_shape(5) [OF sample_peer_untrusted])
  with hop h' show ?thesis by (auto simp: sample_peer_canonical)
qed

end
