(* ===== verification/Cache_Tasks.thy ===== *)
theory Cache_Tasks
  imports Cache_Lru
begin

text \<open>
  The cache under concurrency.  Every store and every lookup is a task of the runtime; the map is
  under a mutex, the file count is an atomic, and the files are touched under no lock at all
  (\<open>publish_cache_object\<close>, \<open>RpxyCache::get\<close>, \<open>FileStore::remove\<close>).  A step is one critical section,
  one atomic operation or one file operation of one task.  The theory shows that the order of the
  operations is enough: files are never counted wrongly, a live file is never removed, and no file is
  left behind.
\<close>

section \<open>Tasks and steps\<close>

text \<open>
  Where a task stands: writing the file that will have the given path; about to count a new object;
  about to push it; holding the object a lookup returned; about to decrement the file count for an
  evicted file; about to unlink it.
\<close>

datatype 'p task =
    Spooling path
  | PubCount bytes "'p cache_object"
  | PubPush bytes "'p cache_object"
  | Loaded bytes "'p cache_object"
  | RemoveCount path
  | RemoveFile path

record ('c, 'p) cache_sys =
  cy_lru :: "'c lru_manager"
  cy_cnt :: usize
  cy_files :: "path set"
  cy_gen :: u64
  cy_seq :: u64
  cy_tasks :: "'p task multiset"

definition cache_init :: "'c lru_manager \<Rightarrow> ('c, 'p) cache_sys" where
  "cache_init lm = \<lparr>cy_lru = lm, cy_cnt = 0, cy_files = {}, cy_gen = 0, cy_seq = 0, cy_tasks = {#}\<rparr>"

text \<open>What becomes of a task that has to evict the file of an object.\<close>

definition evict_task :: "'p cache_object \<Rightarrow> 'p task multiset" where
  "evict_task obj = (case target_file (co_target obj) of None \<Rightarrow> {#} | Some p \<Rightarrow> {#RemoveCount p#})"

text \<open>The steps, each on the state without the task that takes it.\<close>

definition task_start_file :: "path \<Rightarrow> ('c, 'p) cache_sys \<Rightarrow> ('c, 'p) cache_sys" where
  "task_start_file p s = s\<lparr>cy_seq := cy_seq s + 1, cy_tasks := add_mset (Spooling p) (cy_tasks s)\<rparr>"

definition task_store :: "bytes \<Rightarrow> 'p \<Rightarrow> cache_target \<Rightarrow> bytes \<Rightarrow> ('c, 'p) cache_sys \<Rightarrow> ('c, 'p) cache_sys" where
  "task_store key policy target hash s =
     (case cache_object_new (cy_gen s) policy target hash of
        (obj, gen) \<Rightarrow>
          s\<lparr>cy_gen := gen, cy_files := cy_files s \<union> set_option (target_file target),
            cy_tasks := add_mset (PubCount key obj) (cy_tasks s)\<rparr>)"

definition task_count :: "bytes \<Rightarrow> 'p cache_object \<Rightarrow> ('c, 'p) cache_sys \<Rightarrow> ('c, 'p) cache_sys" where
  "task_count key obj s =
     s\<lparr>cy_cnt := (if target_file (co_target obj) \<noteq> None then cy_cnt s + 1 else cy_cnt s),
       cy_tasks := add_mset (PubPush key obj) (cy_tasks s)\<rparr>"

definition task_push :: "('c, 'p cache_object) lru_api \<Rightarrow> bytes \<Rightarrow> 'p cache_object \<Rightarrow> ('c, 'p) cache_sys \<Rightarrow> ('c, 'p) cache_sys" where
  "task_push L key obj s =
     (case lru_manager_push L (cy_lru s) key obj of
        (Inl e, lm) \<Rightarrow> s\<lparr>cy_lru := lm, cy_tasks := cy_tasks s + evict_task obj\<rparr>
      | (Inr None, lm) \<Rightarrow> s\<lparr>cy_lru := lm\<rparr>
      | (Inr (Some (_, v)), lm) \<Rightarrow>
          s\<lparr>cy_lru := lm,
            cy_tasks := cy_tasks s +
              (if target_file (co_target v) = target_file (co_target obj) then {#} else evict_task v)\<rparr>)"

definition task_lookup :: "('c, 'p cache_object) lru_api \<Rightarrow> bytes \<Rightarrow> ('c, 'p) cache_sys \<Rightarrow> ('c, 'p) cache_sys" where
  "task_lookup L key s =
     (case lru_manager_get L (cy_lru s) key of
        (Inr (Some obj), lm) \<Rightarrow> s\<lparr>cy_lru := lm, cy_tasks := add_mset (Loaded key obj) (cy_tasks s)\<rparr>
      | (_, lm) \<Rightarrow> s\<lparr>cy_lru := lm\<rparr>)"

definition task_evict :: "('c, 'p cache_object) lru_api \<Rightarrow> bytes \<Rightarrow> 'p cache_object \<Rightarrow> ('c, 'p) cache_sys \<Rightarrow> ('c, 'p) cache_sys" where
  "task_evict L key obj s =
     (case evict_if_generation L (cy_lru s) key (co_generation obj) of
        (None, lm) \<Rightarrow> s\<lparr>cy_lru := lm\<rparr>
      | (Some _, lm) \<Rightarrow> s\<lparr>cy_lru := lm, cy_tasks := cy_tasks s + evict_task obj\<rparr>)"

definition task_remove_count :: "path \<Rightarrow> ('c, 'p) cache_sys \<Rightarrow> ('c, 'p) cache_sys" where
  "task_remove_count p s = s\<lparr>cy_cnt := saturating_dec (cy_cnt s), cy_tasks := add_mset (RemoveFile p) (cy_tasks s)\<rparr>"

definition task_remove_file :: "path \<Rightarrow> ('c, 'p) cache_sys \<Rightarrow> ('c, 'p) cache_sys" where
  "task_remove_file p s = s\<lparr>cy_files := cy_files s - {p}\<rparr>"

abbreviation without :: "'p task multiset \<Rightarrow> ('c, 'p) cache_sys \<Rightarrow> ('c, 'p) cache_sys" where
  "without ts s \<equiv> s\<lparr>cy_tasks := ts\<rparr>"

text \<open>
  The step relation.  The clock and the URI of a new file are arbitrary, its sequence number is the
  counter's.  With \<open>faulty\<close>, an unlink may fail and a file may vanish (the integrity check, or
  something outside the proxy).  A panic elsewhere may poison the mutex.
\<close>

inductive cache_step :: "('c, 'p cache_object) lru_api \<Rightarrow> (u64 \<Rightarrow> path set) \<Rightarrow> bool \<Rightarrow> ('c, 'p) cache_sys \<Rightarrow> ('c, 'p) cache_sys \<Rightarrow> bool"
  for L :: "('c, 'p cache_object) lru_api" and names :: "u64 \<Rightarrow> path set" and faulty :: bool where
  start_file: "p \<in> names (cy_seq s) \<Longrightarrow> cache_step L names faulty s (task_start_file p s)"
| abandon: "cy_tasks s = add_mset (Spooling p) ts \<Longrightarrow> cache_step L names faulty s (without ts s)"
| commit: "cy_tasks s = add_mset (Spooling p) ts \<Longrightarrow>
    cache_step L names faulty s (task_store key policy (TargetFile p) hash (without ts s))"
| store_memory: "cache_step L names faulty s (task_store key policy (OnMemory d) hash s)"
| count_new: "cy_tasks s = add_mset (PubCount key obj) ts \<Longrightarrow> cache_step L names faulty s (task_count key obj (without ts s))"
| push_new: "cy_tasks s = add_mset (PubPush key obj) ts \<Longrightarrow> cache_step L names faulty s (task_push L key obj (without ts s))"
| lookup: "cache_step L names faulty s (task_lookup L key s)"
| served: "cy_tasks s = add_mset (Loaded key obj) ts \<Longrightarrow> cache_step L names faulty s (without ts s)"
| evict: "cy_tasks s = add_mset (Loaded key obj) ts \<Longrightarrow> cache_step L names faulty s (task_evict L key obj (without ts s))"
| remove_count: "cy_tasks s = add_mset (RemoveCount p) ts \<Longrightarrow> cache_step L names faulty s (task_remove_count p (without ts s))"
| remove_file: "cy_tasks s = add_mset (RemoveFile p) ts \<Longrightarrow> cache_step L names faulty s (task_remove_file p (without ts s))"
| remove_fails: "faulty \<Longrightarrow> cy_tasks s = add_mset (RemoveFile p) ts \<Longrightarrow> cache_step L names faulty s (without ts s)"
| lost: "faulty \<Longrightarrow> cache_step L names faulty s (task_remove_file p s)"
| poison: "cache_step L names faulty s (s\<lparr>cy_lru := (cy_lru s)\<lparr>lm_poisoned := True\<rparr>\<rparr>)"

inductive cache_run :: "('c, 'p cache_object) lru_api \<Rightarrow> (u64 \<Rightarrow> path set) \<Rightarrow> bool \<Rightarrow> usize \<Rightarrow> nat \<Rightarrow> ('c, 'p) cache_sys \<Rightarrow> bool"
  for L :: "('c, 'p cache_object) lru_api" and names :: "u64 \<Rightarrow> path set" and faulty :: bool and max_entry :: usize where
  init: "lru_manager_new L max_entry = Some lm \<Longrightarrow> cache_run L names faulty max_entry 0 (cache_init lm)"
| step: "cache_run L names faulty max_entry n s \<Longrightarrow> cache_step L names faulty s t \<Longrightarrow> cache_run L names faulty max_entry (Suc n) t"

text \<open>The names \<open>unique_cache_paths\<close> can give with one sequence number.\<close>

definition cache_names :: "cache_digest \<Rightarrow> 'u uri_api \<Rightarrow> nat \<Rightarrow> path \<Rightarrow> u64 \<Rightarrow> path set" where
  "cache_names D U pid dir seq = {snd (unique_cache_paths D U pid dir uri nanos seq) | uri nanos. True}"

definition distinct_names :: "(u64 \<Rightarrow> path set) \<Rightarrow> bool" where
  "distinct_names names \<longleftrightarrow> (\<forall>a b. a \<noteq> b \<longrightarrow> names a \<inter> names b = {})"

lemma distinct_cache_names: "distinct_names (cache_names D U pid dir)"
  unfolding distinct_names_def cache_names_def
proof (intro allI impI equals0I)
  fix a b p
  assume "a \<noteq> b" and "p \<in> {snd (unique_cache_paths D U pid dir uri nanos a) | uri nanos. True} \<inter>
      {snd (unique_cache_paths D U pid dir uri nanos b) | uri nanos. True}"
  then show False using unique_cache_paths_inject [of a b D U pid dir _ _ pid] by blast
qed

section \<open>Ownership\<close>

definition obj_paths :: "'p cache_object \<Rightarrow> path multiset" where
  "obj_paths obj = (case target_file (co_target obj) of None \<Rightarrow> {#} | Some p \<Rightarrow> {#p#})"

text \<open>The paths a task answers for; the ones it has counted; the ones of files it has committed.\<close>

fun task_paths :: "'p task \<Rightarrow> path multiset" where
  "task_paths (Spooling p) = {#p#}"
| "task_paths (PubCount _ obj) = obj_paths obj"
| "task_paths (PubPush _ obj) = obj_paths obj"
| "task_paths (Loaded _ _) = {#}"
| "task_paths (RemoveCount p) = {#p#}"
| "task_paths (RemoveFile p) = {#p#}"

fun counted_paths :: "'p task \<Rightarrow> path multiset" where
  "counted_paths (PubPush _ obj) = obj_paths obj"
| "counted_paths (RemoveCount p) = {#p#}"
| "counted_paths _ = {#}"

fun committed_paths :: "'p task \<Rightarrow> path multiset" where
  "committed_paths (Spooling p) = {#}"
| "committed_paths t = task_paths t"

fun task_objs :: "'p task \<Rightarrow> 'p cache_object set" where
  "task_objs (PubCount _ obj) = {obj}"
| "task_objs (PubPush _ obj) = {obj}"
| "task_objs (Loaded _ obj) = {obj}"
| "task_objs _ = {}"

abbreviation entries :: "('c, 'p cache_object) lru_api \<Rightarrow> ('c, 'p) cache_sys \<Rightarrow> 'p cache_object multiset" where
  "entries L s \<equiv> lru_values L (lm_inner (cy_lru s))"

abbreviation entry_paths :: "('c, 'p cache_object) lru_api \<Rightarrow> ('c, 'p) cache_sys \<Rightarrow> path multiset" where
  "entry_paths L s \<equiv> sum_mset (image_mset obj_paths (entries L s))"

abbreviation over_tasks :: "('p task \<Rightarrow> path multiset) \<Rightarrow> ('c, 'p) cache_sys \<Rightarrow> path multiset" where
  "over_tasks f s \<equiv> sum_mset (image_mset f (cy_tasks s))"

definition owned :: "('c, 'p cache_object) lru_api \<Rightarrow> ('c, 'p) cache_sys \<Rightarrow> path multiset" where
  "owned L s = entry_paths L s + over_tasks task_paths s"

definition counted :: "('c, 'p cache_object) lru_api \<Rightarrow> ('c, 'p) cache_sys \<Rightarrow> path multiset" where
  "counted L s = entry_paths L s + over_tasks counted_paths s"

definition committed :: "('c, 'p cache_object) lru_api \<Rightarrow> ('c, 'p) cache_sys \<Rightarrow> path multiset" where
  "committed L s = entry_paths L s + over_tasks committed_paths s"

definition sys_objs :: "('c, 'p cache_object) lru_api \<Rightarrow> ('c, 'p) cache_sys \<Rightarrow> 'p cache_object set" where
  "sys_objs L s = set_mset (entries L s) \<union> \<Union> (task_objs ` set_mset (cy_tasks s))"

lemmas task_step_defs = task_start_file_def task_store_def task_count_def task_lookup_def task_remove_count_def
  task_remove_file_def cache_object_new_def

lemmas path_sum_defs = owned_def counted_def committed_def

lemma sum_paths_mono: "(\<And>t. f t \<subseteq># g t) \<Longrightarrow> sum_mset (image_mset f M) \<subseteq># sum_mset (image_mset g M)"
  by (induction M) (auto intro: subset_mset.add_mono)

lemma counted_sub_owned: "counted L s \<subseteq># owned L s"
proof -
  have "counted_paths t \<subseteq># task_paths t" for t :: "'b task" by (cases t) simp_all
  then show ?thesis unfolding counted_def owned_def by (intro subset_mset.add_left_mono sum_paths_mono)
qed

lemma committed_sub_owned: "committed L s \<subseteq># owned L s"
proof -
  have "committed_paths t \<subseteq># task_paths t" for t :: "'b task" by (cases t) simp_all
  then show ?thesis unfolding committed_def owned_def by (intro subset_mset.add_left_mono sum_paths_mono)
qed

lemma evict_task_paths:
  "sum_mset (image_mset task_paths (evict_task obj)) = obj_paths obj"
  "sum_mset (image_mset counted_paths (evict_task obj)) = obj_paths obj"
  "sum_mset (image_mset committed_paths (evict_task obj)) = obj_paths obj"
  by (simp_all add: evict_task_def obj_paths_def split: option.splits)

lemma evict_task_objs: "t \<in># evict_task obj \<Longrightarrow> task_objs t = {}"
  by (auto simp: evict_task_def split: option.splits)

lemma obj_paths_cases: "obj_paths obj = {#} \<and> target_file (co_target obj) = None \<or>
    (\<exists>p. obj_paths obj = {#p#} \<and> target_file (co_target obj) = Some p)"
  by (cases "target_file (co_target obj)") (simp_all add: obj_paths_def)

subsection \<open>The invariant\<close>

definition paths_inv :: "('c, 'p cache_object) lru_api \<Rightarrow> (u64 \<Rightarrow> path set) \<Rightarrow> nat \<Rightarrow> ('c, 'p) cache_sys \<Rightarrow> bool" where
  "paths_inv L names n s \<longleftrightarrow> (\<forall>p. count (owned L s) p \<le> 1) \<and> (\<forall>p \<in># owned L s. \<exists>q. unat q < unat (cy_seq s) \<and> p \<in> names q) \<and>
     size (owned L s) \<le> unat (cy_seq s) \<and> unat (cy_seq s) \<le> n"

definition gen_inv :: "('c, 'p cache_object) lru_api \<Rightarrow> nat \<Rightarrow> ('c, 'p) cache_sys \<Rightarrow> bool" where
  "gen_inv L n s \<longleftrightarrow> unat (cy_gen s) \<le> n \<and> (\<forall>obj \<in> sys_objs L s. unat (co_generation obj) < unat (cy_gen s)) \<and>
     (\<forall>a \<in> sys_objs L s. \<forall>b \<in> sys_objs L s. co_generation a = co_generation b \<longrightarrow> a = b)"

definition count_inv :: "('c, 'p cache_object) lru_api \<Rightarrow> ('c, 'p) cache_sys \<Rightarrow> bool" where
  "count_inv L s \<longleftrightarrow> unat (cy_cnt s) = size (counted L s)"

definition files_inv :: "('c, 'p cache_object) lru_api \<Rightarrow> bool \<Rightarrow> ('c, 'p) cache_sys \<Rightarrow> bool" where
  "files_inv L faulty s \<longleftrightarrow> (\<not> faulty \<longrightarrow> cy_files s = set_mset (committed L s))"

lemma unat_succ: "unat (w :: u64) < 2 ^ 64 - 1 \<Longrightarrow> unat (w + 1) = Suc (unat w)"
  by (simp add: unat_word_ariths)

locale cache_tasks = lru_laws L for L :: "('c, 'p cache_object) lru_api" +
  fixes names :: "u64 \<Rightarrow> path set"
  assumes names_law: "distinct_names names"
begin

subsection \<open>What the critical sections do to the entries\<close>

lemma push_entries:
  assumes "lru_manager_push L lm key obj = (Inr d, lm')"
  shows "lru_values L (lm_inner lm') + displaced_values d = add_mset obj (lru_values L (lm_inner lm))"
  using values_push [of "lm_inner lm" key obj] assms
  by (auto simp: lru_manager_push_def split: if_splits prod.splits)

lemma push_displaced:
  assumes "lru_manager_push L lm key obj = (Inr (Some (k, v)), lm')"
  shows "v \<in># lru_values L (lm_inner lm)"
proof -
  let ?c = "lm_inner lm"
  have f: "fst (lru_push L ?c key obj) = Some (k, v)"
    using assms by (auto simp: lru_manager_push_def split: if_splits prod.splits)
  show ?thesis
  proof (cases "lru_peek L ?c key")
    case (Some old)
    then show ?thesis using push_update_law(1) [OF Some, of obj] f peek_in_values by simp
  next
    case None
    then show ?thesis
      using push_room_law(1) [OF None, of obj] push_full_law [OF None, of obj] f peek_in_values
      by (cases "lru_len L ?c < lru_cap L ?c \<or> lru_len L ?c = 0") auto
  qed
qed

lemma push_failed: "lru_manager_push L lm key obj = (Inl e, lm') \<Longrightarrow> lm' = lm"
  by (auto simp: lru_manager_push_def split: if_splits prod.splits)

lemma get_entries:
  assumes "lru_manager_get L lm key = (r, lm')"
  shows "lru_values L (lm_inner lm') = lru_values L (lm_inner lm)"
    and "r = Inr (Some obj) \<Longrightarrow> obj \<in># lru_values L (lm_inner lm)"
proof -
  show "lru_values L (lm_inner lm') = lru_values L (lm_inner lm)"
    using assms values_get [of "lm_inner lm" key] by (auto simp: lru_manager_get_def split: if_splits prod.splits)
  show "obj \<in># lru_values L (lm_inner lm)" if "r = Inr (Some obj)"
    using assms that get_law(1) [of "lm_inner lm" key] peek_in_values [of "lm_inner lm" key obj]
    by (auto simp: lru_manager_get_def split: if_splits prod.splits)
qed

lemma evict_entries:
  assumes "evict_if_generation L lm key gen = (r, lm')"
  shows "case r of None \<Rightarrow> lru_values L (lm_inner lm') = lru_values L (lm_inner lm)
         | Some (_, v) \<Rightarrow> add_mset v (lru_values L (lm_inner lm')) = lru_values L (lm_inner lm) \<and> co_generation v = gen"
  using assms values_pop [of "lm_inner lm" key] pop_law(1) [of "lm_inner lm" key]
  by (auto simp: evict_if_generation_def displaced_values_def split: if_splits prod.splits option.splits)

subsection \<open>Pushing and evicting hand the files over\<close>

lemma push_weighted:
  fixes s :: "('c, 'p) cache_sys"
  assumes once: "\<And>p. count (owned L s + obj_paths obj) p \<le> 1"
    and g: "\<And>v :: 'p cache_object. sum_mset (image_mset g (evict_task v)) = obj_paths v"
  shows "entry_paths L (task_push L key obj s) + over_tasks g (task_push L key obj s) = entry_paths L s + over_tasks g s + obj_paths obj"
proof -
  obtain r lm where push: "lru_manager_push L (cy_lru s) key obj = (r, lm)" by fastforce
  show ?thesis
  proof (cases r)
    case (Inl e)
    then show ?thesis using push push_failed [of "cy_lru s" key obj e lm] g by (simp add: task_push_def ac_simps)
  next
    case (Inr d)
    have "lru_values L (lm_inner lm) + displaced_values d = add_mset obj (entries L s)"
      using push_entries push Inr by simp
    then have "sum_mset (image_mset obj_paths (lru_values L (lm_inner lm) + displaced_values d)) =
        sum_mset (image_mset obj_paths (add_mset obj (entries L s)))" by simp
    then have cons: "sum_mset (image_mset obj_paths (lru_values L (lm_inner lm))) +
        sum_mset (image_mset obj_paths (displaced_values d)) = obj_paths obj + entry_paths L s" by simp
    show ?thesis
    proof (cases d)
      case None
      then show ?thesis using push Inr cons by (simp add: task_push_def displaced_values_def ac_simps)
    next
      case (Some kv)
      obtain k v where kv: "kv = (k, v)" by fastforce
      have v: "v \<in># entries L s" using push_displaced push Inr Some kv by simp
      have none: "obj_paths v = {#}" if same: "target_file (co_target v) = target_file (co_target obj)"
      proof (rule ccontr)
        assume "obj_paths v \<noteq> {#}"
        then obtain p where p: "obj_paths v = {#p#}" "obj_paths obj = {#p#}" using same by (auto simp: obj_paths_def split: option.splits)
        have "p \<in># entry_paths L s" using v p(1) by (auto simp: in_Union_mset_iff intro!: bexI [of _ v])
        then have "p \<in># owned L s" by (simp add: owned_def)
        then show False using once [of p] p(2) by (auto simp: count_eq_zero_iff)
      qed
      show ?thesis
        using push Inr Some kv cons g [of v] none by (auto simp: task_push_def displaced_values_def ac_simps)
    qed
  qed
qed

lemma push_hands_over:
  assumes "\<And>p. count (owned L s + obj_paths obj) p \<le> 1"
  shows "owned L (task_push L key obj s) = owned L s + obj_paths obj"
    and "counted L (task_push L key obj s) = counted L s + obj_paths obj"
    and "committed L (task_push L key obj s) = committed L s + obj_paths obj"
  unfolding path_sum_defs by (rule push_weighted [OF assms evict_task_paths(1)] push_weighted [OF assms evict_task_paths(2)]
      push_weighted [OF assms evict_task_paths(3)])+

lemma evict_hands_over:
  assumes uniq: "\<forall>a. a \<in># entries L s \<longrightarrow> co_generation a = co_generation obj \<longrightarrow> a = obj"
    and g: "\<And>v :: 'p cache_object. sum_mset (image_mset g (evict_task v)) = obj_paths v"
  shows "entry_paths L (task_evict L key obj s) + over_tasks g (task_evict L key obj s) = entry_paths L s + over_tasks g s"
proof -
  obtain r lm where ev: "evict_if_generation L (cy_lru s) key (co_generation obj) = (r, lm)" by fastforce
  note e = evict_entries [OF ev]
  show ?thesis
  proof (cases r)
    case None
    then show ?thesis using ev e by (simp add: task_evict_def)
  next
    case (Some kv)
    then obtain k v where kv: "kv = (k, v)" by fastforce
    have pop: "entries L s = add_mset v (lru_values L (lm_inner lm))" and gen: "co_generation v = co_generation obj"
      using e Some kv by simp_all
    have "v = obj" using uniq pop gen by simp
    then show ?thesis using ev Some pop g [of obj] by (simp add: task_evict_def ac_simps)
  qed
qed

lemma push_objs: "sys_objs L (task_push L key obj s) \<subseteq> insert obj (sys_objs L s)"
proof -
  obtain r lm where push: "lru_manager_push L (cy_lru s) key obj = (r, lm)" by fastforce
  have "set_mset (lru_values L (lm_inner lm)) \<subseteq> insert obj (set_mset (entries L s))"
  proof (cases r)
    case (Inl e)
    then have "lm = cy_lru s" using push push_failed by blast
    then show ?thesis by auto
  next
    case (Inr d)
    then have "lru_values L (lm_inner lm) \<subseteq># add_mset obj (entries L s)" using push_entries push by (metis mset_subset_eq_add_left)
    then show ?thesis using set_mset_mono by fastforce
  qed
  then show ?thesis
    using push by (auto simp: task_push_def sys_objs_def dest: evict_task_objs split: sum.splits option.splits if_splits)
qed

lemma evict_objs: "sys_objs L (task_evict L key obj s) \<subseteq> sys_objs L s"
proof -
  obtain r lm where ev: "evict_if_generation L (cy_lru s) key (co_generation obj) = (r, lm)" by fastforce
  have "set_mset (lru_values L (lm_inner lm)) \<subseteq> set_mset (entries L s)"
    using evict_entries [OF ev] by (auto split: option.splits) (metis insert_iff set_mset_add_mset_insert)+
  then show ?thesis
    using ev by (auto simp: task_evict_def sys_objs_def dest: evict_task_objs split: option.splits)
qed

subsection \<open>Every step keeps the invariant\<close>

lemma objs_mono_inv:
  assumes "gen_inv L n s" "sys_objs L t \<subseteq> sys_objs L s" "cy_gen t = cy_gen s"
  shows "gen_inv L (Suc n) t"
proof -
  have "\<And>a b. a \<in> sys_objs L t \<Longrightarrow> b \<in> sys_objs L t \<Longrightarrow> co_generation a = co_generation b \<Longrightarrow> a = b"
    using assms(1,2) unfolding gen_inv_def by blast
  then show ?thesis using assms unfolding gen_inv_def by (auto simp: subset_iff)
qed

lemma store_gen_inv:
  assumes inv: "gen_inv L n s" and n: "Suc n < 2 ^ 64" and sub: "sys_objs L s' \<subseteq> sys_objs L s" "cy_gen s' = cy_gen s"
  shows "gen_inv L (Suc n) (task_store key policy target hash s')"
proof -
  let ?obj = "\<lparr>co_policy = policy, co_target = target, co_hash = hash, co_generation = cy_gen s\<rparr>"
  have g: "unat (cy_gen s + 1) = Suc (unat (cy_gen s))" using inv n by (intro unat_succ) (simp add: gen_inv_def)
  have objs: "sys_objs L (task_store key policy target hash s') = insert ?obj (sys_objs L s')"
    using sub(2) by (auto simp: task_step_defs sys_objs_def)
  have lt: "\<And>b. b \<in> sys_objs L s' \<Longrightarrow> unat (co_generation b) < unat (cy_gen s)" using inv sub(1) by (auto simp: gen_inv_def)
  then have "\<forall>b \<in> sys_objs L s'. co_generation b \<noteq> cy_gen s" by fastforce
  moreover have "\<And>a b. a \<in> sys_objs L s' \<Longrightarrow> b \<in> sys_objs L s' \<Longrightarrow> co_generation a = co_generation b \<Longrightarrow> a = b"
    using inv sub(1) unfolding gen_inv_def by blast
  ultimately show ?thesis
    using inv g sub(2) lt unfolding gen_inv_def objs
    by (auto simp: task_step_defs less_Suc_eq)
qed

lemma step_gen_inv:
  assumes "cache_step L names faulty s t" "gen_inv L n s" "Suc n < 2 ^ 64"
  shows "gen_inv L (Suc n) t"
  using assms(1)
proof cases
  case (commit p ts key policy hash)
  show ?thesis unfolding commit(1) by (rule store_gen_inv [OF assms(2,3)]) (auto simp: sys_objs_def commit(2))
next
  case (store_memory key policy d hash)
  show ?thesis unfolding store_memory by (rule store_gen_inv [OF assms(2,3)]) simp_all
next
  case (push_new key obj ts)
  have "sys_objs L t \<subseteq> sys_objs L s"
    using push_objs [of key obj "without ts s"] push_new by (auto simp: sys_objs_def)
  moreover have "cy_gen t = cy_gen s" unfolding push_new(1) task_push_def by (auto split: prod.splits sum.splits option.splits)
  ultimately show ?thesis by (rule objs_mono_inv [OF assms(2)])
next
  case (evict key obj ts)
  have "sys_objs L t \<subseteq> sys_objs L s"
    using evict_objs [of key obj "without ts s"] evict by (auto simp: sys_objs_def)
  moreover have "cy_gen t = cy_gen s" unfolding evict(1) task_evict_def by (auto split: prod.splits option.splits)
  ultimately show ?thesis by (rule objs_mono_inv [OF assms(2)])
next
  case (lookup key)
  obtain r lm where get: "lru_manager_get L (cy_lru s) key = (r, lm)" by fastforce
  have "sys_objs L t \<subseteq> sys_objs L s" "cy_gen t = cy_gen s"
    using get_entries [OF get] unfolding lookup task_lookup_def get
    by (auto simp: sys_objs_def split: sum.splits option.splits)
  then show ?thesis by (rule objs_mono_inv [OF assms(2)])
qed (rule objs_mono_inv [OF assms(2)]; auto simp: task_step_defs sys_objs_def)+

text \<open>Which steps change what.\<close>

lemma push_step:
  assumes "paths_inv L names n s" "cy_tasks s = add_mset (PubPush key obj) ts"
  shows "owned L (task_push L key obj (without ts s)) = owned L s"
    and "counted L (task_push L key obj (without ts s)) = counted L s"
    and "committed L (task_push L key obj (without ts s)) = committed L s"
proof -
  have o: "owned L s = owned L (without ts s) + obj_paths obj" "counted L s = counted L (without ts s) + obj_paths obj"
      "committed L s = committed L (without ts s) + obj_paths obj"
    using assms(2) by (simp_all add: path_sum_defs ac_simps)
  have once: "\<And>p. count (owned L (without ts s) + obj_paths obj) p \<le> 1" using assms(1) o(1) by (simp add: paths_inv_def)
  show "owned L (task_push L key obj (without ts s)) = owned L s"
    and "counted L (task_push L key obj (without ts s)) = counted L s"
    and "committed L (task_push L key obj (without ts s)) = committed L s"
    using push_hands_over [OF once, of key] o by simp_all
qed

lemma evict_step:
  assumes "gen_inv L n s" "cy_tasks s = add_mset (Loaded key obj) ts"
  shows "owned L (task_evict L key obj (without ts s)) = owned L s"
    and "counted L (task_evict L key obj (without ts s)) = counted L s"
    and "committed L (task_evict L key obj (without ts s)) = committed L s"
proof -
  have "obj \<in> sys_objs L s" "set_mset (entries L s) \<subseteq> sys_objs L s" using assms(2) by (auto simp: sys_objs_def)
  then have uniq: "\<forall>a. a \<in># entries L (without ts s) \<longrightarrow> co_generation a = co_generation obj \<longrightarrow> a = obj"
    using assms(1) unfolding gen_inv_def by auto
  note e = evict_hands_over [where key = key, OF uniq]
  show "owned L (task_evict L key obj (without ts s)) = owned L s"
    and "counted L (task_evict L key obj (without ts s)) = counted L s"
    and "committed L (task_evict L key obj (without ts s)) = committed L s"
    using e [OF evict_task_paths(1)] e [OF evict_task_paths(2)] e [OF evict_task_paths(3)] assms(2)
    by (simp_all add: path_sum_defs)
qed

lemma lookup_step:
  "owned L (task_lookup L key s) = owned L s" "counted L (task_lookup L key s) = counted L s"
  "committed L (task_lookup L key s) = committed L s"
proof -
  obtain r lm where get: "lru_manager_get L (cy_lru s) key = (r, lm)" by fastforce
  show "owned L (task_lookup L key s) = owned L s" "counted L (task_lookup L key s) = counted L s"
    "committed L (task_lookup L key s) = committed L s"
    using get_entries(1) [OF get] unfolding path_sum_defs task_lookup_def get
    by (auto split: sum.splits option.splits)
qed

lemma step_fields:
  "cy_seq (task_push L key obj s) = cy_seq s" "cy_cnt (task_push L key obj s) = cy_cnt s" "cy_files (task_push L key obj s) = cy_files s"
  "cy_seq (task_evict L key obj s) = cy_seq s" "cy_cnt (task_evict L key obj s) = cy_cnt s" "cy_files (task_evict L key obj s) = cy_files s"
  "cy_seq (task_lookup L key s) = cy_seq s" "cy_cnt (task_lookup L key s) = cy_cnt s" "cy_files (task_lookup L key s) = cy_files s"
  by (auto simp: task_push_def task_evict_def task_lookup_def split: prod.splits sum.splits option.splits)

lemma paths_inv_shrink:
  assumes "paths_inv L names n s" "owned L t \<subseteq># owned L s" "cy_seq t = cy_seq s"
  shows "paths_inv L names (Suc n) t"
proof -
  have "count (owned L t) p \<le> 1" for p
    using assms(1) mset_subset_eq_count [OF assms(2), of p] unfolding paths_inv_def by (meson order_trans)
  moreover have "size (owned L t) \<le> unat (cy_seq s)"
    using assms(1) size_mset_mono [OF assms(2)] unfolding paths_inv_def by simp
  ultimately show ?thesis
    using assms mset_subset_eqD [OF assms(2)] unfolding paths_inv_def by auto
qed

lemma start_file_paths_inv:
  assumes inv: "paths_inv L names n s" and n: "Suc n < 2 ^ 64" and p: "p \<in> names (cy_seq s)"
  shows "paths_inv L names (Suc n) (task_start_file p s)"
proof -
  have seq: "unat (cy_seq s + 1) = Suc (unat (cy_seq s))" using inv n by (intro unat_succ) (simp add: paths_inv_def)
  have "p \<notin># owned L s"
  proof
    assume "p \<in># owned L s"
    then obtain q where q: "unat q < unat (cy_seq s)" "p \<in> names q" using inv by (auto simp: paths_inv_def)
    then have "q \<noteq> cy_seq s" by auto
    then show False using names_law p q(2) by (auto simp: distinct_names_def)
  qed
  then have c: "count (owned L s) p = 0" by (simp add: count_eq_zero_iff)
  have o: "owned L (task_start_file p s) = add_mset p (owned L s)" by (simp add: task_step_defs owned_def)
  have "\<exists>q. unat q < unat (cy_seq s + 1) \<and> p' \<in> names q" if "p' \<in># add_mset p (owned L s)" for p'
  proof (cases "p' = p")
    case True
    then show ?thesis using p seq by (intro exI [of _ "cy_seq s"]) simp
  next
    case False
    then have "p' \<in># owned L s" using that by simp
    then obtain q where "unat q < unat (cy_seq s)" "p' \<in> names q" using inv unfolding paths_inv_def by blast
    then show ?thesis using seq by (intro exI [of _ q]) simp
  qed
  moreover have "cy_seq (task_start_file p s) = cy_seq s + 1" by (simp add: task_start_file_def)
  ultimately show ?thesis using inv c seq unfolding paths_inv_def o by auto
qed

lemma step_paths_inv:
  assumes "cache_step L names faulty s t" "paths_inv L names n s" "gen_inv L n s" "Suc n < 2 ^ 64"
  shows "paths_inv L names (Suc n) t"
  using assms(1)
proof cases
  case (start_file p)
  then show ?thesis using start_file_paths_inv [OF assms(2,4)] by simp
next
  case (push_new key obj ts)
  then show ?thesis using push_step(1) [OF assms(2) push_new(2)] by (intro paths_inv_shrink [OF assms(2)]) (simp_all add: step_fields)
next
  case (evict key obj ts)
  then show ?thesis using evict_step(1) [OF assms(3) evict(2)] by (intro paths_inv_shrink [OF assms(2)]) (simp_all add: step_fields)
next
  case (lookup key)
  then show ?thesis by (intro paths_inv_shrink [OF assms(2)]) (simp_all add: step_fields lookup_step)
qed (rule paths_inv_shrink [OF assms(2)]; simp add: task_step_defs owned_def obj_paths_def target_file_def)+

lemma count_new_count:
  assumes "paths_inv L names n s" "Suc n < 2 ^ 64" "count_inv L s" "cy_tasks s = add_mset (PubCount key obj) ts"
  shows "count_inv L (task_count key obj (without ts s))"
proof -
  have c: "counted L (task_count key obj (without ts s)) = counted L s + obj_paths obj"
    using assms(4) by (simp add: task_step_defs counted_def ac_simps)
  have "counted L (without ts s) + obj_paths obj \<subseteq># owned L (without ts s) + obj_paths obj"
    using counted_sub_owned by (rule subset_mset.add_right_mono)
  moreover have "owned L (without ts s) + obj_paths obj = owned L s" "counted L (without ts s) = counted L s"
    using assms(4) by (simp_all add: path_sum_defs ac_simps)
  ultimately have "size (counted L s) + size (obj_paths obj) \<le> size (owned L s)" by (metis size_mset_mono size_union)
  then have "size (counted L s) + size (obj_paths obj) \<le> n" using assms(1) by (simp add: paths_inv_def)
  then show ?thesis
    using obj_paths_cases [of obj] assms(2,3) unat_succ [of "cy_cnt s"] c
    unfolding count_inv_def by (auto simp: task_count_def)
qed

lemma step_count_inv:
  assumes "cache_step L names faulty s t" "paths_inv L names n s" "gen_inv L n s" "Suc n < 2 ^ 64" "count_inv L s"
  shows "count_inv L t"
  using assms(1)
proof cases
  case (count_new key obj ts)
  then show ?thesis using count_new_count [OF assms(2,4,5)] by simp
next
  case (push_new key obj ts)
  then show ?thesis using push_step(2) [OF assms(2) push_new(2)] assms(5) by (simp add: count_inv_def step_fields)
next
  case (evict key obj ts)
  then show ?thesis using evict_step(2) [OF assms(3) evict(2)] assms(5) by (simp add: count_inv_def step_fields)
next
  case (lookup key)
  then show ?thesis using assms(5) by (simp add: count_inv_def step_fields lookup_step)
qed (use assms(5) in \<open>simp add: count_inv_def task_step_defs counted_def unat_saturating_dec\<close>)+

lemma step_files_inv:
  assumes "cache_step L names faulty s t" "paths_inv L names n s" "gen_inv L n s" "files_inv L faulty s"
  shows "files_inv L faulty t"
  using assms(1)
proof cases
  case (push_new key obj ts)
  then show ?thesis using push_step(3) [OF assms(2) push_new(2)] assms(4) by (simp add: files_inv_def step_fields)
next
  case (evict key obj ts)
  then show ?thesis using evict_step(3) [OF assms(3) evict(2)] assms(4) by (simp add: files_inv_def step_fields)
next
  case (lookup key)
  then show ?thesis using assms(4) by (simp add: files_inv_def step_fields lookup_step)
next
  case (remove_file p ts)
  have c: "committed L s = add_mset p (committed L t)" using remove_file by (simp add: task_step_defs committed_def)
  have "count (committed L s) p \<le> 1"
    using mset_subset_eq_count [OF committed_sub_owned, of L s p] assms(2) unfolding paths_inv_def by (meson order_trans)
  then have "p \<notin># committed L t" using c by (simp add: count_eq_zero_iff [symmetric])
  then show ?thesis using assms(4) c remove_file by (auto simp: files_inv_def task_remove_file_def)
qed (use assms(4) in \<open>auto simp: files_inv_def task_step_defs committed_def obj_paths_def target_file_def\<close>)+

lemma run_inv:
  assumes "cache_run L names faulty m n s" "n < 2 ^ 64"
  shows "paths_inv L names n s \<and> gen_inv L n s \<and> count_inv L s \<and> files_inv L faulty s"
  using assms
proof (induction rule: cache_run.induct)
  case (init lm)
  then have "lru_values L (lm_inner lm) = {#}" by (auto simp: lru_manager_new_def values_new split: if_splits)
  then show ?case
    by (simp add: paths_inv_def gen_inv_def count_inv_def files_inv_def path_sum_defs sys_objs_def cache_init_def)
next
  case (step n s t)
  then have inv: "paths_inv L names n s" "gen_inv L n s" "count_inv L s" "files_inv L faulty s" by auto
  show ?case
    using step_paths_inv [OF step.hyps(2) inv(1,2) step.prems] step_gen_inv [OF step.hyps(2) inv(2) step.prems]
      step_count_inv [OF step.hyps(2) inv(1,2) step.prems inv(3)] step_files_inv [OF step.hyps(2) inv(1,2,4)] by blast
qed

lemma owned_once:
  assumes "cache_run L names faulty m n s" "n < 2 ^ 64"
  shows "count (entry_paths L s) p + count (over_tasks task_paths s) p \<le> 1"
  using run_inv [OF assms] unfolding paths_inv_def owned_def by (simp only: count_union)

end

interpretation cache_tasks_recency: cache_tasks recency_api "cache_names D U pid dir" for D and U :: "'u uri_api" and pid dir
  by unfold_locales (rule distinct_cache_names)

section \<open>Properties\<close>

lemma cache_tasks_names: "lru_laws L \<Longrightarrow> cache_tasks L (cache_names D U pid dir)"
  by (simp add: cache_tasks_def cache_tasks_axioms_def distinct_cache_names)

lemma size_entry_paths: "size (sum_mset (image_mset obj_paths M)) = size (filter_mset (\<lambda>obj. target_file (co_target obj) \<noteq> None) M)"
  by (induction M) (auto simp: obj_paths_def)

lemma in_obj_paths: "p \<in># obj_paths obj \<longleftrightarrow> target_file (co_target obj) = Some p"
  by (auto simp: obj_paths_def split: option.splits)

subsection \<open>A run\<close>

definition sample_names :: "u64 \<Rightarrow> path set" where
  "sample_names = cache_names sample_digest parts_api 1 ''c''"

definition sample_path :: path where
  "sample_path = snd (unique_cache_paths sample_digest parts_api 1 ''c'' sample_cache_uri 0 0)"

definition sample_object :: "unit cache_object" where
  "sample_object = \<lparr>co_policy = (), co_target = TargetFile sample_path, co_hash = ''h'', co_generation = 0\<rparr>"

text \<open>One file is stored and published.\<close>

definition sample_stored :: "(unit cache_object recency_list, unit) cache_sys" where
  "sample_stored = \<lparr>cy_lru = \<lparr>lm_inner = (2, [(''k'', sample_object)]), lm_cnt = 1, lm_poisoned = False\<rparr>, cy_cnt = 1,
     cy_files = {sample_path}, cy_gen = 1, cy_seq = 1, cy_tasks = {#}\<rparr>"

lemma sample_stored_run: "cache_run recency_api sample_names False 2 4 sample_stored"
proof -
  let ?s0 = "cache_init \<lparr>lm_inner = (2, []), lm_cnt = 0, lm_poisoned = False\<rparr> :: (unit cache_object recency_list, unit) cache_sys"
  let ?s1 = "task_start_file sample_path ?s0"
  let ?s2 = "task_store ''k'' () (TargetFile sample_path) ''h'' (without {#} ?s1)"
  let ?s3 = "task_count ''k'' sample_object (without {#} ?s2)"
  have "cache_run recency_api sample_names False 2 0 ?s0"
    by (rule cache_run.init) (simp add: lru_manager_new_def recency_api_def)
  then have "cache_run recency_api sample_names False 2 (Suc 0) ?s1"
    by (rule cache_run.step) (rule cache_step.start_file, auto simp: sample_names_def sample_path_def cache_names_def cache_init_def)
  then have "cache_run recency_api sample_names False 2 (Suc (Suc 0)) ?s2"
    by (rule cache_run.step) (rule cache_step.commit, simp add: task_start_file_def cache_init_def)
  then have "cache_run recency_api sample_names False 2 (Suc (Suc (Suc 0))) ?s3"
    by (rule cache_run.step) (rule cache_step.count_new, simp add: task_step_defs sample_object_def cache_init_def)
  then have "cache_run recency_api sample_names False 2 (Suc (Suc (Suc (Suc 0)))) (task_push recency_api ''k'' sample_object (without {#} ?s3))"
    by (rule cache_run.step) (rule cache_step.push_new, simp add: task_step_defs sample_object_def cache_init_def)
  moreover have "task_push recency_api ''k'' sample_object (without {#} ?s3) = sample_stored"
    by (simp add: task_push_def lru_manager_push_def recency_api_def task_step_defs cache_init_def sample_stored_def
        sample_object_def target_file_def)
  ultimately show ?thesis by (simp add: numeral_eq_Suc)
qed

text \<open>Then a lookup finds it stale and evicts it.\<close>

definition sample_evicted :: "(unit cache_object recency_list, unit) cache_sys" where
  "sample_evicted = task_evict recency_api ''k'' sample_object (without {#} (task_lookup recency_api ''k'' sample_stored))"

lemma sample_evicted_run: "cache_run recency_api sample_names False 2 6 sample_evicted"
proof -
  have six: "6 = Suc (Suc 4)" by simp
  show ?thesis
    unfolding six sample_evicted_def
    by (rule cache_run.step, rule cache_run.step, rule sample_stored_run, rule cache_step.lookup, rule cache_step.evict)
      (simp add: task_lookup_def lru_manager_get_def recency_api_def sample_stored_def)
qed

text \<open>
  C23: The file count is exact.  In every interleaving of stores, lookups, evictions, I/O faults and
  mutex poisoning, the atomic counter is the number of cached files plus the files that a task has
  counted and not yet published, or evicted and not yet discounted; so the saturating decrement never
  saturates, and when no task is running the counter is the number of file entries in the map.
\<close>

theorem cache_count_exact:
  assumes "lru_laws L" and "cache_run L (cache_names D U pid dir) faulty m n s" and "n < 2 ^ 64"
  shows "unat (cy_cnt s) = size (counted L s) \<and> (\<forall>p. RemoveCount p \<in># cy_tasks s \<longrightarrow> cy_cnt s \<noteq> 0) \<and>
         (cy_tasks s = {#} \<longrightarrow> unat (cy_cnt s) = size (filter_mset (\<lambda>obj. target_file (co_target obj) \<noteq> None) (entries L s)))"
proof -
  have c: "unat (cy_cnt s) = size (counted L s)"
    using cache_tasks.run_inv [OF cache_tasks_names [OF assms(1)] assms(2,3)] by (simp add: count_inv_def)
  moreover have "cy_cnt s \<noteq> 0" if "RemoveCount p \<in># cy_tasks s" for p
  proof -
    from multi_member_split [OF that] have "\<exists>ts. cy_tasks s = add_mset (RemoveCount p) ts" .
    then have "0 < size (counted L s)" by (auto simp: counted_def)
    then show ?thesis using c by auto
  qed
  moreover have "size (counted L s) = size (filter_mset (\<lambda>obj. target_file (co_target obj) \<noteq> None) (entries L s))"
    if "cy_tasks s = {#}"
    using that unfolding counted_def size_union size_entry_paths by simp
  ultimately show ?thesis by simp
qed

theorem cache_count_exact_witness:
  "unat (cy_cnt sample_stored) = size (filter_mset (\<lambda>obj. target_file (co_target obj) \<noteq> None) (entries recency_api sample_stored))"
  using cache_count_exact [OF lru_recency.lru_laws_axioms sample_stored_run [unfolded sample_names_def]]
  by (simp add: sample_stored_def)

text \<open>
  C5: A live file is never removed.  A file that some task is about to unlink belongs to no entry of the
  map and to no object waiting to be published, and no other task is about to unlink it: the
  generation check and the generation-unique names make the lock-free removal safe, although a lookup
  acts on an object it loaded earlier.
\<close>

theorem cache_eviction_safe:
  assumes "lru_laws L" and "cache_run L (cache_names D U pid dir) faulty m n s" and "n < 2 ^ 64"
    and "RemoveFile p \<in># cy_tasks s \<or> RemoveCount p \<in># cy_tasks s"
  shows "(\<forall>obj \<in># entries L s. target_file (co_target obj) \<noteq> Some p) \<and>
         (\<forall>key obj. PubCount key obj \<in># cy_tasks s \<or> PubPush key obj \<in># cy_tasks s \<longrightarrow> target_file (co_target obj) \<noteq> Some p) \<and>
         count (cy_tasks s) (RemoveFile p) + count (cy_tasks s) (RemoveCount p) = 1"
proof -
  note once = cache_tasks.owned_once [OF cache_tasks_names [OF assms(1)] assms(2,3), of p]
  obtain t ts where ts: "cy_tasks s = add_mset t ts" "t = RemoveFile p \<or> t = RemoveCount p"
    using assms(4) by (auto dest!: multi_member_split)
  have t: "task_paths t = {#p#}" using ts(2) by auto
  have e: "p \<notin># entry_paths L s" "p \<notin># sum_mset (image_mset task_paths ts)"
    using once ts(1) t by (auto simp: count_eq_zero_iff)
  have no: "t' \<notin># ts" if "p \<in># task_paths t'" for t'
    using e(2) that by (auto dest!: multi_member_split)
  have entries: "\<forall>obj \<in># entries L s. target_file (co_target obj) \<noteq> Some p" using e(1) by (simp add: in_obj_paths)
  have "target_file (co_target obj) \<noteq> Some p" if "PubCount key obj \<in># cy_tasks s \<or> PubPush key obj \<in># cy_tasks s" for key obj
    using that ts no [of "PubCount key obj"] no [of "PubPush key obj"] by (auto simp: obj_paths_def)
  moreover have "count ts (RemoveFile p) = 0" "count ts (RemoveCount p) = 0"
    using no [of "RemoveFile p"] no [of "RemoveCount p"] by (simp_all add: count_eq_zero_iff)
  ultimately show ?thesis using entries ts by auto
qed

theorem cache_eviction_safe_witness:
  "RemoveCount sample_path \<in># cy_tasks sample_evicted \<and>
   count (cy_tasks sample_evicted) (RemoveFile sample_path) + count (cy_tasks sample_evicted) (RemoveCount sample_path) = 1"
proof -
  have "RemoveCount sample_path \<in># cy_tasks sample_evicted"
    by (simp add: sample_evicted_def task_evict_def evict_if_generation_def task_lookup_def lru_manager_get_def recency_api_def
        sample_stored_def sample_object_def evict_task_def target_file_def)
  then show ?thesis
    using cache_eviction_safe [OF lru_recency.lru_laws_axioms sample_evicted_run [unfolded sample_names_def]] by simp
qed

text \<open>
  C24: No file is leaked and none is missing.  As long as unlinking works and nothing else touches the
  cache directory, the committed files are at every moment exactly those of the entries and of the
  tasks in flight; when no task is running they are exactly the files of the entries.
\<close>

theorem cache_files_exact:
  assumes "lru_laws L" and "cache_run L (cache_names D U pid dir) False m n s" and "n < 2 ^ 64"
  shows "cy_files s = set_mset (committed L s) \<and>
         (cy_tasks s = {#} \<longrightarrow> cy_files s = {p. \<exists>obj \<in># entries L s. target_file (co_target obj) = Some p})"
  using cache_tasks.run_inv [OF cache_tasks_names [OF assms(1)] assms(2,3)]
  by (auto simp: files_inv_def committed_def in_obj_paths)

theorem cache_files_exact_witness:
  "cy_files sample_stored = {p. \<exists>obj \<in># entries recency_api sample_stored. target_file (co_target obj) = Some p}"
  using cache_files_exact [OF lru_recency.lru_laws_axioms sample_stored_run [unfolded sample_names_def]]
  by (simp add: sample_stored_def)

end
