(* ===== verification/Forwarder.thy ===== *)
theory Forwarder
  imports Cache_Lru Handler_Request
begin

text \<open>
  The forwarder (\<open>forwarder/client.rs\<close>): the cache in front of the upstream clients.  The clients of
  \<open>hyper-util\<close> and the caching policy of \<open>http-cache-semantics\<close> are arguments.
\<close>

section \<open>Definitions\<close>

text \<open>The policy of a request and its response; whether it may be stored; its verdict on a later request.\<close>

record ('h, 'u, 'b, 'p) policy_api =
  policy_new :: "('h, 'u, unit) request \<Rightarrow> ('h, 'b) response \<Rightarrow> 'p"
  policy_is_storable :: "'p \<Rightarrow> bool"
  policy_before_request :: "'p \<Rightarrow> ('h, 'u, unit) request \<Rightarrow> (nat \<times> 'h) option"

text \<open>\<open>ResponseBody\<close>: the upstream body passed on, a cached one, or the upstream body relayed by the store task.\<close>

datatype 'b response_body = Incoming 'b | FromCache cached_body | Streamed 'b

definition cache_effective_uri :: "('h, 'u, 'b) request \<Rightarrow> 'u option" where
  "cache_effective_uri req = rq_effective_uri req"

definition build_synth_req_for_cache :: "'h header_api \<Rightarrow> ('h, 'u, 'b) request \<Rightarrow> 'u \<Rightarrow> ('h, 'u, unit) request" where
  "build_synth_req_for_cache H req effective_uri =
     \<lparr>rq_method = rq_method req, rq_uri = effective_uri, rq_version = rq_version req,
      rq_headers = foldl (\<lambda>h (k, v). hm_append H h k v) (hm_empty H) (hm_iter H (rq_headers req)),
      rq_effective_uri = None, rq_body = ()\<rparr>"

text \<open>The two clients; \<open>None\<close> is their error.\<close>

definition request_directly :: "(('h, 'u, 'b) request \<Rightarrow> ('h, 'c) response option) \<Rightarrow> (('h, 'u, 'b) request \<Rightarrow> ('h, 'c) response option) \<Rightarrow>
    ('h, 'u, 'b) request \<Rightarrow> rpxy_error + ('h, 'c) response" where
  "request_directly inner inner_h2 req =
     ok_or (if rq_version req = HTTP_2 then inner_h2 req else inner req) FailedToFetchFromUpstream"

definition map_body :: "('c \<Rightarrow> 'd) \<Rightarrow> ('h, 'c) response \<Rightarrow> ('h, 'd) response" where
  "map_body f res = \<lparr>rs_status = rs_status res, rs_headers = rs_headers res, rs_body = map_option f (rs_body res)\<rparr>"

text \<open>
  \<open>Forwarder::request\<close>.  The result, the cache after the lookup, and the URI and policy with which the
  store task is spawned, if it is.
\<close>

definition forwarder_request :: "'h header_api \<Rightarrow> 'u uri_api \<Rightarrow> ('l, 'p cache_object) lru_api \<Rightarrow> ('h, 'u, 'c, 'p) policy_api \<Rightarrow> io \<Rightarrow> bool \<Rightarrow>
    (('h, 'u, 'b) request \<Rightarrow> ('h, 'c) response option) \<Rightarrow> (('h, 'u, 'b) request \<Rightarrow> ('h, 'c) response option) \<Rightarrow>
    'l rpxy_cache option \<Rightarrow> ('h, 'u, 'b) request \<Rightarrow>
    (rpxy_error + ('h, 'c response_body) response) \<times> 'l rpxy_cache option \<times> ('u \<times> 'p) option" where
  "forwarder_request H U L P io can_open inner inner_h2 cache req =
     (let pass = (\<lambda>res. case res of Inl e \<Rightarrow> Inl e | Inr r \<Rightarrow> Inr (map_body Incoming r))
      in case cache of
           None \<Rightarrow> (pass (request_directly inner inner_h2 req), None, None)
         | Some c \<Rightarrow>
             (case cache_effective_uri req of
                None \<Rightarrow> (pass (request_directly inner inner_h2 req), Some c, None)
              | Some effective_uri \<Rightarrow>
                  let sreq = build_synth_req_for_cache H req effective_uri
                  in case cache_get L io (\<lambda>p. policy_before_request P p sreq) can_open
                            (derive_cache_key_from_effective_uri U (rq_uri sreq)) c of
                       (Some ((status, headers), body), c) \<Rightarrow>
                         (Inr \<lparr>rs_status = status, rs_headers = headers, rs_body = Some (FromCache body)\<rparr>, Some c, None)
                     | (None, c) \<Rightarrow>
                         (let res = request_directly inner inner_h2 req
                          in case get_policy_if_cacheable (policy_new P) (policy_is_storable P) (Some sreq) (res_ok res) of
                               Inr (Some cache_policy) \<Rightarrow>
                                 (case res of
                                    Inr r \<Rightarrow> (Inr (map_body Streamed r), Some c, Some (rq_uri sreq, cache_policy))
                                  | Inl e \<Rightarrow> (Inl e, Some c, None))
                             | _ \<Rightarrow> (pass res, Some c, None))))"

section \<open>The cache is keyed on what the client asked for\<close>







section \<open>Entries under other keys\<close>










end
